(* ===== verification/Prelude.thy ===== *)
theory Prelude
  imports Main "HOL-Library.Word" "HOL-Library.Multiset" "HOL-Library.Finite_Map"
begin

text \<open>
  What every component of the development shares: Go error values, Go maps and the
  order in which a \<^verbatim>\<open>range\<close> loop visits them, the slices stored in maps, the
  contract of \<^verbatim>\<open>sort.Slice\<close>, reachability of a transition system, and the
  generic lemmas the component proofs use.
\<close>

named_theorems go_map \<open>look-ups in Go maps of slices\<close>
named_theorems go_str \<open>Go string functions on constructor patterns\<close>
named_theorems go_path \<open>path functions on well-formed components\<close>

section \<open>Error values\<close>

text \<open>
  \<open>ErrNotExist\<close> is the error for which \<^verbatim>\<open>os.IsNotExist\<close> and
  \<^verbatim>\<open>errors.Is(err, fs.ErrNotExist)\<close> hold, \<open>ErrOS\<close> any other error a system
  call or a library returns, \<open>Errorf\<close> an error made from a message and \<open>Wrapf\<close>
  an error that wraps another (the verb \<^verbatim>\<open>%w\<close>).
\<close>

datatype go_error =
    ErrNotExist
  | ErrOS string
  | Errorf string
  | Wrapf string go_error

type_synonym 'a result = "go_error + 'a"

fun is_not_exist :: "go_error \<Rightarrow> bool" where
  "is_not_exist ErrNotExist = True"
| "is_not_exist (ErrOS _) = False"
| "is_not_exist (Errorf _) = False"
| "is_not_exist (Wrapf _ e) = is_not_exist e"

section \<open>Go maps of slices\<close>

text \<open>
  A Go map is a finite map; reading a nil map is reading an empty one. \<^verbatim>\<open>m[k]\<close> for a map
  of slices is the empty slice where \<open>k\<close> is absent, and
  \<^verbatim>\<open>m[k] = append(m[k], v)\<close> creates the entry it misses.
\<close>

declare fmlookup_dom'_iff [simp]

definition get_slice :: "('k, 'v list) fmap \<Rightarrow> 'k \<Rightarrow> 'v list" where
  "get_slice m k = (case fmlookup m k of None \<Rightarrow> [] | Some vs \<Rightarrow> vs)"

definition map_append :: "('k, 'v list) fmap \<Rightarrow> 'k \<Rightarrow> 'v \<Rightarrow> ('k, 'v list) fmap" where
  "map_append m k v = fmupd k (get_slice m k @ [v]) m"

definition map_len :: "('k, 'v) fmap \<Rightarrow> nat" where
  "map_len m = fcard (fmdom m)"

lemma get_slice_None [simp]: "fmlookup m k = None \<Longrightarrow> get_slice m k = []"
  by (simp add: get_slice_def)

lemma get_slice_Some [simp]: "fmlookup m k = Some vs \<Longrightarrow> get_slice m k = vs"
  by (simp add: get_slice_def)

lemma in_get_slice: "x \<in> set (get_slice m k) \<longleftrightarrow> (\<exists>vs. fmlookup m k = Some vs \<and> x \<in> set vs)"
  by (cases "fmlookup m k") auto

lemma fmlookup_map_append [go_map]:
  "fmlookup (map_append m k v) k' = (if k' = k then Some (get_slice m k @ [v]) else fmlookup m k')"
  by (simp add: map_append_def)

lemma get_slice_map_append [go_map]:
  "get_slice (map_append m k v) k' = (if k' = k then get_slice m k @ [v] else get_slice m k')"
  by (simp add: map_append_def get_slice_def)

lemma map_len_0 [simp]: "map_len m = 0 \<longleftrightarrow> m = fmempty"
  by (metis map_len_def fcard_0_eq fmdom_empty fmrestrict_fset_dom fmrestrict_fset_null)

text \<open>The entry of a map whose slices are never empty.\<close>

definition slice_opt :: "'v list \<Rightarrow> 'v list option" where
  "slice_opt vs = (if vs = [] then None else Some vs)"

lemma slice_opt_eq_None [simp]: "slice_opt vs = None \<longleftrightarrow> vs = []"
  by (simp add: slice_opt_def)

lemma slice_opt_eq_Some [simp]: "slice_opt vs = Some ws \<longleftrightarrow> vs = ws \<and> ws \<noteq> []"
  by (auto simp: slice_opt_def)

lemma slice_opt_Nil [simp]: "slice_opt [] = None"
  by (simp add: slice_opt_def)

lemma get_slice_slice_opt: "fmlookup m k = slice_opt vs \<Longrightarrow> get_slice m k = vs"
  by (simp add: get_slice_def slice_opt_def split: if_splits)

lemma map_append_slice_opt:
  assumes "\<And>k'. fmlookup m k' = slice_opt (F k')"
  shows "fmlookup (map_append m k v) k' = slice_opt (if k' = k then F k @ [v] else F k')"
  using assms by (simp add: go_map get_slice_slice_opt slice_opt_def)

section \<open>The order of a range loop\<close>

text \<open>
  Go does not say in which order a \<^verbatim>\<open>range\<close> loop visits the keys of a map. The
  models take the order as a list of keys; \<open>range_order m ks\<close> says that \<open>ks\<close> is an
  order the loop may choose. A property stated under this hypothesis holds for all of them.
\<close>

definition range_order :: "('k, 'v) fmap \<Rightarrow> 'k list \<Rightarrow> bool" where
  "range_order m ks \<longleftrightarrow> distinct ks \<and> set ks = fmdom' m"

lemma range_orderD:
  assumes "range_order m ks"
  shows "distinct ks" and "set ks = fmdom' m"
  using assms by (simp_all add: range_order_def)

lemma range_order_mem: "range_order m ks \<Longrightarrow> k \<in> set ks \<longleftrightarrow> (\<exists>v. fmlookup m k = Some v)"
  by (simp add: range_order_def)

lemma range_order_mset:
  assumes "range_order m ks" and "range_order m ks'"
  shows "mset ks = mset ks'"
  using range_orderD [OF assms(1)] range_orderD [OF assms(2)]
  by (metis set_eq_iff_mset_eq_distinct)

lemma range_order_empty [simp]: "range_order fmempty ks \<longleftrightarrow> ks = []"
  by (auto simp: range_order_def)

section \<open>First occurrences\<close>

definition first_occ :: "'a list \<Rightarrow> 'a list" where
  "first_occ xs = rev (remdups (rev xs))"

lemma first_occ_Nil [simp]: "first_occ [] = []"
  by (simp add: first_occ_def)

lemma first_occ_snoc [simp]:
  "first_occ (xs @ [x]) = (if x \<in> set xs then first_occ xs else first_occ xs @ [x])"
  by (simp add: first_occ_def)

lemma set_first_occ [simp]: "set (first_occ xs) = set xs"
  by (simp add: first_occ_def)

lemma distinct_first_occ [simp]: "distinct (first_occ xs)"
  by (simp add: first_occ_def)

section \<open>Sorting a slice by a comparison of numbers\<close>

text \<open>
  What \<^verbatim>\<open>sort.Slice(xs, func(i, j) { return f(xs[i]) < f(xs[j]) })\<close> promises: a
  permutation of the slice, in ascending order of \<open>f\<close>. It promises nothing on the order of
  elements with equal numbers. Where \<open>f\<close> is injective on the slice the result is
  determined, and it does not depend on the order of the input.
\<close>

locale slice_sorter =
  fixes srt :: "'a list \<Rightarrow> 'a list" and f :: "'a \<Rightarrow> int"
  assumes srt_mset: "mset (srt xs) = mset xs"
    and srt_sorted: "sorted (map f (srt xs))"
begin

lemma srt_set: "set (srt xs) = set xs"
  by (metis srt_mset set_mset_mset)

lemma srt_distinct: "distinct (srt xs) = distinct xs"
  by (metis srt_mset mset_eq_imp_distinct_iff)

lemma srt_unique:
  assumes "inj_on f (set xs)" and "mset ys = mset xs" and "sorted (map f ys)"
  shows "ys = srt xs"
proof -
  have "mset (map f ys) = mset (map f (srt xs))"
    by (simp add: assms(2) srt_mset)
  then have "map f ys = map f (srt xs)"
    using assms(3) srt_sorted by (metis sorted_sort_id properties_for_sort)
  moreover have "inj_on f (set ys \<union> set (srt xs))"
    using assms(1,2) by (metis srt_set set_mset_mset sup.idem)
  ultimately show ?thesis
    by (rule map_inj_on)
qed

lemma srt_order_free:
  assumes "inj_on f (set xs)" and "mset ys = mset xs"
  shows "srt ys = srt xs"
  using assms by (intro srt_unique) (simp_all add: srt_mset srt_sorted)

end

section \<open>Transition systems\<close>

text \<open>
  A component with state is a predicate on initial states and a step relation. An invariant
  that holds initially and that every step keeps holds in every reachable state.
\<close>

inductive reach :: "('s \<Rightarrow> bool) \<Rightarrow> ('s \<Rightarrow> 's \<Rightarrow> bool) \<Rightarrow> 's \<Rightarrow> bool"
  for init step where
  reach_init: "init s \<Longrightarrow> reach init step s"
| reach_step: "reach init step s \<Longrightarrow> step s t \<Longrightarrow> reach init step t"

lemma reach_star: "reach init step s \<Longrightarrow> step\<^sup>*\<^sup>* s t \<Longrightarrow> reach init step t"
  by (rotate_tac, induction rule: rtranclp_induct) (blast intro: reach_step)+

lemma reach_mono: "reach init step s \<Longrightarrow> (\<And>s. init s \<Longrightarrow> init' s) \<Longrightarrow> reach init' step s"
  by (induction rule: reach.induct) (blast intro: reach.intros)+

locale invariant_system =
  fixes init :: "'s \<Rightarrow> bool" and step :: "'s \<Rightarrow> 's \<Rightarrow> bool" and I :: "'s \<Rightarrow> bool"
  assumes inv_init: "init s \<Longrightarrow> I s"
    and inv_step: "I s \<Longrightarrow> step s t \<Longrightarrow> I t"
begin

lemma inv_reach: "reach init step s \<Longrightarrow> I s"
  by (induction rule: reach.induct) (blast intro: inv_init inv_step)+

lemma inv_rtranclp: "step\<^sup>*\<^sup>* s t \<Longrightarrow> I s \<Longrightarrow> I t"
  by (induction rule: rtranclp_induct) (blast intro: inv_step)+

end

end
