(* ===== verification/GoStd.thy ===== *)
theory GoStd
  imports Prelude
begin

text \<open>
  The parts of the Go language and standard library the program uses on strings, numbers,
  paths and slices. A Go string is a sequence of bytes, here a list of characters (a
  character is a byte). Go's \<^verbatim>\<open>int\<close> is 64 bits wide on the platforms the program is
  built for.
\<close>

type_synonym go_int = "64 word"

section \<open>Decimal and hexadecimal numbers\<close>

definition digit_char :: "nat \<Rightarrow> char" where
  "digit_char n = char_of (48 + n)"

definition digit_val :: "char \<Rightarrow> nat" where
  "digit_val c = of_char c - 48"

definition is_digit :: "char \<Rightarrow> bool" where
  "is_digit c \<longleftrightarrow> 48 \<le> (of_char c :: nat) \<and> (of_char c :: nat) \<le> 57"

fun dec :: "nat \<Rightarrow> string" where
  "dec n = (if n < 10 then [digit_char n] else dec (n div 10) @ [digit_char (n mod 10)])"

declare dec.simps [simp del]

definition dec_val :: "string \<Rightarrow> nat" where
  "dec_val s = foldl (\<lambda>a c. a * 10 + digit_val c) 0 s"

text \<open>\<^verbatim>\<open>strconv.Itoa\<close> and \<^verbatim>\<open>strconv.Atoi\<close>; \<open>None\<close> is a syntax or range error.\<close>

definition Itoa :: "go_int \<Rightarrow> string" where
  "Itoa w = (if sint w < 0 then CHR ''-'' # dec (nat (- sint w)) else dec (nat (sint w)))"

definition split_sign :: "string \<Rightarrow> bool \<times> string" where
  "split_sign s = (case s of
      [] \<Rightarrow> (False, [])
    | c # cs \<Rightarrow> if c = CHR ''-'' then (True, cs) else if c = CHR ''+'' then (False, cs) else (False, s))"

definition Atoi :: "string \<Rightarrow> go_int option" where
  "Atoi s = (case split_sign s of (neg, ds) \<Rightarrow>
     if ds = [] \<or> \<not> list_all is_digit ds then None
     else let v = (if neg then - int (dec_val ds) else int (dec_val ds))
          in if - (2 ^ 63) \<le> v \<and> v < 2 ^ 63 then Some (word_of_int v) else None)"

definition hex_char :: "nat \<Rightarrow> char" where
  "hex_char n = (if n < 10 then char_of (48 + n) else char_of (87 + n))"

text \<open>\<^verbatim>\<open>fmt.Sprintf("%04x", w)\<close> for a \<^verbatim>\<open>uint16\<close>.\<close>

definition hex4 :: "16 word \<Rightarrow> string" where
  "hex4 w = (let n = unat w in
     [hex_char (n div 4096), hex_char (n div 256 mod 16), hex_char (n div 16 mod 16),
      hex_char (n mod 16)])"

lemma digit_val_char [simp]: "n < 10 \<Longrightarrow> digit_val (digit_char n) = n"
  by (simp add: digit_val_def digit_char_def)

lemma is_digit_char [simp]: "n < 10 \<Longrightarrow> is_digit (digit_char n)"
  by (simp add: is_digit_def digit_char_def)

lemma dec_val_snoc [simp]: "dec_val (s @ [c]) = dec_val s * 10 + digit_val c"
  by (simp add: dec_val_def)

lemma dec_val_single [simp]: "dec_val [c] = digit_val c"
  by (simp add: dec_val_def)

lemma dec_nonempty [simp]: "dec n \<noteq> []"
  by (subst dec.simps) simp

lemma dec_digits [simp]: "list_all is_digit (dec n)"
proof (induction n rule: dec.induct)
  case (1 n)
  then show ?case by (cases "n < 10") (simp_all add: dec.simps [of n])
qed

lemma dec_val_dec [simp]: "dec_val (dec n) = n"
proof (induction n rule: dec.induct)
  case (1 n)
  then show ?case by (cases "n < 10") (simp_all add: dec.simps [of n])
qed

lemma is_digit_not_sign: "is_digit c \<Longrightarrow> c \<noteq> CHR ''-'' \<and> c \<noteq> CHR ''+''"
  by (auto simp: is_digit_def)

lemma split_sign_dec [simp]: "split_sign (dec n) = (False, dec n)"
proof (cases "dec n")
  case (Cons c cs)
  with dec_digits [of n] have "is_digit c" by simp
  then show ?thesis using Cons is_digit_not_sign by (simp add: split_sign_def)
qed simp

lemma Atoi_Itoa [simp]: "Atoi (Itoa w) = Some w"
proof -
  have r: "- (2 ^ 63) \<le> sint w" "sint w < 2 ^ 63"
    using sint_greater_eq [of w] sint_less [of w] by simp_all
  show ?thesis
  proof (cases "sint w < 0")
    case True
    have "split_sign (Itoa w) = (True, dec (nat (- sint w)))"
      using True by (simp add: Itoa_def split_sign_def)
    then show ?thesis using True r by (simp add: Atoi_def Let_def)
  next
    case False
    then have "split_sign (Itoa w) = (False, dec (nat (sint w)))"
      by (simp add: Itoa_def)
    then show ?thesis using False r by (simp add: Atoi_def Let_def)
  qed
qed

lemma Itoa_inj: "Itoa v = Itoa w \<longleftrightarrow> v = w"
  by (metis Atoi_Itoa option.inject)

lemma hex_char_inj: "m < 16 \<Longrightarrow> n < 16 \<Longrightarrow> hex_char m = hex_char n \<longleftrightarrow> m = n"
  by (auto simp: hex_char_def split: if_splits)

lemma length_hex4 [simp]: "length (hex4 w) = 4"
  by (simp add: hex4_def Let_def)

lemma hex4_nonempty [simp]: "hex4 w \<noteq> []"
  by (simp add: hex4_def Let_def)

lemma hex_digits_sum:
  "n = 16 * (16 * (16 * (n div 4096) + n div 256 mod 16) + n div 16 mod 16) + n mod 16" for n :: nat
proof -
  have "n div 256 = 16 * (n div 4096) + n div 256 mod 16"
    using div_mult_mod_eq [of "n div 256" 16] by (simp add: div_mult2_eq [symmetric] mult.commute)
  moreover have "n div 16 = 16 * (n div 256) + n div 16 mod 16"
    using div_mult_mod_eq [of "n div 16" 16] by (simp add: div_mult2_eq [symmetric] mult.commute)
  ultimately show ?thesis by simp
qed

lemma hex4_inj: "hex4 v = hex4 w \<longleftrightarrow> v = w"
proof
  assume h: "hex4 v = hex4 w"
  have b: "unat v div 4096 < 16" "unat w div 4096 < 16"
    using unsigned_less [of v, where ?'a = nat] unsigned_less [of w, where ?'a = nat] by simp_all
  from h b have "unat v div 4096 = unat w div 4096" and "unat v div 256 mod 16 = unat w div 256 mod 16"
    and "unat v div 16 mod 16 = unat w div 16 mod 16" and "unat v mod 16 = unat w mod 16"
    by (simp_all add: hex4_def Let_def hex_char_inj)
  then have "unat v = unat w" by (metis hex_digits_sum)
  then show "v = w" by (simp add: word_unat_eq_iff)
qed simp

section \<open>Strings\<close>

text \<open>\<^verbatim>\<open>strings.HasPrefix\<close>, \<^verbatim>\<open>strings.TrimPrefix\<close>, \<^verbatim>\<open>strings.TrimLeft\<close> (with a
  set of ASCII characters), \<^verbatim>\<open>strings.ReplaceAll\<close> of one character, \<^verbatim>\<open>strings.Cut\<close> at
  the first occurrence of a character.\<close>

fun HasPrefix :: "string \<Rightarrow> string \<Rightarrow> bool" where
  "HasPrefix s [] = True"
| "HasPrefix [] (p # ps) = False"
| "HasPrefix (c # cs) (p # ps) = (c = p \<and> HasPrefix cs ps)"

definition TrimPrefix :: "string \<Rightarrow> string \<Rightarrow> string" where
  "TrimPrefix s p = (if HasPrefix s p then drop (length p) s else s)"

definition TrimLeft :: "string \<Rightarrow> (char \<Rightarrow> bool) \<Rightarrow> string" where
  "TrimLeft s cutset = dropWhile cutset s"

definition ReplaceAll_char :: "string \<Rightarrow> char \<Rightarrow> char \<Rightarrow> string" where
  "ReplaceAll_char s old new = map (\<lambda>c. if c = old then new else c) s"

definition Cut :: "string \<Rightarrow> char \<Rightarrow> (string \<times> string) option" where
  "Cut s sep = (if sep \<in> set s
     then Some (takeWhile (\<lambda>c. c \<noteq> sep) s, tl (dropWhile (\<lambda>c. c \<noteq> sep) s)) else None)"

definition is_upper :: "char \<Rightarrow> bool" where
  "is_upper c \<longleftrightarrow> 65 \<le> (of_char c :: nat) \<and> (of_char c :: nat) \<le> 90"

definition is_lower :: "char \<Rightarrow> bool" where
  "is_lower c \<longleftrightarrow> 97 \<le> (of_char c :: nat) \<and> (of_char c :: nat) \<le> 122"

definition is_letter :: "char \<Rightarrow> bool" where
  "is_letter c \<longleftrightarrow> is_upper c \<or> is_lower c"

definition is_alnum :: "char \<Rightarrow> bool" where
  "is_alnum c \<longleftrightarrow> is_letter c \<or> is_digit c"

definition upper_char :: "char \<Rightarrow> char" where
  "upper_char c = (if is_lower c then char_of (of_char c - (32 :: nat)) else c)"

definition lower_char :: "char \<Rightarrow> char" where
  "lower_char c = (if is_upper c then char_of (of_char c + (32 :: nat)) else c)"

text \<open>
  \<^verbatim>\<open>strings.ToUpper\<close>. Two runes outside ASCII have an upper case inside it: U+0131
  (bytes C4 B1), whose upper case is I, and U+017F (C5 BF), whose upper case is S. Every
  other rune outside ASCII has an upper case outside ASCII; those bytes are kept here, since
  the program erases whatever is outside ASCII right after.
\<close>

fun ToUpper :: "string \<Rightarrow> string" where
  "ToUpper (c1 # c2 # cs) =
     (if c1 = CHR 0xC4 \<and> c2 = CHR 0xB1 then CHR ''I'' # ToUpper cs
      else if c1 = CHR 0xC5 \<and> c2 = CHR 0xBF then CHR ''S'' # ToUpper cs
      else upper_char c1 # ToUpper (c2 # cs))"
| "ToUpper [c] = [upper_char c]"
| "ToUpper [] = []"

text \<open>\<^verbatim>\<open>strings.EqualFold(s, t)\<close> for a string \<open>t\<close> of ASCII letters none of which folds
  with a rune outside ASCII (only k and s do).\<close>

definition EqualFold :: "string \<Rightarrow> string \<Rightarrow> bool" where
  "EqualFold s t \<longleftrightarrow> map lower_char s = map lower_char t"

text \<open>
  \<^verbatim>\<open>ReplaceAllString(s, r)\<close> of the regular expression \<open>C+\<close> for a character class
  \<open>C\<close>: each maximal run of characters of the class becomes \<open>r\<close>.
\<close>

function replace_runs :: "(char \<Rightarrow> bool) \<Rightarrow> string \<Rightarrow> string \<Rightarrow> string" where
  "replace_runs C r [] = []"
| "replace_runs C r (c # cs) =
     (if C c then r @ replace_runs C r (dropWhile C cs) else c # replace_runs C r cs)"
  by pat_completeness auto
termination
  by (relation "measure (\<lambda>(C, r, s). length s)") (auto simp: le_imp_less_Suc length_dropWhile_le)

definition is_space :: "char \<Rightarrow> bool" where
  "is_space c \<longleftrightarrow> c \<in> set [CHR 9, CHR 10, CHR 12, CHR 13, CHR '' '']"

text \<open>\<^verbatim>\<open>strconv.ParseBool\<close>; \<open>None\<close> is a syntax error.\<close>

definition ParseBool :: "string \<Rightarrow> bool option" where
  "ParseBool s =
     (if s \<in> set [''1'', ''t'', ''T'', ''true'', ''TRUE'', ''True''] then Some True
      else if s \<in> set [''0'', ''f'', ''F'', ''false'', ''FALSE'', ''False''] then Some False
      else None)"

lemma HasPrefix_append [simp]: "HasPrefix (p @ s) p"
  by (induction p) simp_all

lemma HasPrefix_iff: "HasPrefix s p \<longleftrightarrow> (\<exists>t. s = p @ t)"
  by (induction s p rule: HasPrefix.induct) (auto simp: Cons_eq_append_conv)

lemma TrimPrefix_append [simp]: "TrimPrefix (p @ s) p = s"
  by (simp add: TrimPrefix_def)

lemma TrimPrefix_inj:
  assumes "HasPrefix s p" and "HasPrefix t p"
  shows "TrimPrefix s p = TrimPrefix t p \<longleftrightarrow> s = t"
  using assms by (auto simp: HasPrefix_iff)

lemma TrimLeft_id: "s \<noteq> [] \<Longrightarrow> \<not> cutset (hd s) \<Longrightarrow> TrimLeft s cutset = s"
  by (cases s) (simp_all add: TrimLeft_def)

lemma Cut_append [simp]: "c \<notin> set a \<Longrightarrow> Cut (a @ c # b) c = Some (a, b)"
  by (auto simp: Cut_def takeWhile_append dropWhile_append)

lemma replace_runs_Nil_filter: "replace_runs C [] s = filter (\<lambda>c. \<not> C c) s"
proof (induction C "[] :: string" s rule: replace_runs.induct)
  case (2 C c cs)
  have "filter (\<lambda>c. \<not> C c) (dropWhile C cs) = filter (\<lambda>c. \<not> C c) cs"
    by (induction cs) auto
  with 2 show ?case by simp
qed simp

lemma replace_runs_id: "\<forall>c \<in> set s. \<not> C c \<Longrightarrow> replace_runs C r s = s"
  by (induction s) simp_all

lemma set_replace_runs: "set (replace_runs C r s) \<subseteq> set r \<union> {c \<in> set s. \<not> C c}"
proof (induction C r s rule: replace_runs.induct)
  case (2 C r c cs)
  then show ?case by (cases "C c") (auto dest: set_dropWhileD)
qed simp

end
