(* ===== verification/GoPath.thy ===== *)
theory GoPath
  imports GoStd
begin

text \<open>
  \<^verbatim>\<open>filepath.Clean\<close>, \<^verbatim>\<open>filepath.Join\<close>, \<^verbatim>\<open>filepath.Dir\<close>, \<^verbatim>\<open>filepath.Ext\<close> and
  \<^verbatim>\<open>path.Base\<close> of Go's standard library on Unix, and what they give on a clean rooted
  directory and a file name (\<open>simple_name\<close>).
\<close>

section \<open>Components\<close>

fun split_slash :: "string \<Rightarrow> string list" where
  "split_slash [] = [[]]"
| "split_slash (c # cs) =
     (if c = CHR ''/'' then [] # split_slash cs
      else (case split_slash cs of [] \<Rightarrow> [[c]] | x # xs \<Rightarrow> (c # x) # xs))"

fun join_slash :: "string list \<Rightarrow> string" where
  "join_slash [] = []"
| "join_slash [x] = x"
| "join_slash (x # y # zs) = x @ CHR ''/'' # join_slash (y # zs)"

text \<open>One component of \<^verbatim>\<open>Clean\<close>; the components kept so far are held in reverse.\<close>

definition clean_step :: "bool \<Rightarrow> string \<Rightarrow> string list \<Rightarrow> string list" where
  "clean_step rooted c out =
     (if c = [] \<or> c = ''.'' then out
      else if c = ''..'' then
        (case out of
           [] \<Rightarrow> if rooted then [] else [''..'']
         | x # xs \<Rightarrow> if x = ''..'' then c # out else xs)
      else c # out)"

definition Clean :: "string \<Rightarrow> string" where
  "Clean p = (if p = [] then ''.''
     else let rooted = (hd p = CHR ''/'');
              s = (if rooted then ''/'' else []) @ join_slash (rev (fold (clean_step rooted) (split_slash p) []))
          in if s = [] then ''.'' else s)"

definition Join :: "string list \<Rightarrow> string" where
  "Join elems = (let es = filter (\<lambda>e. e \<noteq> []) elems in if es = [] then [] else Clean (join_slash es))"

definition Base :: "string \<Rightarrow> string" where
  "Base p = (if p = [] then ''.''
     else let q = rev (dropWhile (\<lambda>c. c = CHR ''/'') (rev p))
          in if q = [] then ''/'' else rev (takeWhile (\<lambda>c. c \<noteq> CHR ''/'') (rev q)))"

definition Dir :: "string \<Rightarrow> string" where
  "Dir p = Clean (rev (dropWhile (\<lambda>c. c \<noteq> CHR ''/'') (rev p)))"

text \<open>The extension: from the last dot of the last component.\<close>

definition Ext :: "string \<Rightarrow> string" where
  "Ext p = (let l = rev (takeWhile (\<lambda>c. c \<noteq> CHR ''/'') (rev p))
     in if CHR ''.'' \<in> set l then CHR ''.'' # rev (takeWhile (\<lambda>c. c \<noteq> CHR ''.'') (rev l)) else [])"

section \<open>File names\<close>

text \<open>A file name: not empty, no slash, neither \<^verbatim>\<open>.\<close> nor \<^verbatim>\<open>..\<close>.\<close>

definition simple_name :: "string \<Rightarrow> bool" where
  "simple_name c \<longleftrightarrow> c \<noteq> [] \<and> CHR ''/'' \<notin> set c \<and> c \<noteq> ''.'' \<and> c \<noteq> ''..''"

lemma split_slash_no_slash: "CHR ''/'' \<notin> set c \<Longrightarrow> split_slash c = [c]"
  by (induction c) auto

lemma split_slash_nonempty [simp]: "split_slash s \<noteq> []"
  by (induction s) (auto split: list.splits)

lemma split_slash_append:
  "CHR ''/'' \<notin> set c \<Longrightarrow> split_slash (c @ CHR ''/'' # s) = c # split_slash s"
  by (induction c) auto

lemma split_join_slash:
  "cs \<noteq> [] \<Longrightarrow> \<forall>c \<in> set cs. CHR ''/'' \<notin> set c \<Longrightarrow> split_slash (join_slash cs) = cs"
proof (induction cs rule: join_slash.induct)
  case (3 x y zs)
  then show ?case by (simp add: split_slash_append)
qed (simp_all add: split_slash_no_slash)

lemma clean_step_simple: "simple_name c \<Longrightarrow> clean_step r c out = c # out"
  by (simp add: clean_step_def simple_name_def)

lemma fold_clean_simple:
  "\<forall>c \<in> set cs. simple_name c \<Longrightarrow> fold (clean_step r) cs out = rev cs @ out"
  by (induction cs arbitrary: out) (simp_all add: clean_step_simple)

text \<open>The rooted path with the given components.\<close>

definition rooted :: "string list \<Rightarrow> string" where
  "rooted cs = CHR ''/'' # join_slash cs"

lemma join_slash_append:
  "xs \<noteq> [] \<Longrightarrow> ys \<noteq> [] \<Longrightarrow> join_slash (xs @ ys) = join_slash xs @ CHR ''/'' # join_slash ys"
proof (induction xs rule: join_slash.induct)
  case (2 x)
  then show ?case by (cases ys) simp_all
qed simp_all

lemma Clean_rooted [go_path]:
  assumes "\<forall>c \<in> set cs. simple_name c"
  shows "Clean (rooted cs) = rooted cs"
proof (cases "cs = []")
  case True
  then show ?thesis by (simp add: Clean_def rooted_def clean_step_def Let_def)
next
  case False
  have "split_slash (rooted cs) = [] # cs"
    using False assms by (simp add: rooted_def split_join_slash simple_name_def)
  then show ?thesis
    using assms by (simp add: Clean_def rooted_def Let_def fold_clean_simple clean_step_def)
qed

lemma rooted_append:
  "xs \<noteq> [] \<Longrightarrow> ys \<noteq> [] \<Longrightarrow> rooted (xs @ ys) = rooted xs @ CHR ''/'' # join_slash ys"
  by (simp add: rooted_def join_slash_append)

text \<open>Joining file names to a rooted directory appends them.\<close>

lemma Join_rooted [go_path]:
  assumes "ds \<noteq> []" and "\<forall>c \<in> set ds. simple_name c" and "\<forall>c \<in> set cs. simple_name c"
  shows "Join (rooted ds # cs) = rooted (ds @ cs)"
proof (cases "cs = []")
  case True
  then show ?thesis using assms by (simp add: Join_def rooted_def) (simp add: Clean_rooted [unfolded rooted_def])
next
  case False
  have ne: "filter (\<lambda>e. e \<noteq> []) (rooted ds # cs) = rooted ds # cs"
    using assms(3) by (auto simp: rooted_def simple_name_def intro!: filter_True)
  have "join_slash (rooted ds # cs) = rooted (ds @ cs)"
    using False assms(1) by (cases cs) (simp_all add: rooted_def join_slash_append)
  then show ?thesis
    using assms ne by (simp add: Join_def Clean_rooted ball_Un)
qed

lemma rooted_inj:
  assumes "xs \<noteq> []" and "ys \<noteq> []"
    and "\<forall>c \<in> set xs. simple_name c" and "\<forall>c \<in> set ys. simple_name c"
  shows "rooted xs = rooted ys \<longleftrightarrow> xs = ys"
proof
  assume "rooted xs = rooted ys"
  then have "split_slash (join_slash xs) = split_slash (join_slash ys)"
    by (simp add: rooted_def)
  then show "xs = ys"
    using assms by (simp add: split_join_slash simple_name_def)
qed simp

lemma simple_dec [go_path]: "simple_name (dec n)"
proof -
  have "\<forall>c \<in> set (dec n). is_digit c"
    using dec_digits [of n] by (simp add: list_all_iff)
  then have "CHR ''/'' \<notin> set (dec n)" and "CHR ''.'' \<notin> set (dec n)"
    by (auto simp: is_digit_def)
  then show ?thesis
    using dec_nonempty [of n] by (auto simp: simple_name_def)
qed

lemma simple_Itoa [go_path]: "simple_name (Itoa w)"
proof -
  have "simple_name (CHR ''-'' # dec n)" for n
    using simple_dec [of n] by (auto simp: simple_name_def)
  then show ?thesis by (simp add: Itoa_def simple_dec)
qed

lemma simple_prefix [go_path]:
  "simple_name s \<Longrightarrow> CHR ''/'' \<notin> set p \<Longrightarrow> CHR ''.'' \<notin> set p \<Longrightarrow> simple_name (p @ s)"
  by (cases p) (auto simp: simple_name_def)

lemma Clean_nonempty [simp]: "Clean p \<noteq> []"
  by (simp add: Clean_def Let_def)

lemma Join_nonempty: "\<exists>e \<in> set es. e \<noteq> [] \<Longrightarrow> Join es \<noteq> []"
  by (auto simp: Join_def Let_def filter_empty_conv)

text \<open>A directory written with a trailing slash.\<close>

lemma split_slash_join:
  "cs \<noteq> [] \<Longrightarrow> \<forall>c \<in> set cs. CHR ''/'' \<notin> set c \<Longrightarrow>
     split_slash (join_slash cs @ CHR ''/'' # s) = cs @ split_slash s"
proof (induction cs rule: join_slash.induct)
  case (3 x y zs)
  then show ?case by (simp add: split_slash_append)
qed (simp_all add: split_slash_append)

lemma Join_dir_slash [go_path]:
  assumes "ds \<noteq> []" and "\<forall>c \<in> set ds. simple_name c" and "simple_name c"
  shows "Join [rooted ds @ ''/'', c] = rooted (ds @ [c])"
proof -
  have ne: "filter (\<lambda>e. e \<noteq> []) [rooted ds @ ''/'', c] = [rooted ds @ ''/'', c]"
    using assms(3) by (simp add: simple_name_def)
  have "split_slash (join_slash ds @ CHR ''/'' # CHR ''/'' # c) = ds @ [[], c]"
    using assms by (simp add: split_slash_join simple_name_def split_slash_no_slash)
  then have s: "split_slash (join_slash [rooted ds @ ''/'', c]) = [] # ds @ [[], c]"
    by (simp add: rooted_def)
  have "fold (clean_step True) ([] # ds @ [[], c]) [] = rev (ds @ [c])"
    using assms by (simp add: fold_clean_simple clean_step_simple) (simp add: clean_step_def fold_clean_simple assms(2))
  moreover have "hd (join_slash [rooted ds @ ''/'', c]) = CHR ''/''" by (simp add: rooted_def)
  ultimately show ?thesis
    using s ne by (simp add: Join_def Clean_def Let_def rooted_def)
qed

end
