(* ===== verification/Nvpci.thy ===== *)
theory Nvpci
  imports GoPath
begin

text \<open>
  The vendored package nvpci, as far as the device plugin uses it: the device it reports and
  the class tests. The list \<^verbatim>\<open>GetAllDevices\<close> returns, or its error, is an argument of the
  discovery; Sysfs models how it is read.
  Of the struct's fields the four that hold memory and SR-IOV details, and the path, class
  name, subsystem and NUMA fields, are left out: the program never reads them.
\<close>

record pci_device =
  pci_Address :: string
  pci_Vendor :: "16 word"
  pci_Class :: "32 word"
  pci_Device :: "16 word"
  pci_DeviceName :: string
  pci_Driver :: string
  pci_IommuGroup :: go_int
  pci_IommuFD :: string

definition PCIVgaControllerClass :: "32 word" where
  "PCIVgaControllerClass = 0x030000"

definition PCI3dControllerClass :: "32 word" where
  "PCI3dControllerClass = 0x030200"

definition PCINvSwitchClass :: "32 word" where
  "PCINvSwitchClass = 0x068000"

definition IsVGAController :: "pci_device \<Rightarrow> bool" where
  "IsVGAController d \<longleftrightarrow> pci_Class d = PCIVgaControllerClass"

definition Is3DController :: "pci_device \<Rightarrow> bool" where
  "Is3DController d \<longleftrightarrow> pci_Class d = PCI3dControllerClass"

definition IsNVSwitch :: "pci_device \<Rightarrow> bool" where
  "IsNVSwitch d \<longleftrightarrow> pci_Class d = PCINvSwitchClass"

definition IsGPU :: "pci_device \<Rightarrow> bool" where
  "IsGPU d \<longleftrightarrow> IsVGAController d \<or> Is3DController d"

lemmas pci_class_defs = IsGPU_def IsVGAController_def Is3DController_def IsNVSwitch_def
  PCIVgaControllerClass_def PCI3dControllerClass_def PCINvSwitchClass_def

lemma IsNVSwitch_not_GPU: "IsNVSwitch d \<Longrightarrow> \<not> IsGPU d"
  by (simp add: pci_class_defs)

end
