(* ===== verification/Discovery.thy ===== *)
theory Discovery
  imports Nvpci
begin

text \<open>
  Device discovery (pkg/device_plugin/device_plugin.go, constants.go and the probe
  \<^verbatim>\<open>supportsIOMMUFD\<close> of generic_device_plugin.go): the package variables, the IOMMU
  and device maps built by \<^verbatim>\<open>createIommuDeviceMap\<close>, and the resource names made from
  device names.
\<close>

section \<open>Package state\<close>

record NvidiaPCIDevice =
  Address :: string
  DeviceID :: "16 word"
  DeviceName :: string
  IommuGroup :: go_int
  IommuFD :: string
  IsSwitch :: bool

record globals =
  iommuMap :: "(string, NvidiaPCIDevice list) fmap"
  deviceMap :: "(string, string list) fmap"
  nvSwitchDeviceIDs :: "(string, bool) fmap"
  PGPUAlias :: string
  NVSwitchAlias :: string
  EnableGFD :: bool

text \<open>The package variables before \<^verbatim>\<open>main\<close> runs: nil maps, empty aliases.\<close>

definition init_globals :: globals where
  "init_globals = \<lparr>iommuMap = fmempty, deviceMap = fmempty, nvSwitchDeviceIDs = fmempty,
     PGPUAlias = [], NVSwitchAlias = [], EnableGFD = False\<rparr>"

definition DeviceNamespace :: string where "DeviceNamespace = ''nvidia.com''"
definition vfioDevicePath :: string where "vfioDevicePath = ''/dev/vfio''"
definition iommuDevicePath :: string where "iommuDevicePath = ''/dev/iommu''"
definition cdiVendor :: string where "cdiVendor = ''nvidia.com''"
definition rootPath :: string where "rootPath = ''/''"
definition cdiRoot :: string where "cdiRoot = ''/var/run/cdi''"

section \<open>The IOMMUFD probe\<close>

text \<open>\<^verbatim>\<open>os.Stat\<close> of the host: \<open>None\<close> when the file is there, else the error.\<close>

type_synonym stat_fn = "string \<Rightarrow> go_error option"

definition supportsIOMMUFD :: "stat_fn \<Rightarrow> bool result" where
  "supportsIOMMUFD stat = (case stat (Join [rootPath, iommuDevicePath]) of
      Some err \<Rightarrow> if is_not_exist err then Inr False else Inl err
    | None \<Rightarrow> Inr True)"

section \<open>Building the maps\<close>

definition eligible :: "pci_device \<Rightarrow> bool" where
  "eligible dev \<longleftrightarrow> (IsGPU dev \<or> IsNVSwitch dev) \<and> pci_Driver dev = ''vfio-pci''"

definition iommu_key :: "bool \<Rightarrow> pci_device \<Rightarrow> string" where
  "iommu_key iommufdSupported dev =
     (if iommufdSupported \<and> pci_IommuFD dev \<noteq> [] then TrimPrefix (pci_IommuFD dev) ''vfio''
      else Itoa (pci_IommuGroup dev))"

definition to_nv :: "pci_device \<Rightarrow> NvidiaPCIDevice" where
  "to_nv dev = \<lparr>Address = pci_Address dev, DeviceID = pci_Device dev,
     DeviceName = pci_DeviceName dev, IommuGroup = pci_IommuGroup dev,
     IommuFD = pci_IommuFD dev, IsSwitch = IsNVSwitch dev\<rparr>"

text \<open>The body of the loop over the devices.\<close>

definition add_device :: "bool \<Rightarrow> pci_device \<Rightarrow> globals \<Rightarrow> globals" where
  "add_device iommufdSupported dev g =
     (if \<not> IsGPU dev \<and> \<not> IsNVSwitch dev then g
      else if pci_Driver dev \<noteq> ''vfio-pci'' then g
      else
        let iommuKey = iommu_key iommufdSupported dev;
            deviceID = hex4 (pci_Device dev);
            g1 = (case fmlookup (iommuMap g) iommuKey of
                    None \<Rightarrow> g\<lparr>deviceMap := map_append (deviceMap g) deviceID iommuKey\<rparr>
                  | Some _ \<Rightarrow> g);
            g2 = (if IsNVSwitch dev
                  then g1\<lparr>nvSwitchDeviceIDs := fmupd deviceID True (nvSwitchDeviceIDs g1)\<rparr>
                  else g1)
        in g2\<lparr>iommuMap := map_append (iommuMap g2) iommuKey (to_nv dev)\<rparr>)"

definition createIommuDeviceMap ::
    "stat_fn \<Rightarrow> pci_device list result \<Rightarrow> globals \<Rightarrow> globals" where
  "createIommuDeviceMap stat GetAllDevices g =
     (case supportsIOMMUFD stat of
        Inl err \<Rightarrow> g
      | Inr iommufdSupported \<Rightarrow>
          let g0 = g\<lparr>iommuMap := fmempty, deviceMap := fmempty, nvSwitchDeviceIDs := fmempty\<rparr>
          in (case GetAllDevices of
                Inl err \<Rightarrow> g0
              | Inr devices \<Rightarrow> fold (add_device iommufdSupported) devices g0))"

definition getDeviceType :: "pci_device \<Rightarrow> string" where
  "getDeviceType dev = (if IsNVSwitch dev then ''NVSwitch'' else ''GPU'')"

definition isNVSwitchDeviceID :: "globals \<Rightarrow> string \<Rightarrow> bool" where
  "isNVSwitchDeviceID g deviceID = (case fmlookup (nvSwitchDeviceIDs g) deviceID of None \<Rightarrow> False | Some b \<Rightarrow> b)"

section \<open>Resource names\<close>

definition allowed_char :: "char \<Rightarrow> bool" where
  "allowed_char c \<longleftrightarrow> is_alnum c \<or> c = CHR ''_'' \<or> c = CHR ''-''"

definition formatDeviceName :: "string \<Rightarrow> string" where
  "formatDeviceName name =
     (if name = [] then []
      else let n1 = ToUpper name;
               n2 = ReplaceAll_char n1 (CHR ''/'') (CHR ''_'');
               n3 = ReplaceAll_char n2 (CHR ''.'') (CHR ''_'');
               n4 = replace_runs is_space ''_'' n3
           in replace_runs (\<lambda>c. \<not> allowed_char c) [] n4)"

text \<open>
  The nested loops of \<^verbatim>\<open>getDeviceNameForID\<close>, over the keys of the IOMMU map in the order
  \<open>ks\<close> of that \<^verbatim>\<open>range\<close> loop and over the devices of each key; the first device with the
  ID returns.
\<close>

fun name_in_devices :: "NvidiaPCIDevice list \<Rightarrow> string \<Rightarrow> string option" where
  "name_in_devices [] deviceID = None"
| "name_in_devices (dev # devs) deviceID =
     (if hex4 (DeviceID dev) = deviceID then Some (formatDeviceName (DeviceName dev))
      else name_in_devices devs deviceID)"

fun getDeviceNameForID :: "globals \<Rightarrow> string list \<Rightarrow> string \<Rightarrow> string" where
  "getDeviceNameForID g [] deviceID = []"
| "getDeviceNameForID g (k # ks) deviceID =
     (case name_in_devices (get_slice (iommuMap g) k) deviceID of
        Some n \<Rightarrow> n
      | None \<Rightarrow> getDeviceNameForID g ks deviceID)"

section \<open>What the maps hold\<close>

text \<open>
  The abstract specification: the eligible devices of a key, in the order of the bus; the
  keys in the order in which they first appear; the keys whose first device has an ID.
\<close>

definition members :: "bool \<Rightarrow> pci_device list \<Rightarrow> string \<Rightarrow> NvidiaPCIDevice list" where
  "members b devs k = map to_nv (filter (\<lambda>d. eligible d \<and> iommu_key b d = k) devs)"

definition group_keys :: "bool \<Rightarrow> pci_device list \<Rightarrow> string list" where
  "group_keys b devs = first_occ (map (iommu_key b) (filter eligible devs))"

definition type_keys :: "bool \<Rightarrow> pci_device list \<Rightarrow> string \<Rightarrow> string list" where
  "type_keys b devs d = filter (\<lambda>k. hex4 (DeviceID (hd (members b devs k))) = d) (group_keys b devs)"

definition switch_ID :: "pci_device list \<Rightarrow> string \<Rightarrow> bool" where
  "switch_ID devs d \<longleftrightarrow> (\<exists>dev \<in> set devs. eligible dev \<and> IsNVSwitch dev \<and> hex4 (pci_Device dev) = d)"

lemma add_device_skip: "\<not> eligible dev \<Longrightarrow> add_device b dev g = g"
  by (auto simp: add_device_def eligible_def)

lemma add_device_eligible:
  assumes "eligible dev"
  shows "iommuMap (add_device b dev g) = map_append (iommuMap g) (iommu_key b dev) (to_nv dev)"
    and "deviceMap (add_device b dev g) =
      (if fmlookup (iommuMap g) (iommu_key b dev) = None
       then map_append (deviceMap g) (hex4 (pci_Device dev)) (iommu_key b dev) else deviceMap g)"
    and "nvSwitchDeviceIDs (add_device b dev g) =
      (if IsNVSwitch dev then fmupd (hex4 (pci_Device dev)) True (nvSwitchDeviceIDs g)
       else nvSwitchDeviceIDs g)"
  using assms
  by (auto simp: add_device_def eligible_def Let_def split: option.splits)

lemma add_device_frame [simp]:
  "PGPUAlias (add_device b dev g) = PGPUAlias g"
  "NVSwitchAlias (add_device b dev g) = NVSwitchAlias g"
  "EnableGFD (add_device b dev g) = EnableGFD g"
  by (auto simp: add_device_def Let_def split: option.splits)

lemma fold_add_device_frame [simp]:
  "PGPUAlias (fold (add_device b) devs g) = PGPUAlias g"
  "NVSwitchAlias (fold (add_device b) devs g) = NVSwitchAlias g"
  "EnableGFD (fold (add_device b) devs g) = EnableGFD g"
  by (induction devs arbitrary: g) simp_all

lemma members_Nil [simp]: "members b [] k = []"
  by (simp add: members_def)

lemma members_snoc:
  "members b (devs @ [dev]) k =
     (if eligible dev \<and> iommu_key b dev = k then members b devs k @ [to_nv dev] else members b devs k)"
  by (simp add: members_def)

lemma group_keys_snoc:
  "group_keys b (devs @ [dev]) =
     (if eligible dev \<and> members b devs (iommu_key b dev) = []
      then group_keys b devs @ [iommu_key b dev] else group_keys b devs)"
  by (auto simp: group_keys_def members_def filter_empty_conv image_iff)

lemma in_group_keys: "k \<in> set (group_keys b devs) \<longleftrightarrow> members b devs k \<noteq> []"
  by (auto simp: group_keys_def members_def filter_empty_conv)

lemma distinct_group_keys [simp]: "distinct (group_keys b devs)"
  by (simp add: group_keys_def)

lemma DeviceID_to_nv [simp]: "DeviceID (to_nv dev) = pci_Device dev"
  by (simp add: to_nv_def)

lemma type_keys_snoc:
  "type_keys b (devs @ [dev]) d =
     (if eligible dev \<and> members b devs (iommu_key b dev) = [] \<and> hex4 (pci_Device dev) = d
      then type_keys b devs d @ [iommu_key b dev] else type_keys b devs d)"
proof -
  have old: "filter (\<lambda>k. hex4 (DeviceID (hd (members b (devs @ [dev]) k))) = d) (group_keys b devs)
      = type_keys b devs d"
    unfolding type_keys_def
    by (rule filter_cong) (auto simp: members_snoc in_group_keys)
  show ?thesis
  proof (cases "eligible dev \<and> members b devs (iommu_key b dev) = []")
    case True
    then show ?thesis
      using old by (simp add: type_keys_def [of _ "devs @ [dev]"] group_keys_snoc) (simp add: members_snoc)
  next
    case False
    then show ?thesis
      using old by (auto simp: type_keys_def [of _ "devs @ [dev]"] group_keys_snoc)
  qed
qed

text \<open>The loop of \<^verbatim>\<open>createIommuDeviceMap\<close> computes the specification.\<close>

lemma loop_maps:
  assumes "iommuMap g = fmempty" and "deviceMap g = fmempty"
  shows "fmlookup (iommuMap (fold (add_device b) devs g)) k = slice_opt (members b devs k)"
    and "fmlookup (deviceMap (fold (add_device b) devs g)) d = slice_opt (type_keys b devs d)"
proof -
  have "(\<forall>k. fmlookup (iommuMap (fold (add_device b) devs g)) k = slice_opt (members b devs k)) \<and>
        (\<forall>d. fmlookup (deviceMap (fold (add_device b) devs g)) d = slice_opt (type_keys b devs d))"
  proof (induction devs rule: rev_induct)
    case Nil
    then show ?case using assms by (simp add: type_keys_def group_keys_def)
  next
    case (snoc dev devs)
    show ?case
    proof (cases "eligible dev")
      case True
      with snoc show ?thesis
        by (auto simp: add_device_eligible map_append_slice_opt members_snoc type_keys_snoc)
    next
      case False
      with snoc show ?thesis
        by (simp add: add_device_skip members_snoc type_keys_snoc)
    qed
  qed
  then show "fmlookup (iommuMap (fold (add_device b) devs g)) k = slice_opt (members b devs k)"
    and "fmlookup (deviceMap (fold (add_device b) devs g)) d = slice_opt (type_keys b devs d)" by simp_all
qed

lemma loop_switches:
  assumes "nvSwitchDeviceIDs g = fmempty"
  shows "isNVSwitchDeviceID (fold (add_device b) devs g) d = switch_ID devs d"
proof (induction devs rule: rev_induct)
  case Nil
  then show ?case using assms by (simp add: isNVSwitchDeviceID_def switch_ID_def)
next
  case (snoc dev devs)
  then show ?case
    by (cases "eligible dev")
       (auto simp: add_device_eligible add_device_skip isNVSwitchDeviceID_def switch_ID_def)
qed

section \<open>Well-formed maps\<close>

text \<open>
  What the rest of the program relies on: no empty slices; the keys of a device type are
  distinct, are in the IOMMU map, and their first device is of that type; every key of the
  IOMMU map belongs to a device type.
\<close>

definition wf_maps :: "globals \<Rightarrow> bool" where
  "wf_maps g \<longleftrightarrow>
     (\<forall>k ds. fmlookup (iommuMap g) k = Some ds \<longrightarrow> ds \<noteq> []) \<and>
     (\<forall>d ks. fmlookup (deviceMap g) d = Some ks \<longrightarrow> ks \<noteq> [] \<and> distinct ks \<and>
        (\<forall>k \<in> set ks. \<exists>ds. fmlookup (iommuMap g) k = Some ds \<and> hex4 (DeviceID (hd ds)) = d)) \<and>
     (\<forall>k \<in> fmdom' (iommuMap g). \<exists>d ks. fmlookup (deviceMap g) d = Some ks \<and> k \<in> set ks)"

lemma wf_init [simp]: "wf_maps init_globals"
  by (simp add: wf_maps_def init_globals_def)

lemma dom_slice_opt: "(\<And>k. fmlookup m k = slice_opt (F k)) \<Longrightarrow> fmdom' m = {k. F k \<noteq> []}"
  by (auto simp: slice_opt_def fmlookup_dom'_iff split: if_splits)

lemma type_keys_ID: "k \<in> set (type_keys b devs d) \<Longrightarrow>
    members b devs k \<noteq> [] \<and> hex4 (DeviceID (hd (members b devs k))) = d"
  by (simp add: type_keys_def in_group_keys)

lemma wf_maps_spec:
  assumes i: "\<And>k. fmlookup (iommuMap g) k = slice_opt (members b devs k)"
    and d: "\<And>d. fmlookup (deviceMap g) d = slice_opt (type_keys b devs d)"
  shows "wf_maps g"
proof -
  have "\<exists>d ks. fmlookup (deviceMap g) d = Some ks \<and> k \<in> set ks" if "members b devs k \<noteq> []" for k
  proof -
    let ?d = "hex4 (DeviceID (hd (members b devs k)))"
    from that have k: "k \<in> set (type_keys b devs ?d)"
      by (simp add: type_keys_def in_group_keys)
    then have "fmlookup (deviceMap g) ?d = Some (type_keys b devs ?d)" by (auto simp: d)
    with k show ?thesis by blast
  qed
  moreover have "distinct (type_keys b devs d')" for d'
    by (simp add: type_keys_def)
  ultimately show ?thesis
    by (auto simp: wf_maps_def i d dom_slice_opt [OF i] dom_slice_opt [OF d] dest: type_keys_ID)
qed

lemma wf_maps_empty: "iommuMap g = fmempty \<Longrightarrow> deviceMap g = fmempty \<Longrightarrow> wf_maps g"
  by (simp add: wf_maps_def)

lemma create_spec:
  assumes "supportsIOMMUFD stat = Inr b"
  shows "fmlookup (iommuMap (createIommuDeviceMap stat (Inr devs) g)) k = slice_opt (members b devs k)"
    and "fmlookup (deviceMap (createIommuDeviceMap stat (Inr devs) g)) d = slice_opt (type_keys b devs d)"
    and "isNVSwitchDeviceID (createIommuDeviceMap stat (Inr devs) g) d = switch_ID devs d"
  using assms by (simp_all add: createIommuDeviceMap_def loop_maps loop_switches)

lemma create_wf:
  assumes "wf_maps g"
  shows "wf_maps (createIommuDeviceMap stat GetAllDevices g)"
proof (cases "supportsIOMMUFD stat")
  case (Inl err)
  with assms show ?thesis by (simp add: createIommuDeviceMap_def)
next
  case (Inr b)
  show ?thesis
  proof (cases GetAllDevices)
    case (Inl err)
    with Inr show ?thesis by (simp add: createIommuDeviceMap_def wf_maps_empty)
  next
    fix devs assume "GetAllDevices = Inr devs"
    with create_spec [OF Inr] show ?thesis by (intro wf_maps_spec [of _ b devs]) simp_all
  qed
qed

lemma create_frame [simp]:
  "PGPUAlias (createIommuDeviceMap stat ds g) = PGPUAlias g"
  "NVSwitchAlias (createIommuDeviceMap stat ds g) = NVSwitchAlias g"
  "EnableGFD (createIommuDeviceMap stat ds g) = EnableGFD g"
  by (simp_all add: createIommuDeviceMap_def Let_def split: sum.split)

text \<open>Elimination of the invariant, for the clients.\<close>

lemma wf_mapsD:
  assumes "wf_maps g"
  shows "fmlookup (iommuMap g) k = Some ds \<Longrightarrow> ds \<noteq> []"
    and "fmlookup (deviceMap g) d = Some ks \<Longrightarrow> ks \<noteq> []"
    and "fmlookup (deviceMap g) d = Some ks \<Longrightarrow> distinct ks"
    and "fmlookup (deviceMap g) d = Some ks \<Longrightarrow> k \<in> set ks \<Longrightarrow>
      \<exists>ds. fmlookup (iommuMap g) k = Some ds \<and> hex4 (DeviceID (hd ds)) = d"
    and "k \<in> fmdom' (iommuMap g) \<Longrightarrow> \<exists>d ks. fmlookup (deviceMap g) d = Some ks \<and> k \<in> set ks"
  using assms unfolding wf_maps_def by blast+

lemma wf_type_unique:
  assumes "wf_maps g" and "fmlookup (deviceMap g) d = Some ks" and "k \<in> set ks"
    and "fmlookup (deviceMap g) d' = Some ks'" and "k \<in> set ks'"
  shows "d = d'"
  using wf_mapsD(4) [OF assms(1,2,3)] wf_mapsD(4) [OF assms(1,4,5)] by auto

section \<open>Which devices share a key\<close>

definition share_key :: "globals \<Rightarrow> NvidiaPCIDevice \<Rightarrow> NvidiaPCIDevice \<Rightarrow> bool" where
  "share_key g x y \<longleftrightarrow> (\<exists>k ds. fmlookup (iommuMap g) k = Some ds \<and> x \<in> set ds \<and> y \<in> set ds)"

lemma in_members: "v \<in> set (members b devs k) \<longleftrightarrow>
    (\<exists>x \<in> set devs. eligible x \<and> iommu_key b x = k \<and> v = to_nv x)"
  by (auto simp: members_def)

lemma iommu_key_to_nv: "to_nv x = to_nv y \<Longrightarrow> iommu_key b x = iommu_key b y"
  by (simp add: to_nv_def iommu_key_def)

lemma share_key_iff:
  assumes "supportsIOMMUFD stat = Inr b"
    and "x \<in> set devs" and "y \<in> set devs" and "eligible x" and "eligible y"
  shows "share_key (createIommuDeviceMap stat (Inr devs) g) (to_nv x) (to_nv y)
     \<longleftrightarrow> iommu_key b x = iommu_key b y"
proof
  assume "share_key (createIommuDeviceMap stat (Inr devs) g) (to_nv x) (to_nv y)"
  then obtain k where "to_nv x \<in> set (members b devs k)" "to_nv y \<in> set (members b devs k)"
    by (auto simp: share_key_def create_spec [OF assms(1)])
  then show "iommu_key b x = iommu_key b y"
    unfolding in_members by (metis iommu_key_to_nv)
next
  assume k: "iommu_key b x = iommu_key b y"
  have "to_nv x \<in> set (members b devs (iommu_key b x))" "to_nv y \<in> set (members b devs (iommu_key b x))"
    using assms k by (auto simp: in_members)
  then show "share_key (createIommuDeviceMap stat (Inr devs) g) (to_nv x) (to_nv y)"
    by (auto simp: share_key_def create_spec [OF assms(1)] intro!: exI [of _ "iommu_key b x"])
qed

lemma iommu_key_legacy: "iommu_key False x = Itoa (pci_IommuGroup x)"
  by (simp add: iommu_key_def)

lemma iommu_key_fd:
  "HasPrefix (pci_IommuFD x) ''vfio'' \<Longrightarrow> iommu_key True x = TrimPrefix (pci_IommuFD x) ''vfio''"
  by (cases "pci_IommuFD x") (simp_all add: iommu_key_def)

lemma iommu_key_no_fd: "pci_IommuFD x = [] \<Longrightarrow> iommu_key True x = Itoa (pci_IommuGroup x)"
  by (simp add: iommu_key_def)

section \<open>Lemmas on resource names\<close>

definition name_char :: "char \<Rightarrow> bool" where
  "name_char c \<longleftrightarrow> is_upper c \<or> is_digit c \<or> c = CHR ''_'' \<or> c = CHR ''-''"

lemma upper_char_not_lower: "\<not> is_lower (upper_char c)"
  by (auto simp: upper_char_def is_lower_def)

lemma ToUpper_not_lower: "c \<in> set (ToUpper s) \<Longrightarrow> \<not> is_lower c"
proof (induction s rule: ToUpper.induct)
  case (1 c1 c2 cs)
  have "\<not> is_lower (CHR ''I'')" and "\<not> is_lower (CHR ''S'')"
    by (simp_all add: is_lower_def)
  with 1 show ?case by (auto simp: upper_char_not_lower split: if_splits)
qed (simp_all add: upper_char_not_lower)

lemma set_ReplaceAll_char: "set (ReplaceAll_char s a b) \<subseteq> insert b (set s)"
  by (auto simp: ReplaceAll_char_def)

lemma ReplaceAll_char_id: "a \<notin> set s \<Longrightarrow> ReplaceAll_char s a b = s"
  by (auto simp: ReplaceAll_char_def intro!: map_idI)

lemma name_char_iff: "name_char c \<longleftrightarrow> allowed_char c \<and> \<not> is_lower c"
  by (auto simp: name_char_def allowed_char_def is_alnum_def is_letter_def is_lower_def
      is_upper_def is_digit_def)

lemma formatDeviceName_chars:
  assumes "c \<in> set (formatDeviceName name)"
  shows "name_char c"
proof -
  let ?n3 = "ReplaceAll_char (ReplaceAll_char (ToUpper name) (CHR ''/'') (CHR ''_'')) (CHR ''.'') (CHR ''_'')"
  from assms have c: "c \<in> set (replace_runs is_space ''_'' ?n3)" and a: "allowed_char c"
    by (auto simp: formatDeviceName_def Let_def replace_runs_Nil_filter split: if_splits)
  from c have "c = CHR ''_'' \<or> c \<in> set ?n3"
    using set_replace_runs [of is_space "''_''" ?n3] by auto
  then have "c = CHR ''_'' \<or> c \<in> set (ToUpper name)"
    by (auto simp: ReplaceAll_char_def split: if_splits)
  then show ?thesis
    using a ToUpper_not_lower by (auto simp: name_char_iff is_lower_def)
qed

lemma ToUpper_id: "\<forall>c \<in> set s. name_char c \<Longrightarrow> ToUpper s = s"
proof (induction s rule: ToUpper.induct)
  case (1 c1 c2 cs)
  then have "name_char c1" by simp
  then have "c1 \<noteq> CHR 0xC4" and "c1 \<noteq> CHR 0xC5" and "upper_char c1 = c1"
    by (auto simp: name_char_iff upper_char_def allowed_char_def is_alnum_def is_letter_def
        is_lower_def is_upper_def is_digit_def)
  with 1 show ?case by simp
qed (simp_all add: name_char_iff upper_char_def)

lemma name_char_plain:
  "name_char c \<Longrightarrow> c \<noteq> CHR ''/'' \<and> c \<noteq> CHR ''.'' \<and> \<not> is_space c \<and> allowed_char c"
  by (auto simp: name_char_def allowed_char_def is_alnum_def is_letter_def is_space_def
      is_upper_def is_digit_def)

lemma formatDeviceName_id:
  assumes "\<forall>c \<in> set s. name_char c"
  shows "formatDeviceName s = s"
proof -
  have "CHR ''/'' \<notin> set s" "CHR ''.'' \<notin> set s"
    using assms name_char_plain by blast+
  moreover have "\<forall>c \<in> set s. \<not> is_space c" "\<forall>c \<in> set s. \<not> \<not> allowed_char c"
    using assms name_char_plain by blast+
  ultimately show ?thesis
    using assms by (simp add: formatDeviceName_def Let_def ToUpper_id ReplaceAll_char_id replace_runs_id)
qed

lemma formatDeviceName_idem: "formatDeviceName (formatDeviceName s) = formatDeviceName s"
  by (rule formatDeviceName_id) (simp add: formatDeviceName_chars)

section \<open>Lemmas on the name of a device ID\<close>

lemma name_in_devices_Some:
  "name_in_devices devs d = Some n \<Longrightarrow>
     \<exists>dev \<in> set devs. hex4 (DeviceID dev) = d \<and> n = formatDeviceName (DeviceName dev)"
  by (induction devs) (auto split: if_splits)

lemma name_in_devices_None:
  "name_in_devices devs d = None \<longleftrightarrow> (\<forall>dev \<in> set devs. hex4 (DeviceID dev) \<noteq> d)"
  by (induction devs) auto

definition has_ID :: "globals \<Rightarrow> string \<Rightarrow> NvidiaPCIDevice \<Rightarrow> bool" where
  "has_ID g d dev \<longleftrightarrow> (\<exists>k ds. fmlookup (iommuMap g) k = Some ds \<and> dev \<in> set ds \<and> hex4 (DeviceID dev) = d)"

lemma getDeviceNameForID_cases:
  assumes "set ks \<subseteq> fmdom' (iommuMap g)"
  shows "(\<exists>dev. has_ID g d dev \<and> getDeviceNameForID g ks d = formatDeviceName (DeviceName dev)) \<or>
    (\<forall>k \<in> set ks. \<forall>dev \<in> set (get_slice (iommuMap g) k). hex4 (DeviceID dev) \<noteq> d) \<and>
      getDeviceNameForID g ks d = []"
  using assms
proof (induction ks)
  case (Cons k ks)
  from Cons.prems obtain ds where ds: "fmlookup (iommuMap g) k = Some ds" by auto
  show ?case
  proof (cases "name_in_devices ds d")
    case None
    then have "getDeviceNameForID g (k # ks) d = getDeviceNameForID g ks d"
      and "\<forall>dev \<in> set ds. hex4 (DeviceID dev) \<noteq> d"
      using ds by (simp, simp add: name_in_devices_None)
    with ds Cons show ?thesis by (auto simp del: getDeviceNameForID.simps)
  next
    case (Some n)
    with name_in_devices_Some [OF Some] ds show ?thesis by (force simp: has_ID_def)
  qed
qed simp

lemma getDeviceNameForID_range:
  assumes "range_order (iommuMap g) ks"
  shows "(\<exists>dev. has_ID g d dev \<and> getDeviceNameForID g ks d = formatDeviceName (DeviceName dev)) \<or>
    (\<forall>dev. \<not> has_ID g d dev) \<and> getDeviceNameForID g ks d = []"
proof -
  have ks: "set ks = fmdom' (iommuMap g)" using assms by (rule range_orderD)
  have "\<not> has_ID g d dev"
    if h: "\<forall>k \<in> set ks. \<forall>dev \<in> set (get_slice (iommuMap g) k). hex4 (DeviceID dev) \<noteq> d" for dev
  proof
    assume "has_ID g d dev"
    then obtain k ds where "fmlookup (iommuMap g) k = Some ds" "dev \<in> set ds" "hex4 (DeviceID dev) = d"
      by (auto simp: has_ID_def)
    with h range_order_mem [OF assms] show False by force
  qed
  then show ?thesis using getDeviceNameForID_cases [of ks g d] ks by auto
qed

lemma getDeviceNameForID_chars:
  assumes "range_order (iommuMap g) ks"
  shows "\<forall>c \<in> set (getDeviceNameForID g ks d). name_char c"
  using getDeviceNameForID_range [OF assms, of d] by (auto simp: formatDeviceName_chars)

section \<open>A sample host\<close>

text \<open>Devices and file systems on which the properties are evaluated.\<close>

definition no_iommufd :: stat_fn where "no_iommufd p = Some ErrNotExist"
definition has_iommufd :: stat_fn where "has_iommufd p = None"
definition no_access :: stat_fn where "no_access p = Some (ErrOS ''permission denied'')"

definition sample_gpu :: "string \<Rightarrow> 16 word \<Rightarrow> go_int \<Rightarrow> string \<Rightarrow> pci_device" where
  "sample_gpu addr dev grp fd = \<lparr>pci_Address = addr, pci_Vendor = 0x10de,
     pci_Class = PCI3dControllerClass, pci_Device = dev, pci_DeviceName = ''GH100 [H100 PCIe]'',
     pci_Driver = ''vfio-pci'', pci_IommuGroup = grp, pci_IommuFD = fd\<rparr>"

definition sample_switch :: "string \<Rightarrow> go_int \<Rightarrow> string \<Rightarrow> pci_device" where
  "sample_switch addr grp fd = \<lparr>pci_Address = addr, pci_Vendor = 0x10de,
     pci_Class = PCINvSwitchClass, pci_Device = 0x22a3, pci_DeviceName = ''GH100 [H100 NVSwitch]'',
     pci_Driver = ''vfio-pci'', pci_IommuGroup = grp, pci_IommuFD = fd\<rparr>"

lemma probe_samples [simp]:
  "supportsIOMMUFD no_iommufd = Inr False"
  "supportsIOMMUFD has_iommufd = Inr True"
  "supportsIOMMUFD no_access = Inl (ErrOS ''permission denied'')"
  by (simp_all add: supportsIOMMUFD_def no_iommufd_def has_iommufd_def no_access_def)

lemma eligible_samples [simp]:
  "eligible (sample_gpu a d n fd)" "eligible (sample_switch a n fd)"
  "IsNVSwitch (sample_switch a n fd)" "\<not> IsNVSwitch (sample_gpu a d n fd)"
  by (simp_all add: eligible_def sample_gpu_def sample_switch_def pci_class_defs)

lemma fields_samples [simp]:
  "pci_IommuGroup (sample_gpu a d n fd) = n" "pci_IommuFD (sample_gpu a d n fd) = fd"
  "pci_Device (sample_gpu a d n fd) = d"
  "pci_IommuGroup (sample_switch a n fd) = n" "pci_IommuFD (sample_switch a n fd) = fd"
  "pci_Device (sample_switch a n fd) = 0x22a3"
  by (simp_all add: sample_gpu_def sample_switch_def)

definition two_gpus :: "pci_device list" where
  "two_gpus = [sample_gpu ''0000:01:00.0'' 0x2331 1 ''vfio3'', sample_gpu ''0000:02:00.0'' 0x2331 3 []]"

section \<open>Properties\<close>

text \<open>C3. Where the probe succeeds, discovery files every eligible device (a GPU or NVSwitch bound
  to vfio-pci), and no other, under its IOMMU key in bus order; files a key under the ID of
  its first device, in the order of first appearance; and marks exactly the IDs of eligible
  NVSwitches.\<close>

theorem discovery_builds_spec:
  assumes "supportsIOMMUFD stat = Inr b"
  shows "fmlookup (iommuMap (createIommuDeviceMap stat (Inr devs) g)) = (\<lambda>k. slice_opt (members b devs k)) \<and>
    fmlookup (deviceMap (createIommuDeviceMap stat (Inr devs) g)) = (\<lambda>d. slice_opt (type_keys b devs d)) \<and>
    isNVSwitchDeviceID (createIommuDeviceMap stat (Inr devs) g) = switch_ID devs"
  using create_spec [OF assms] by (simp add: fun_eq_iff)

theorem discovery_builds_spec_witness:
  "fmlookup (iommuMap (createIommuDeviceMap no_iommufd (Inr two_gpus) init_globals)) ''1'' =
     slice_opt (members False two_gpus ''1'')"
  using discovery_builds_spec [OF probe_samples(1), of two_gpus init_globals] by simp

text \<open>C16. After discovery every IOMMU key is advertised under exactly one device ID, once: the
  lists of the device map partition the keys of the IOMMU map, and an advertised key has
  devices, the first of which has the ID.\<close>

theorem discovery_partition:
  assumes "supportsIOMMUFD stat = Inr b"
    and "g' = createIommuDeviceMap stat (Inr devs) g"
  shows "(\<forall>k. k \<in> fmdom' (iommuMap g') \<longleftrightarrow> (\<exists>!d. k \<in> set (get_slice (deviceMap g') d))) \<and>
    (\<forall>d. distinct (get_slice (deviceMap g') d)) \<and>
    (\<forall>d. \<forall>k \<in> set (get_slice (deviceMap g') d).
       \<exists>dev ds. fmlookup (iommuMap g') k = Some (dev # ds) \<and> hex4 (DeviceID dev) = d)"
proof -
  have i: "fmlookup (iommuMap g') k = slice_opt (members b devs k)"
    and d: "get_slice (deviceMap g') d = type_keys b devs d" for k d
    using create_spec [OF assms(1)] assms(2) by (simp_all add: get_slice_slice_opt)
  have "\<exists>dev ds. fmlookup (iommuMap g') k = Some (dev # ds) \<and> hex4 (DeviceID dev) = d'"
    if "k \<in> set (type_keys b devs d')" for k d'
    using type_keys_ID [OF that] i [of k] by (cases "members b devs k") (auto simp: slice_opt_def)
  then show ?thesis
    by (auto simp: d i dom_slice_opt [OF i] type_keys_def in_group_keys)
qed

theorem discovery_partition_witness:
  "\<exists>!d. ''1'' \<in> set (get_slice (deviceMap (createIommuDeviceMap no_iommufd (Inr two_gpus) init_globals)) d)"
proof -
  let ?g = "createIommuDeviceMap no_iommufd (Inr two_gpus) init_globals"
  have "Itoa 1 = ''1''" by code_simp
  then have "''1'' \<in> fmdom' (iommuMap ?g)"
    by (simp add: create_spec(1) [OF probe_samples(1)] members_def two_gpus_def iommu_key_legacy)
  then show ?thesis
    using discovery_partition [OF probe_samples(1) refl, of two_gpus init_globals] by blast
qed

text \<open>Discovery fails safe: where the probe of /dev/iommu fails for another reason than
  absence, the package variables keep their values; where enumerating the devices fails,
  the maps are emptied and nothing stale is advertised. The aliases and the GFD flag are
  never written.\<close>

theorem discovery_errors:
  "(\<forall>err. supportsIOMMUFD stat = Inl err \<longrightarrow> createIommuDeviceMap stat ds g = g) \<and>
   (\<forall>b err. supportsIOMMUFD stat = Inr b \<longrightarrow>
      createIommuDeviceMap stat (Inl err) g =
        g\<lparr>iommuMap := fmempty, deviceMap := fmempty, nvSwitchDeviceIDs := fmempty\<rparr>) \<and>
   PGPUAlias (createIommuDeviceMap stat ds g) = PGPUAlias g \<and>
   NVSwitchAlias (createIommuDeviceMap stat ds g) = NVSwitchAlias g \<and>
   EnableGFD (createIommuDeviceMap stat ds g) = EnableGFD g"
  by (simp add: createIommuDeviceMap_def Let_def split: sum.split)

theorem discovery_errors_witness:
  "createIommuDeviceMap no_access (Inr two_gpus) init_globals = init_globals \<and>
   iommuMap (createIommuDeviceMap no_iommufd (Inl (Errorf ''unable to read PCI bus devices''))
     init_globals) = fmempty"
  using discovery_errors [of no_access "Inr two_gpus" init_globals]
    discovery_errors [THEN conjunct2, THEN conjunct1, rule_format, OF probe_samples(1)] by simp

text \<open>Without IOMMUFD two discovered devices share a key exactly when they are in the same
  IOMMU group: no group is split and no two groups are merged.\<close>

theorem legacy_groups:
  assumes "supportsIOMMUFD stat = Inr False"
    and "x \<in> set devs" and "y \<in> set devs" and "eligible x" and "eligible y"
  shows "share_key (createIommuDeviceMap stat (Inr devs) g) (to_nv x) (to_nv y) \<longleftrightarrow>
    pci_IommuGroup x = pci_IommuGroup y"
  using share_key_iff [OF assms] by (simp add: iommu_key_legacy Itoa_inj)

theorem legacy_groups_witness:
  "\<not> share_key (createIommuDeviceMap no_iommufd (Inr two_gpus) init_globals)
     (to_nv (hd two_gpus)) (to_nv (last two_gpus))"
  using legacy_groups [OF probe_samples(1), of "hd two_gpus" two_gpus "last two_gpus" init_globals]
  by (simp add: two_gpus_def)

text \<open>With IOMMUFD, two discovered devices whose handles have the form vfio<N> share a key
  exactly when they have the same handle.\<close>

theorem iommufd_groups:
  assumes "supportsIOMMUFD stat = Inr True"
    and "x \<in> set devs" and "y \<in> set devs" and "eligible x" and "eligible y"
    and "HasPrefix (pci_IommuFD x) ''vfio''" and "HasPrefix (pci_IommuFD y) ''vfio''"
  shows "share_key (createIommuDeviceMap stat (Inr devs) g) (to_nv x) (to_nv y) \<longleftrightarrow>
    pci_IommuFD x = pci_IommuFD y"
  using share_key_iff [OF assms(1-5)] assms(6,7) by (simp add: iommu_key_fd TrimPrefix_inj)

theorem iommufd_groups_witness:
  "\<not> share_key (createIommuDeviceMap has_iommufd
      (Inr [sample_gpu ''0000:01:00.0'' 0x2331 1 ''vfio3'', sample_switch ''0000:02:00.0'' 2 ''vfio4'']) init_globals)
     (to_nv (sample_gpu ''0000:01:00.0'' 0x2331 1 ''vfio3'')) (to_nv (sample_switch ''0000:02:00.0'' 2 ''vfio4''))"
  using iommufd_groups [OF probe_samples(2), of "sample_gpu ''0000:01:00.0'' 0x2331 1 ''vfio3''"
    "[sample_gpu ''0000:01:00.0'' 0x2331 1 ''vfio3'', sample_switch ''0000:02:00.0'' 2 ''vfio4'']"
    "sample_switch ''0000:02:00.0'' 2 ''vfio4''" init_globals]
  by simp

text \<open>C37. With IOMMUFD the two kinds of key share one name space: a device with the handle
  vfio<n> and a device without a handle in IOMMU group n end up under one key, whatever
  group the first is in.\<close>

theorem iommufd_key_collision:
  assumes "supportsIOMMUFD stat = Inr True"
    and "x \<in> set devs" and "y \<in> set devs" and "eligible x" and "eligible y"
    and "pci_IommuFD x = ''vfio'' @ Itoa (pci_IommuGroup y)" and "pci_IommuFD y = []"
  shows "share_key (createIommuDeviceMap stat (Inr devs) g) (to_nv x) (to_nv y)"
  using share_key_iff [OF assms(1-5)] assms(6,7)
  by (simp add: iommu_key_no_fd iommu_key_fd HasPrefix_iff TrimPrefix_def)

theorem iommufd_key_collision_witness:
  "share_key (createIommuDeviceMap has_iommufd (Inr two_gpus) init_globals)
     (to_nv (hd two_gpus)) (to_nv (last two_gpus)) \<and>
   pci_IommuGroup (hd two_gpus) \<noteq> pci_IommuGroup (last two_gpus)"
proof -
  have "''vfio'' @ Itoa 3 = ''vfio3''" by code_simp
  then show ?thesis
    using iommufd_key_collision [OF probe_samples(2), of "hd two_gpus" two_gpus "last two_gpus" init_globals]
    by (simp add: two_gpus_def)
qed

text \<open>A formatted device name is over upper-case letters, digits, underscore and hyphen,
  and formatting it again changes nothing; a name over that alphabet is its own format.\<close>

theorem formatDeviceName_normal_form:
  "list_all name_char (formatDeviceName name) \<and>
   formatDeviceName (formatDeviceName name) = formatDeviceName name \<and>
   (list_all name_char name \<longrightarrow> formatDeviceName name = name)"
  by (simp add: formatDeviceName_idem formatDeviceName_id list_all_iff formatDeviceName_chars)

theorem formatDeviceName_normal_form_witness:
  "formatDeviceName ''GK104.GL  [GRID/K520]'' = ''GK104_GL_GRID_K520'' \<and>
   formatDeviceName ''GK104_GL_GRID_K520'' = ''GK104_GL_GRID_K520''"
proof -
  have "list_all name_char ''GK104_GL_GRID_K520''" by code_simp
  moreover have "formatDeviceName ''GK104.GL  [GRID/K520]'' = ''GK104_GL_GRID_K520''" by code_simp
  ultimately show ?thesis
    using formatDeviceName_normal_form [of "''GK104_GL_GRID_K520''"] by simp
qed

text \<open>For every order in which the IOMMU map may be ranged over, the name of a device ID is
  the formatted name of a discovered device with that ID, and it is empty when there is none;
  where the devices with the ID agree on their name, the order does not matter.\<close>

theorem device_name_lookup:
  assumes "range_order (iommuMap g) ks"
  shows "((\<exists>dev. has_ID g d dev) \<longrightarrow>
       (\<exists>dev. has_ID g d dev \<and> getDeviceNameForID g ks d = formatDeviceName (DeviceName dev))) \<and>
    ((\<nexists>dev. has_ID g d dev) \<longrightarrow> getDeviceNameForID g ks d = []) \<and>
    ((\<forall>x y. has_ID g d x \<longrightarrow> has_ID g d y \<longrightarrow> DeviceName x = DeviceName y) \<longrightarrow>
       (\<forall>ks'. range_order (iommuMap g) ks' \<longrightarrow> getDeviceNameForID g ks' d = getDeviceNameForID g ks d))"
proof -
  have "getDeviceNameForID g ks' d = getDeviceNameForID g ks d"
    if "range_order (iommuMap g) ks'"
      and "\<forall>x y. has_ID g d x \<longrightarrow> has_ID g d y \<longrightarrow> DeviceName x = DeviceName y" for ks'
    using getDeviceNameForID_range [OF that(1), of d] getDeviceNameForID_range [OF assms, of d] that(2)
    by metis
  then show ?thesis
    using getDeviceNameForID_range [OF assms, of d] by blast
qed

theorem device_name_lookup_witness:
  "getDeviceNameForID (init_globals\<lparr>iommuMap := fmupd ''1'' [to_nv (sample_gpu ''0000:01:00.0'' 0x2331 1 [])] fmempty\<rparr>)
     [''1''] (hex4 0x22a3) = []"
proof -
  let ?g = "init_globals\<lparr>iommuMap := fmupd ''1'' [to_nv (sample_gpu ''0000:01:00.0'' 0x2331 1 [])] fmempty\<rparr>"
  have "range_order (iommuMap ?g) [''1'']" by (simp add: range_order_def)
  moreover have "\<nexists>dev. has_ID ?g (hex4 0x22a3) dev" by (simp add: has_ID_def hex4_inj)
  ultimately show ?thesis using device_name_lookup by blast
qed

end
