(* ===== verification/Backoff.thy ===== *)
theory Backoff
  imports Complex_Main Prelude
begin

text \<open>
  The vendored retry loop of k8s.io/apimachinery/pkg/util/wait (backoff.go, wait.go): the
  back-off parameters, the delay between two attempts, and \<^verbatim>\<open>ExponentialBackoff\<close>.

  Durations are in nanoseconds. The factors are rationals: on the durations that occur here
  the code's products of duration and factor are exact as float64 (they are below 2^52 and the
  factor is 1.5); the product of the jitter is taken without its rounding. The random numbers
  of \<^verbatim>\<open>rand.Float64\<close>, between 0 and 1, are an argument, one per attempt.
\<close>

section \<open>The loop\<close>

record Backoff =
  Duration :: int
  Factor :: rat
  JitterFactor :: rat
  Steps :: int
  Cap :: int

definition second :: int where "second = 1000000000"

definition truncate_rat :: "rat \<Rightarrow> int" where
  "truncate_rat q = (if q < 0 then \<lceil>q\<rceil> else \<lfloor>q\<rfloor>)"

definition Jitter :: "rat \<Rightarrow> int \<Rightarrow> rat \<Rightarrow> int" where
  "Jitter rnd duration maxFactor =
     (let f = (if maxFactor \<le> 0 then 1 else maxFactor) in duration + truncate_rat (rnd * f * of_int duration))"

text \<open>The delay, the next base duration and the steps left.\<close>

definition delay :: "rat \<Rightarrow> int \<Rightarrow> int \<Rightarrow> int \<Rightarrow> rat \<Rightarrow> rat \<Rightarrow> int \<times> int \<times> int" where
  "delay rnd steps duration cap factor jitter =
     (if steps < 1 then
        if 0 < jitter then (Jitter rnd duration jitter, duration, 0) else (duration, duration, 0)
      else
        let steps1 = steps - 1;
            (nxt, steps2) =
              (if factor \<noteq> 0 then
                 let n = truncate_rat (of_int duration * factor)
                 in if 0 < cap \<and> cap < n then (cap, 0) else (n, steps1)
               else (duration, steps1));
            d = (if 0 < jitter then Jitter rnd duration jitter else duration)
        in (d, nxt, steps2))"

definition Step :: "rat \<Rightarrow> Backoff \<Rightarrow> int \<times> Backoff" where
  "Step rnd b = (case delay rnd (Steps b) (Duration b) (Cap b) (Factor b) (JitterFactor b) of
     (nextDuration, duration, steps) \<Rightarrow> (nextDuration, b\<lparr>Duration := duration, Steps := steps\<rparr>))"

lemma Step_decreases: "0 < Steps b \<Longrightarrow> Steps (snd (Step rnd b)) < Steps b"
  by (auto simp: Step_def delay_def Let_def)

definition ErrWaitTimeout :: go_error where
  "ErrWaitTimeout = Errorf ''timed out waiting for the condition''"

text \<open>
  The loop over a condition that changes a state and returns whether it is satisfied and an
  error; \<open>sleep\<close> is what waiting does to the state. A panic of the condition is not modelled.
\<close>

function ExponentialBackoff ::
    "('s \<Rightarrow> (bool \<times> go_error option) \<times> 's) \<Rightarrow> (int \<Rightarrow> 's \<Rightarrow> 's) \<Rightarrow> (nat \<Rightarrow> rat) \<Rightarrow> Backoff \<Rightarrow> 's \<Rightarrow>
       go_error option \<times> 's" where
  "ExponentialBackoff cond sleep rnd b s =
     (if 0 < Steps b then
        (case cond s of ((ok, err), s1) \<Rightarrow>
           if err \<noteq> None \<or> ok then (err, s1)
           else if Steps b = 1 then (Some ErrWaitTimeout, s1)
           else ExponentialBackoff cond sleep (\<lambda>i. rnd (Suc i)) (snd (Step (rnd 0) b))
                  (sleep (fst (Step (rnd 0) b)) s1))
      else (Some ErrWaitTimeout, s))"
  by pat_completeness auto
termination
  by (relation "measure (\<lambda>(cond, sleep, rnd, b, s). nat (Steps b))") (auto simp: Step_decreases)

text \<open>
  The variant with a context, for \<^verbatim>\<open>context.Background()\<close>, the only context it is given: its
  \<^verbatim>\<open>Done\<close> channel is nil, so neither \<^verbatim>\<open>select\<close> takes that case.
\<close>

definition ExponentialBackoffWithContext ::
    "('s \<Rightarrow> (bool \<times> go_error option) \<times> 's) \<Rightarrow> (int \<Rightarrow> 's \<Rightarrow> 's) \<Rightarrow> (nat \<Rightarrow> rat) \<Rightarrow> Backoff \<Rightarrow> 's \<Rightarrow>
       go_error option \<times> 's" where
  "ExponentialBackoffWithContext = ExponentialBackoff"

declare ExponentialBackoff.simps [simp del]

section \<open>How often it tries\<close>

text \<open>The number of attempts when none is satisfied, whatever the random numbers.\<close>

lemma Step_rnd: "snd (Step r b) = snd (Step r' b)"
  by (simp add: Step_def delay_def Let_def split: prod.splits)

function attempts :: "Backoff \<Rightarrow> nat" where
  "attempts b = (if 0 < Steps b then if Steps b = 1 then 1 else Suc (attempts (snd (Step 0 b))) else 0)"
  by pat_completeness auto
termination by (relation "measure (\<lambda>b. nat (Steps b))") (auto simp: Step_decreases)

declare attempts.simps [simp del]

lemma attempts_le_Steps: "int (attempts b) \<le> max 0 (Steps b)"
proof (induction b rule: attempts.induct)
  case (1 b)
  then show ?case using Step_decreases [of b 0] by (subst attempts.simps) auto
qed

lemma attempts_simp:
  "attempts \<lparr>Duration = d, Factor = f, JitterFactor = j, Steps = n, Cap = c\<rparr> =
     (if 0 < n then if n = 1 then 1
        else Suc (attempts \<lparr>Duration = if f \<noteq> 0 then let e = truncate_rat (of_int d * f) in if 0 < c \<and> c < e then c else e else d,
           Factor = f, JitterFactor = j,
           Steps = if f \<noteq> 0 \<and> 0 < c \<and> c < truncate_rat (of_int d * f) then 0 else n - 1, Cap = c\<rparr>)
      else 0)"
  by (subst attempts.simps) (simp add: Step_def delay_def Let_def)

text \<open>
  A contract for loops: \<open>inv n\<close> holds of the states before the next attempt when \<open>n\<close> attempts
  failed, \<open>stop n\<close> relates the result and the final state when an attempt ends the loop after
  \<open>n\<close> failed ones.
\<close>

locale retry_loop =
  fixes cond :: "'s \<Rightarrow> (bool \<times> go_error option) \<times> 's" and sleep :: "int \<Rightarrow> 's \<Rightarrow> 's"
    and inv :: "nat \<Rightarrow> 's \<Rightarrow> bool" and stop :: "nat \<Rightarrow> go_error option \<Rightarrow> 's \<Rightarrow> bool"
  assumes inv_fail: "inv n s \<Longrightarrow> cond s = ((False, None), s1) \<Longrightarrow> inv (Suc n) s1"
    and inv_sleep: "inv n s \<Longrightarrow> inv n (sleep d s)"
    and inv_stop: "inv n s \<Longrightarrow> cond s = ((ok, err), s1) \<Longrightarrow> ok \<or> err \<noteq> None \<Longrightarrow> stop n err s1"
begin

lemma outcome:
  assumes "inv n s" and "ExponentialBackoff cond sleep rnd b s = (r, s')"
  shows "(\<exists>m < n + attempts b. n \<le> m \<and> stop m r s') \<or> r = Some ErrWaitTimeout \<and> inv (n + attempts b) s'"
  using assms
proof (induction b arbitrary: n s rnd rule: attempts.induct)
  case (1 b)
  note EB = ExponentialBackoff.simps [of cond sleep rnd b s]
  obtain ok err s1 where c: "cond s = ((ok, err), s1)" by (metis prod.exhaust)
  consider (off) "\<not> 0 < Steps b" | (hit) "0 < Steps b" "ok \<or> err \<noteq> None"
    | (last) "Steps b = 1" "\<not> ok" "err = None" | (again) "0 < Steps b" "Steps b \<noteq> 1" "\<not> ok" "err = None"
    by (cases "0 < Steps b"; cases "Steps b = 1"; cases ok; cases err) auto
  then show ?case
  proof cases
    case off
    with EB 1(2,3) show ?thesis by (simp add: attempts.simps [of b])
  next
    case hit
    then have "r = err" "s' = s1" using EB 1(3) c by auto
    with inv_stop [OF 1(2) c hit(2)] hit(1) show ?thesis
      by (intro disjI1 exI [of _ n]) (simp add: attempts.simps [of b])
  next
    case last
    with EB 1(3) c have "r = Some ErrWaitTimeout" "s' = s1" by auto
    with inv_fail [OF 1(2)] c last show ?thesis by (simp add: attempts.simps [of b])
  next
    case again
    let ?b = "snd (Step 0 b)" and ?s = "sleep (fst (Step (rnd 0) b)) s1"
    have "ExponentialBackoff cond sleep (\<lambda>i. rnd (Suc i)) ?b ?s = (r, s')"
      using EB 1(3) c again by (simp add: Step_rnd [of 0 b "rnd 0"])
    moreover have "inv (Suc n) ?s" using inv_fail [OF 1(2)] inv_sleep c again by simp
    ultimately have "(\<exists>m < Suc n + attempts ?b. Suc n \<le> m \<and> stop m r s') \<or>
        r = Some ErrWaitTimeout \<and> inv (Suc n + attempts ?b) s'"
      using 1(1) [OF again(1,2)] by blast
    then show ?thesis using again(1,2) by (auto simp: attempts.simps [of b])
  qed
qed

lemma outcome0:
  assumes "inv 0 s" and "ExponentialBackoff cond sleep rnd b s = (r, s')"
  shows "(\<exists>m < attempts b. stop m r s') \<or> r = Some ErrWaitTimeout \<and> inv (attempts b) s'"
  using outcome [OF assms] by auto

end

section \<open>How long it waits\<close>

text \<open>An upper bound on the sum of all waits, for random numbers in [0, 1].\<close>

lemma Jitter_le:
  assumes "0 \<le> r" and "r \<le> 1" and "0 < f" and "0 \<le> d"
  shows "rat_of_int (Jitter r d f) \<le> (1 + f) * of_int d"
proof -
  have "0 \<le> r * f * rat_of_int d" using assms by simp
  then have "of_int (truncate_rat (r * f * rat_of_int d)) \<le> r * f * rat_of_int d"
    by (simp add: truncate_rat_def)
  also have "\<dots> \<le> 1 * f * rat_of_int d" using assms by (intro mult_right_mono) simp_all
  finally show ?thesis using assms(3) by (simp add: Jitter_def Let_def algebra_simps)
qed

function wait_bound :: "Backoff \<Rightarrow> rat" where
  "wait_bound b = (if 0 < Steps b \<and> Steps b \<noteq> 1
     then (1 + JitterFactor b) * of_int (Duration b) + wait_bound (snd (Step 0 b)) else 0)"
  by pat_completeness auto
termination by (relation "measure (\<lambda>b. nat (Steps b))") (auto simp: Step_decreases)

declare wait_bound.simps [simp del]

lemma wait_bound_simp:
  "wait_bound \<lparr>Duration = d, Factor = f, JitterFactor = j, Steps = n, Cap = c\<rparr> =
     (if 0 < n \<and> n \<noteq> 1
      then (1 + j) * of_int d + wait_bound \<lparr>Duration = if f \<noteq> 0 then let e = truncate_rat (of_int d * f) in if 0 < c \<and> c < e then c else e else d,
           Factor = f, JitterFactor = j,
           Steps = if f \<noteq> 0 \<and> 0 < c \<and> c < truncate_rat (of_int d * f) then 0 else n - 1, Cap = c\<rparr>
      else 0)"
  by (subst wait_bound.simps) (simp add: Step_def delay_def Let_def)

text \<open>The loop with a clock that adds up the waits.\<close>

definition timed_cond :: "('s \<Rightarrow> (bool \<times> go_error option) \<times> 's) \<Rightarrow> 's \<times> int \<Rightarrow> (bool \<times> go_error option) \<times> 's \<times> int" where
  "timed_cond cond = (\<lambda>(s, t). case cond s of (r, s1) \<Rightarrow> (r, s1, t))"

definition timed_sleep :: "(int \<Rightarrow> 's \<Rightarrow> 's) \<Rightarrow> int \<Rightarrow> 's \<times> int \<Rightarrow> 's \<times> int" where
  "timed_sleep sleep d = (\<lambda>(s, t). (sleep d s, t + d))"

lemma timed_apply [simp]:
  "timed_cond cond (s, t) = (case cond s of (r, s1) \<Rightarrow> (r, s1, t))"
  "timed_sleep sleep d (s, t) = (sleep d s, t + d)"
  by (simp_all add: timed_cond_def timed_sleep_def)

lemma truncate_nonneg: "0 \<le> q \<Longrightarrow> 0 \<le> truncate_rat q"
  by (simp add: truncate_rat_def)

lemma Step_parts:
  assumes "0 < Steps b" and "0 \<le> Duration b" and "0 \<le> Factor b" and "0 < JitterFactor b" and "0 \<le> r" and "r \<le> 1"
  shows "rat_of_int (fst (Step r b)) \<le> (1 + JitterFactor b) * of_int (Duration b)"
    and "0 \<le> Duration (snd (Step r b))" and "Factor (snd (Step r b)) = Factor b"
    and "JitterFactor (snd (Step r b)) = JitterFactor b"
  using assms Jitter_le [OF assms(5,6,4,2)]
  by (auto simp: Step_def delay_def Let_def truncate_nonneg split: prod.splits)

lemma wait_bound_nonneg:
  assumes "0 \<le> Duration b" and "0 \<le> Factor b" and "0 < JitterFactor b"
  shows "0 \<le> wait_bound b"
  using assms
proof (induction b rule: wait_bound.induct)
  case (1 b)
  have "0 \<le> wait_bound (snd (Step 0 b))" if "0 < Steps b \<and> Steps b \<noteq> 1"
    using 1 that Step_parts [of b 0] by simp
  with 1(2-4) show ?case by (subst wait_bound.simps) simp
qed

lemma waits_bounded:
  assumes "\<And>i. 0 \<le> rnd i \<and> rnd i \<le> 1" and "0 \<le> Duration b" and "0 \<le> Factor b" and "0 < JitterFactor b"
    and "ExponentialBackoff (timed_cond cond) (timed_sleep sleep) rnd b (s, t) = (r, s', t')"
  shows "rat_of_int t' \<le> of_int t + wait_bound b"
  using assms
proof (induction b arbitrary: s t rnd rule: attempts.induct)
  case (1 b)
  note EB = ExponentialBackoff.simps [of "timed_cond cond" "timed_sleep sleep" rnd b "(s, t)"]
  obtain ok err s1 where c: "cond s = ((ok, err), s1)" by (metis prod.exhaust)
  show ?case
  proof (cases "0 < Steps b \<and> \<not> ok \<and> err = None \<and> Steps b \<noteq> 1")
    case True
    let ?d = "fst (Step (rnd 0) b)" and ?b = "snd (Step 0 b)"
    note p = Step_parts [OF _ 1(3-5), of "rnd 0"] and p0 = Step_parts [OF _ 1(3-5), of 0]
    have e: "ExponentialBackoff (timed_cond cond) (timed_sleep sleep) (\<lambda>i. rnd (Suc i)) ?b (sleep ?d s1, t + ?d) = (r, s', t')"
      using EB 1(6) c True by (simp add: Step_rnd [of 0 b "rnd 0"])
    have "rat_of_int t' \<le> of_int (t + ?d) + wait_bound ?b"
      by (rule 1(1) [OF _ _ _ _ _ _ e]) (use True 1(2-5) p0 in simp_all)
    moreover have "rat_of_int ?d \<le> (1 + JitterFactor b) * of_int (Duration b)" using p 1(2) True by simp
    ultimately show ?thesis using True by (simp add: wait_bound.simps [of b])
  next
    case False
    then have "t' = t" using EB 1(6) c by (auto split: if_splits)
    then show ?thesis using wait_bound_nonneg [OF 1(3-5)] by simp
  qed
qed

section \<open>How often it calls\<close>

text \<open>The loop with a counter of the calls of its condition.\<close>

definition counted_cond :: "('s \<Rightarrow> (bool \<times> go_error option) \<times> 's) \<Rightarrow> 's \<times> nat \<Rightarrow> (bool \<times> go_error option) \<times> 's \<times> nat" where
  "counted_cond cond = (\<lambda>(s, n). case cond s of (r, s1) \<Rightarrow> (r, s1, Suc n))"

definition counted_sleep :: "(int \<Rightarrow> 's \<Rightarrow> 's) \<Rightarrow> int \<Rightarrow> 's \<times> nat \<Rightarrow> 's \<times> nat" where
  "counted_sleep sleep d = (\<lambda>(s, n). (sleep d s, n))"

lemma counted_apply [simp]:
  "counted_cond cond (s, n) = (case cond s of (r, s1) \<Rightarrow> (r, s1, Suc n))"
  "counted_sleep sleep d (s, n) = (sleep d s, n)"
  by (simp_all add: counted_cond_def counted_sleep_def)

text \<open>The call that ended the loop.\<close>

definition ended_by :: "('s \<Rightarrow> (bool \<times> go_error option) \<times> 's) \<Rightarrow> go_error option \<Rightarrow> bool" where
  "ended_by cond r \<longleftrightarrow> (\<exists>y ok. fst (cond y) = (ok, r) \<and> (ok \<or> r \<noteq> None))"

interpretation tries: retry_loop "counted_cond cond" "counted_sleep sleep" "\<lambda>k x. snd x = k"
  "\<lambda>k r x. snd x = Suc k \<and> ended_by cond r"
  by unfold_locales (auto simp: counted_cond_def counted_sleep_def ended_by_def split: prod.splits, (metis fst_conv)+)

lemma counted_simulates:
  "ExponentialBackoff (counted_cond cond) (counted_sleep sleep) rnd b (s, n) = (r, s', n') \<Longrightarrow>
     ExponentialBackoff cond sleep rnd b s = (r, s')"
proof (induction b arbitrary: s n rnd rule: attempts.induct)
  case (1 b)
  note EB = ExponentialBackoff.simps [of "counted_cond cond" "counted_sleep sleep" rnd b "(s, n)"]
    ExponentialBackoff.simps [of cond sleep rnd b s]
  obtain ok err s1 where c: "cond s = ((ok, err), s1)" by (metis prod.exhaust)
  show ?case
  proof (cases "0 < Steps b \<and> \<not> ok \<and> err = None \<and> Steps b \<noteq> 1")
    case True
    then have "ExponentialBackoff (counted_cond cond) (counted_sleep sleep) (\<lambda>i. rnd (Suc i)) (snd (Step 0 b))
        (sleep (fst (Step (rnd 0) b)) s1, Suc n) = (r, s', n')"
      using EB(1) 1(2) c by (simp add: Step_rnd [of 0 b "rnd 0"])
    with 1(1) True EB(2) c show ?thesis by (simp add: Step_rnd [of 0 b "rnd 0"])
  next
    case False
    with EB 1(2) c show ?thesis by (auto split: if_splits)
  qed
qed

section \<open>Termination\<close>

text \<open>The retry loop ends for every condition, state and random numbers, with at most
  \<^verbatim>\<open>Steps\<close> calls of the condition: it gives up after the number of calls that the back-off alone
  determines, or ends before with the result of a call that was satisfied or failed. The loop
  that counts the calls has the outcome of the loop itself.\<close>

theorem backoff_at_most_steps:
  assumes "ExponentialBackoff (counted_cond cond) (counted_sleep sleep) rnd b (s, 0) = (r, s', n)"
  shows "ExponentialBackoff cond sleep rnd b s = (r, s') \<and> int (attempts b) \<le> max 0 (Steps b) \<and>
    (r = Some ErrWaitTimeout \<and> n = attempts b \<or> ended_by cond r \<and> 0 < n \<and> n \<le> attempts b)"
  using tries.outcome0 [OF _ assms] counted_simulates [OF assms] attempts_le_Steps [of b] by auto

theorem backoff_at_most_steps_witness:
  "ExponentialBackoff (\<lambda>k. ((k = 2, None), Suc k)) (\<lambda>d k. k) (\<lambda>_. 0)
     \<lparr>Duration = 1, Factor = 2, JitterFactor = 0, Steps = 5, Cap = 100\<rparr> (0 :: nat) = (None, 3)"
proof -
  let ?b = "\<lparr>Duration = 1, Factor = 2, JitterFactor = 0, Steps = 5, Cap = 100\<rparr>" and ?c = "\<lambda>k :: nat. ((k = 2, None), Suc k)"
  have t: "truncate_rat 2 = 2" "truncate_rat 4 = 4" by (simp_all add: truncate_rat_def)
  have "ExponentialBackoff (counted_cond ?c) (counted_sleep (\<lambda>d k. k)) (\<lambda>_. 0) ?b (0, 0) = (None, 3, 3)"
    by (simp add: ExponentialBackoff.simps Step_def delay_def Let_def t)
  from backoff_at_most_steps [OF this] show ?thesis by simp
qed

end
