(* ===== verification/Gfd.thy ===== *)
theory Gfd
  imports Discovery Backoff
begin

text \<open>
  GPU feature discovery (pkg/device_plugin/gfd.go): the pod that labels the node, created
  when the Kata runtime is up and deleted when it has completed.

  The calls to the cluster's API, and the waits, are recorded oldest first. What the cluster
  answers may depend on all calls before; a time-out of a call is one of its errors.
\<close>

section \<open>Pods and the cluster\<close>

record container =
  c_Name :: string
  c_Image :: string
  c_Command :: "string list"
  c_Env :: "(string \<times> string) list"
  c_Limits :: "(string \<times> int) list"
  c_Requests :: "(string \<times> int) list"
  c_VolumeMounts :: "(string \<times> string) list"
  c_Privileged :: bool

record pod =
  p_Name :: string
  p_NodeName :: string
  p_RestartPolicy :: string
  p_RuntimeClassName :: string
  p_ServiceAccountName :: string
  p_Containers :: "container list"
  p_Volumes :: "(string \<times> string) list"

text \<open>What the code reads of a pod the API returns.\<close>

record pod_state =
  st_Name :: string
  st_Phase :: string
  st_Images :: "string list"

datatype api_call =
    GetPod string string
  | DeletePod string string
  | CreatePod string pod
  | GetNode string
  | Wait int

record cluster =
  get_pod :: "api_call list \<Rightarrow> string \<Rightarrow> string \<Rightarrow> pod_state result"
  delete_pod :: "api_call list \<Rightarrow> string \<Rightarrow> string \<Rightarrow> go_error option"
  create_pod :: "api_call list \<Rightarrow> string \<Rightarrow> pod \<Rightarrow> go_error option"
  get_node :: "api_call list \<Rightarrow> string \<Rightarrow> (string, string) fmap result"

section \<open>The pod\<close>

text \<open>\<open>None\<close>: the index into the pod's containers panics.\<close>

definition getGFDImageName ::
    "(string \<Rightarrow> string) \<Rightarrow> cluster \<Rightarrow> string \<Rightarrow> api_call list \<Rightarrow> string option \<times> api_call list" where
  "getGFDImageName getenv cl namespace calls =
     (let gfdImage = getenv ''GFD_IMAGE''
      in if gfdImage \<noteq> [] then (Some gfdImage, calls)
         else let podName = getenv ''HOSTNAME''
              in (case get_pod cl calls namespace podName of
                    Inl err \<Rightarrow> Some []
                  | Inr p \<Rightarrow> (case st_Images p of [] \<Rightarrow> None | img # _ \<Rightarrow> Some img),
                  calls @ [GetPod namespace podName]))"

definition getNodeLabel ::
    "cluster \<Rightarrow> string \<Rightarrow> string \<Rightarrow> api_call list \<Rightarrow> (bool \<times> string) \<times> api_call list" where
  "getNodeLabel cl nodeName labelKey calls =
     (case get_node cl calls nodeName of
        Inl err \<Rightarrow> (False, [])
      | Inr labels \<Rightarrow> (case fmlookup labels labelKey of Some val \<Rightarrow> (True, val) | None \<Rightarrow> (False, [])),
      calls @ [GetNode nodeName])"

text \<open>The loop over the device map in the order \<open>ks\<close>; \<open>names\<close> as in \<^verbatim>\<open>getDeviceNameForID\<close>.\<close>

fun getGPUDeviceName :: "globals \<Rightarrow> (string \<Rightarrow> string list) \<Rightarrow> string list \<Rightarrow> string" where
  "getGPUDeviceName g names [] = []"
| "getGPUDeviceName g names (deviceID # ks) =
     (if isNVSwitchDeviceID g deviceID then getGPUDeviceName g names ks
      else
        let deviceName = (if PGPUAlias g \<noteq> [] then PGPUAlias g
              else getDeviceNameForID g (names deviceID) deviceID)
        in if deviceName = [] then deviceID else deviceName)"

definition runtime_class :: "cluster \<Rightarrow> string \<Rightarrow> api_call list \<Rightarrow> string \<times> api_call list" where
  "runtime_class cl nodeName calls =
     (case getNodeLabel cl nodeName ''nvidia.com/cc.ready.state'' calls of ((exists1, value1), calls1) \<Rightarrow>
        if exists1 \<and> EqualFold value1 ''true'' then
          (case getNodeLabel cl nodeName ''amd.feature.node.kubernetes.io/snp'' calls1 of ((exists2, value2), calls2) \<Rightarrow>
             if exists2 \<and> EqualFold value2 ''true'' then (''kata-qemu-nvidia-gpu-snp'', calls2)
             else
               (case getNodeLabel cl nodeName ''intel.feature.node.kubernetes.io/tdx'' calls2 of ((exists3, value3), calls3) \<Rightarrow>
                  if exists3 \<and> EqualFold value3 ''true'' then (''kata-qemu-nvidia-gpu-tdx'', calls3)
                  else (''kata-qemu-nvidia-gpu'', calls3)))
        else (''kata-qemu-nvidia-gpu'', calls1))"

definition gfd_container :: "string \<Rightarrow> string \<Rightarrow> string \<Rightarrow> string \<Rightarrow> container" where
  "gfd_container nodeName namespace gfdImage resourceName =
     \<lparr>c_Name = ''gpu-feature-discovery'', c_Image = gfdImage, c_Command = [''/usr/bin/gpu-feature-discovery''],
      c_Env = [(''MIG_STRATEGY'', ''none''), (''GFD_ONESHOT'', ''true''), (''GFD_USE_NODE_FEATURE_API'', ''true''),
        (''NODE_NAME'', nodeName), (''NAMESPACE'', namespace)],
      c_Limits = [(resourceName, 1)], c_Requests = [(resourceName, 1)],
      c_VolumeMounts = [(''output-dir'', ''/etc/kubernetes/node-feature-discovery/features.d''), (''host-sys'', ''/sys'')],
      c_Privileged = True\<rparr>"

definition createGFDPod ::
    "cluster \<Rightarrow> string \<Rightarrow> string \<Rightarrow> string \<Rightarrow> string \<Rightarrow> string \<Rightarrow> api_call list \<Rightarrow> pod \<times> api_call list" where
  "createGFDPod cl gpuDeviceName nodeName namespace gfdImage saName calls =
     (case runtime_class cl nodeName calls of (runtimeClassName, calls1) \<Rightarrow>
        let resourceName = DeviceNamespace @ ''/'' @ gpuDeviceName
        in (\<lparr>p_Name = ''gfd-'' @ nodeName, p_NodeName = nodeName, p_RestartPolicy = ''OnFailure'',
             p_RuntimeClassName = runtimeClassName, p_ServiceAccountName = saName,
             p_Containers = [gfd_container nodeName namespace gfdImage resourceName],
             p_Volumes = [(''output-dir'', ''/etc/kubernetes/node-feature-discovery/features.d''), (''host-sys'', ''/sys'')]\<rparr>,
            calls1))"

section \<open>Retries\<close>

definition wait_call :: "int \<Rightarrow> api_call list \<Rightarrow> api_call list" where
  "wait_call d calls = calls @ [Wait d]"

definition launch_backoff :: Backoff where
  "launch_backoff = \<lparr>Duration = 1 * second, Factor = 3 / 2, JitterFactor = 1 / 10, Steps = 50, Cap = 30 * second\<rparr>"

definition kata_backoff :: Backoff where
  "kata_backoff = \<lparr>Duration = 1 * second, Factor = 3 / 2, JitterFactor = 1 / 10, Steps = 50, Cap = 30 * second\<rparr>"

definition cleanup_backoff :: Backoff where
  "cleanup_backoff = \<lparr>Duration = 2 * second, Factor = 3 / 2, JitterFactor = 1 / 10, Steps = 30, Cap = 60 * second\<rparr>"

definition launch_cond ::
    "cluster \<Rightarrow> string \<Rightarrow> pod \<Rightarrow> api_call list \<Rightarrow> (bool \<times> go_error option) \<times> api_call list" where
  "launch_cond cl namespace p calls =
     (case create_pod cl calls namespace p of
        Some err \<Rightarrow> (False, None)
      | None \<Rightarrow> (True, None), calls @ [CreatePod namespace p])"

definition LaunchPodWithRetries ::
    "cluster \<Rightarrow> (nat \<Rightarrow> rat) \<Rightarrow> pod \<Rightarrow> string \<Rightarrow> api_call list \<Rightarrow> go_error option \<times> api_call list" where
  "LaunchPodWithRetries cl rnd p namespace calls =
     (let calls1 = calls @ [GetPod namespace (p_Name p)]
      in (case get_pod cl calls namespace (p_Name p) of
            Inr existingPod \<Rightarrow>
              let calls2 = calls1 @ [DeletePod namespace (st_Name existingPod)]
              in (case delete_pod cl calls1 namespace (st_Name existingPod) of
                    Some err \<Rightarrow> (Some err, calls2)
                  | None \<Rightarrow> ExponentialBackoff (launch_cond cl namespace p) wait_call rnd launch_backoff calls2)
          | Inl err \<Rightarrow> ExponentialBackoff (launch_cond cl namespace p) wait_call rnd launch_backoff calls1))"

definition kata_ready :: "(string, string) fmap \<Rightarrow> bool" where
  "kata_ready labels \<longleftrightarrow> fmlookup labels ''katacontainers.io/kata-runtime'' = Some ''true''"

definition kata_cond ::
    "cluster \<Rightarrow> string \<Rightarrow> api_call list \<Rightarrow> (bool \<times> go_error option) \<times> api_call list" where
  "kata_cond cl nodeName calls =
     (case get_node cl calls nodeName of
        Inl err \<Rightarrow> (False, None)
      | Inr labels \<Rightarrow> if kata_ready labels then (True, None) else (False, None),
      calls @ [GetNode nodeName])"

definition WaitForKataRuntime ::
    "cluster \<Rightarrow> (nat \<Rightarrow> rat) \<Rightarrow> string \<Rightarrow> api_call list \<Rightarrow> go_error option \<times> api_call list" where
  "WaitForKataRuntime cl rnd nodeName calls =
     ExponentialBackoff (kata_cond cl nodeName) wait_call rnd kata_backoff calls"

definition cleanup_cond ::
    "cluster \<Rightarrow> string \<Rightarrow> string \<Rightarrow> api_call list \<Rightarrow> (bool \<times> go_error option) \<times> api_call list" where
  "cleanup_cond cl name namespace calls =
     (let calls1 = calls @ [GetPod namespace name]
      in (case get_pod cl calls namespace name of
            Inl err \<Rightarrow> ((False, Some (Wrapf ''error fetching GFD pod'' err)), calls1)
          | Inr p \<Rightarrow>
              if st_Phase p = ''Succeeded'' then
                (case delete_pod cl calls1 namespace name of
                   Some err \<Rightarrow> (False, None)
                 | None \<Rightarrow> (True, None), calls1 @ [DeletePod namespace name])
              else ((False, None), calls1)))"

text \<open>The error is formatted with \<^verbatim>\<open>%v\<close>, so it is not wrapped; its text is left out.\<close>

definition CheckAndDeleteCompletedPod ::
    "cluster \<Rightarrow> (nat \<Rightarrow> rat) \<Rightarrow> string \<Rightarrow> string \<Rightarrow> api_call list \<Rightarrow> go_error option \<times> api_call list" where
  "CheckAndDeleteCompletedPod cl rnd name namespace calls =
     (case ExponentialBackoffWithContext (cleanup_cond cl name namespace) wait_call rnd cleanup_backoff calls of
        (Some err, calls1) \<Rightarrow> (Some (Errorf ''[GFD cleanup] failed after backoff''), calls1)
      | (None, calls1) \<Rightarrow> (None, calls1))"

section \<open>The whole run\<close>

text \<open>How \<^verbatim>\<open>runGFD\<close> ends; it logs and returns nothing.\<close>

datatype gfd_end = Missing string | No_client go_error | Panicked | Kata_error go_error
  | Launch_error go_error | Reap_error go_error | Cleaned_up

text \<open>
  \<open>client\<close> is the error of \<^verbatim>\<open>rest.InClusterConfig\<close> or \<^verbatim>\<open>kubernetes.NewForConfig\<close>, if one
  fails; \<open>rnd\<close> gives each of the three loops its random numbers.
\<close>

definition runGFD ::
    "(string \<Rightarrow> string) \<Rightarrow> go_error option \<Rightarrow> cluster \<Rightarrow> (nat \<Rightarrow> nat \<Rightarrow> rat) \<Rightarrow>
       globals \<Rightarrow> (string \<Rightarrow> string list) \<Rightarrow> string list \<Rightarrow> gfd_end \<times> api_call list" where
  "runGFD getenv client cl rnd g names ks =
     (let nodeName = getenv ''NODE_NAME''; namespace = getenv ''POD_NAMESPACE''; saName = getenv ''POD_SERVICE_ACCOUNT''
      in if nodeName = [] then (Missing ''NODE_NAME'', [])
         else if namespace = [] then (Missing ''POD_NAMESPACE'', [])
         else if saName = [] then (Missing ''POD_SERVICE_ACCOUNT'', [])
         else (case client of Some err \<Rightarrow> (No_client err, [])
         | None \<Rightarrow>
         (case getGFDImageName getenv cl namespace [] of
            (None, calls1) \<Rightarrow> (Panicked, calls1)
          | (Some gfdImage, calls1) \<Rightarrow>
         (case WaitForKataRuntime cl (rnd 0) nodeName calls1 of
            (Some err, calls2) \<Rightarrow> (Kata_error err, calls2)
          | (None, calls2) \<Rightarrow>
         (case createGFDPod cl (getGPUDeviceName g names ks) nodeName namespace gfdImage saName calls2 of
            (gfdPod, calls3) \<Rightarrow>
         (case LaunchPodWithRetries cl (rnd 1) gfdPod namespace calls3 of
            (Some err, calls4) \<Rightarrow> (Launch_error err, calls4)
          | (None, calls4) \<Rightarrow>
         (case CheckAndDeleteCompletedPod cl (rnd 2) (p_Name gfdPod) namespace calls4 of
            (Some err, calls5) \<Rightarrow> (Reap_error err, calls5)
          | (None, calls5) \<Rightarrow> (Cleaned_up, calls5))))))))"

end
