(* ===== verification/GfdAll.thy ===== *)
theory GfdAll
  imports Gfd
begin

text \<open>
  Properties of the GPU feature discovery run: how often its loops try, what holds when they
  end, and in which order the pod is created and deleted.
\<close>

section \<open>Call sequences\<close>

text \<open>\<open>Q\<close> holds of every call made after the calls \<open>c0\<close>, with the calls before it.\<close>

definition every :: "(api_call list \<Rightarrow> api_call \<Rightarrow> bool) \<Rightarrow> api_call list \<Rightarrow> api_call list \<Rightarrow> bool" where
  "every Q c0 calls \<longleftrightarrow> (\<forall>i < length calls. length c0 \<le> i \<longrightarrow> Q (take i calls) (calls ! i))"

lemma every_refl [simp]: "every Q c c"
  by (simp add: every_def)

lemma every_snoc: "every Q c0 (c0 @ es @ [c]) \<longleftrightarrow> every Q c0 (c0 @ es) \<and> Q (c0 @ es) c"
proof -
  have "(\<forall>i < Suc (length (c0 @ es)). length c0 \<le> i \<longrightarrow> Q (take i ((c0 @ es) @ [c])) (((c0 @ es) @ [c]) ! i)) \<longleftrightarrow>
      (\<forall>i < length (c0 @ es). length c0 \<le> i \<longrightarrow> Q (take i (c0 @ es)) ((c0 @ es) ! i)) \<and> Q (c0 @ es) c"
    by (auto simp: less_Suc_eq nth_append)
  then show ?thesis by (simp add: every_def)
qed

lemma every_snoc0: "every Q c0 (c0 @ [c]) \<longleftrightarrow> Q c0 c"
  using every_snoc [of Q c0 "[]" c] by simp

lemma every_trans:
  assumes "every Q c0 c1" and "every Q c1 (c1 @ es)"
  shows "every Q c0 (c1 @ es)"
  unfolding every_def
proof (intro allI impI)
  fix i assume i: "i < length (c1 @ es)" "length c0 \<le> i"
  show "Q (take i (c1 @ es)) ((c1 @ es) ! i)"
  proof (cases "i < length c1")
    case True
    with assms(1) i show ?thesis by (simp add: every_def nth_append)
  next
    case False
    with assms(2) i show ?thesis by (simp add: every_def)
  qed
qed

lemma every_mono:
  assumes "every Q c0 (c0 @ es)" and "\<And>us c. Q (c0 @ us) c \<Longrightarrow> Q' (c0 @ us) c"
  shows "every Q' c0 (c0 @ es)"
  unfolding every_def
proof (intro allI impI)
  fix i assume i: "i < length (c0 @ es)" "length c0 \<le> i"
  then have "Q (c0 @ take (i - length c0) es) ((c0 @ es) ! i)" using assms(1) by (simp add: every_def)
  from assms(2) [OF this] i show "Q' (take i (c0 @ es)) ((c0 @ es) ! i)" by simp
qed

section \<open>The three loops\<close>

text \<open>
  After \<open>n\<close> failed attempts: the new calls satisfy \<open>Q\<close> or are waits, and \<open>x\<close>, the call
  every attempt makes, was made \<open>n\<close> times.
\<close>

definition loop_inv ::
    "(api_call list \<Rightarrow> api_call \<Rightarrow> bool) \<Rightarrow> api_call \<Rightarrow> api_call list \<Rightarrow> nat \<Rightarrow> api_call list \<Rightarrow> bool" where
  "loop_inv Q x c0 n calls \<longleftrightarrow> (\<exists>es. calls = c0 @ es \<and> every (\<lambda>us c. (\<exists>d. c = Wait d) \<or> Q us c) c0 calls \<and>
     count_list es x = n)"

lemma loop_inv_init: "loop_inv Q x c0 0 c0"
  by (simp add: loop_inv_def)

lemma loop_inv_snoc:
  assumes "loop_inv Q x c0 n calls" and "Q calls c"
  shows "loop_inv Q x c0 (if c = x then Suc n else n) (calls @ [c])"
proof -
  obtain es where es: "calls = c0 @ es" "every (\<lambda>us c. (\<exists>d. c = Wait d) \<or> Q us c) c0 (c0 @ es)" "count_list es x = n"
    using assms(1) by (auto simp: loop_inv_def)
  with assms(2) show ?thesis
    unfolding loop_inv_def by (intro exI [of _ "es @ [c]"]) (simp add: every_snoc)
qed

lemma loop_inv_wait:
  assumes "loop_inv Q x c0 n calls" and "\<And>d. x \<noteq> Wait d"
  shows "loop_inv Q x c0 n (wait_call d calls)"
proof -
  obtain es where es: "calls = c0 @ es" "every (\<lambda>us c. (\<exists>d. c = Wait d) \<or> Q us c) c0 (c0 @ es)" "count_list es x = n"
    using assms(1) by (auto simp: loop_inv_def)
  with assms(2) [of d] show ?thesis
    unfolding loop_inv_def wait_call_def by (intro exI [of _ "es @ [Wait d]"]) (auto simp: every_snoc)
qed

text \<open>Waiting for the runtime.\<close>

definition node_call :: "string \<Rightarrow> api_call list \<Rightarrow> api_call \<Rightarrow> bool" where
  "node_call nodeName us c \<longleftrightarrow> c = GetNode nodeName"

abbreviation kata_inv :: "string \<Rightarrow> api_call list \<Rightarrow> nat \<Rightarrow> api_call list \<Rightarrow> bool" where
  "kata_inv nodeName \<equiv> loop_inv (node_call nodeName) (GetNode nodeName)"

definition kata_stop ::
    "cluster \<Rightarrow> string \<Rightarrow> api_call list \<Rightarrow> nat \<Rightarrow> go_error option \<Rightarrow> api_call list \<Rightarrow> bool" where
  "kata_stop cl nodeName c0 n r calls \<longleftrightarrow> r = None \<and> (\<exists>us labels. calls = us @ [GetNode nodeName] \<and>
     kata_inv nodeName c0 n us \<and> get_node cl us nodeName = Inr labels \<and> kata_ready labels)"

interpretation kata: retry_loop "kata_cond cl nodeName" wait_call "kata_inv nodeName c0" "kata_stop cl nodeName c0"
proof
  fix n s s1 assume i: "kata_inv nodeName c0 n s" and "kata_cond cl nodeName s = ((False, None), s1)"
  then have "s1 = s @ [GetNode nodeName]" by (simp add: kata_cond_def)
  with loop_inv_snoc [OF i, of "GetNode nodeName"] show "kata_inv nodeName c0 (Suc n) s1"
    by (simp add: node_call_def)
next
  fix n s d assume "kata_inv nodeName c0 n s"
  then show "kata_inv nodeName c0 n (wait_call d s)" by (rule loop_inv_wait) simp
next
  fix n s ok err s1 assume "kata_inv nodeName c0 n s" and "kata_cond cl nodeName s = ((ok, err), s1)" and "ok \<or> err \<noteq> None"
  then show "kata_stop cl nodeName c0 n err s1"
    by (auto simp: kata_stop_def kata_cond_def split: sum.splits if_splits)
qed

text \<open>Creating the pod.\<close>

definition rejected_call :: "cluster \<Rightarrow> string \<Rightarrow> pod \<Rightarrow> api_call list \<Rightarrow> api_call \<Rightarrow> bool" where
  "rejected_call cl namespace p us c \<longleftrightarrow> c = CreatePod namespace p \<and> create_pod cl us namespace p \<noteq> None"

definition launch_stop ::
    "cluster \<Rightarrow> string \<Rightarrow> pod \<Rightarrow> api_call list \<Rightarrow> nat \<Rightarrow> go_error option \<Rightarrow> api_call list \<Rightarrow> bool" where
  "launch_stop cl namespace p c0 n r calls \<longleftrightarrow> r = None \<and> (\<exists>us. calls = us @ [CreatePod namespace p] \<and>
     loop_inv (rejected_call cl namespace p) (CreatePod namespace p) c0 n us \<and> create_pod cl us namespace p = None)"

interpretation launch: retry_loop "launch_cond cl namespace p" wait_call
  "loop_inv (rejected_call cl namespace p) (CreatePod namespace p) c0" "launch_stop cl namespace p c0"
proof
  let ?inv = "loop_inv (rejected_call cl namespace p) (CreatePod namespace p) c0"
  fix n s s1 assume i: "?inv n s" and "launch_cond cl namespace p s = ((False, None), s1)"
  then have "s1 = s @ [CreatePod namespace p]" "rejected_call cl namespace p s (CreatePod namespace p)"
    by (auto simp: launch_cond_def rejected_call_def split: option.splits)
  with loop_inv_snoc [OF i, of "CreatePod namespace p"] show "?inv (Suc n) s1" by simp
next
  fix n s d assume "loop_inv (rejected_call cl namespace p) (CreatePod namespace p) c0 n s"
  then show "loop_inv (rejected_call cl namespace p) (CreatePod namespace p) c0 n (wait_call d s)"
    by (rule loop_inv_wait) simp
next
  fix n s ok err s1
  assume "loop_inv (rejected_call cl namespace p) (CreatePod namespace p) c0 n s"
    and "launch_cond cl namespace p s = ((ok, err), s1)" and "ok \<or> err \<noteq> None"
  then show "launch_stop cl namespace p c0 n err s1"
    by (auto simp: launch_stop_def launch_cond_def split: option.splits)
qed

text \<open>Deleting the pod.\<close>

definition reap_call :: "cluster \<Rightarrow> string \<Rightarrow> string \<Rightarrow> api_call list \<Rightarrow> api_call \<Rightarrow> bool" where
  "reap_call cl namespace name us c \<longleftrightarrow> c = GetPod namespace name \<or> c = DeletePod namespace name \<and>
     (\<exists>ws q. us = ws @ [GetPod namespace name] \<and> get_pod cl ws namespace name = Inr q \<and> st_Phase q = ''Succeeded'')"

definition reap_stop ::
    "cluster \<Rightarrow> string \<Rightarrow> string \<Rightarrow> api_call list \<Rightarrow> nat \<Rightarrow> go_error option \<Rightarrow> api_call list \<Rightarrow> bool" where
  "reap_stop cl namespace name c0 n r calls \<longleftrightarrow>
     loop_inv (reap_call cl namespace name) (GetPod namespace name) c0 (Suc n) calls \<and>
     (r = None \<longrightarrow> (\<exists>us. calls = us @ [DeletePod namespace name] \<and> delete_pod cl us namespace name = None)) \<and>
     (r \<noteq> None \<longrightarrow> (\<exists>us e. calls = us @ [GetPod namespace name] \<and> get_pod cl us namespace name = Inl e))"

lemma cleanup_calls:
  assumes "loop_inv (reap_call cl namespace name) (GetPod namespace name) c0 n s"
    and "cleanup_cond cl name namespace s = (r, s1)"
  shows "loop_inv (reap_call cl namespace name) (GetPod namespace name) c0 (Suc n) s1"
proof -
  let ?Q = "reap_call cl namespace name" and ?g = "GetPod namespace name" and ?d = "DeletePod namespace name"
  have g: "loop_inv ?Q ?g c0 (Suc n) (s @ [?g])"
    using loop_inv_snoc [OF assms(1), of ?g] by (simp add: reap_call_def)
  have d: "loop_inv ?Q ?g c0 (Suc n) (s @ [?g, ?d])"
    if "get_pod cl s namespace name = Inr q" "st_Phase q = ''Succeeded''" for q
    using loop_inv_snoc [OF g, of ?d] that by (simp add: reap_call_def)
  show ?thesis
    using assms(2) g d by (auto simp: cleanup_cond_def Let_def split: sum.splits if_splits)
qed

interpretation reap: retry_loop "cleanup_cond cl name namespace" wait_call
  "loop_inv (reap_call cl namespace name) (GetPod namespace name) c0" "reap_stop cl namespace name c0"
proof
  fix n s s1
  assume "loop_inv (reap_call cl namespace name) (GetPod namespace name) c0 n s"
    and "cleanup_cond cl name namespace s = ((False, None), s1)"
  then show "loop_inv (reap_call cl namespace name) (GetPod namespace name) c0 (Suc n) s1" by (rule cleanup_calls)
next
  fix n s d assume "loop_inv (reap_call cl namespace name) (GetPod namespace name) c0 n s"
  then show "loop_inv (reap_call cl namespace name) (GetPod namespace name) c0 n (wait_call d s)"
    by (rule loop_inv_wait) simp
next
  fix n s ok err s1
  assume i: "loop_inv (reap_call cl namespace name) (GetPod namespace name) c0 n s"
    and c: "cleanup_cond cl name namespace s = ((ok, err), s1)" and "ok \<or> err \<noteq> None"
  with cleanup_calls [OF i c] show "reap_stop cl namespace name c0 n err s1"
    by (auto simp: reap_stop_def cleanup_cond_def Let_def split: sum.splits if_splits option.splits)
qed

section \<open>The back-off parameters\<close>

lemma backoff_attempts: "attempts kata_backoff = 9" "attempts launch_backoff = 9" "attempts cleanup_backoff = 9"
  by (simp_all add: kata_backoff_def launch_backoff_def cleanup_backoff_def second_def attempts_simp
      truncate_rat_def Let_def eval_nat_numeral)

lemma backoff_waits:
  "wait_bound kata_backoff < 83 * of_int second" "wait_bound launch_backoff < 83 * of_int second"
  "wait_bound cleanup_backoff < 165 * of_int second"
  by (simp_all add: kata_backoff_def launch_backoff_def cleanup_backoff_def second_def wait_bound_simp
      truncate_rat_def Let_def)

section \<open>What the loops give\<close>

lemma loop_inv_prefix: "loop_inv Q x c0 n calls \<Longrightarrow> \<exists>es. calls = c0 @ es"
  by (auto simp: loop_inv_def)

lemma loop_inv_every:
  "loop_inv Q x c0 n calls \<Longrightarrow> (\<And>us c. Q us c \<Longrightarrow> Q' us c) \<Longrightarrow> (\<And>us d. Q' us (Wait d)) \<Longrightarrow> every Q' c0 calls"
  unfolding loop_inv_def every_def by metis

lemma loop_inv_count: "loop_inv Q x c0 n calls \<Longrightarrow> count_list (drop (length c0) calls) x = n"
  by (auto simp: loop_inv_def)

lemma kata_cases:
  assumes "WaitForKataRuntime cl rnd nodeName calls = (r, calls')"
  shows "(\<exists>n < 9. kata_stop cl nodeName calls n r calls') \<or> r = Some ErrWaitTimeout \<and> kata_inv nodeName calls 9 calls'"
  using kata.outcome0 [OF loop_inv_init, of cl nodeName rnd kata_backoff calls r calls'] assms
  by (simp add: WaitForKataRuntime_def backoff_attempts)

text \<open>The calls before the loop of \<^verbatim>\<open>LaunchPodWithRetries\<close>, and its outcomes.\<close>

definition launch_start :: "cluster \<Rightarrow> string \<Rightarrow> pod \<Rightarrow> api_call list \<Rightarrow> api_call list \<Rightarrow> bool" where
  "launch_start cl namespace p calls c0 \<longleftrightarrow> c0 = calls @ [GetPod namespace (p_Name p)] \<or>
     (\<exists>q. get_pod cl calls namespace (p_Name p) = Inr q \<and>
        c0 = calls @ [GetPod namespace (p_Name p), DeletePod namespace (st_Name q)])"

lemma launch_cases:
  assumes "LaunchPodWithRetries cl rnd p namespace calls = (r, calls')"
  obtains (Undeleted) err where "r = Some err" "launch_start cl namespace p calls calls'"
  | (Created) c0 n where "launch_start cl namespace p calls c0" "launch_stop cl namespace p c0 n r calls'"
  | (Timeout) c0 where "launch_start cl namespace p calls c0"
      "r = Some ErrWaitTimeout" "loop_inv (rejected_call cl namespace p) (CreatePod namespace p) c0 9 calls'"
proof -
  have loop: thesis
    if c0: "launch_start cl namespace p calls c0"
      and e: "ExponentialBackoff (launch_cond cl namespace p) wait_call rnd launch_backoff c0 = (r, calls')" for c0
    using launch.outcome0 [OF loop_inv_init e] Created [OF c0] Timeout [OF c0] by (auto simp: backoff_attempts)
  show thesis
  proof (cases "get_pod cl calls namespace (p_Name p)")
    case (Inl err)
    with assms show thesis
      by (intro loop [of "calls @ [GetPod namespace (p_Name p)]"]) (simp_all add: LaunchPodWithRetries_def Let_def launch_start_def)
  next
    case (Inr q)
    let ?c = "calls @ [GetPod namespace (p_Name p), DeletePod namespace (st_Name q)]"
    have c: "launch_start cl namespace p calls ?c" using Inr by (simp add: launch_start_def)
    show thesis
    proof (cases "delete_pod cl (calls @ [GetPod namespace (p_Name p)]) namespace (st_Name q)")
      case None
      with Inr assms show thesis by (intro loop [OF c]) (simp add: LaunchPodWithRetries_def Let_def)
    next
      case (Some err)
      with Inr assms c show thesis by (intro Undeleted [of err]) (auto simp: LaunchPodWithRetries_def Let_def)
    qed
  qed
qed

lemma reap_cases:
  assumes "CheckAndDeleteCompletedPod cl rnd name namespace calls = (r, calls')"
  obtains n r0 where "n < 9" "reap_stop cl namespace name calls n r0 calls'" "r = None \<longleftrightarrow> r0 = None"
  | "r \<noteq> None" "loop_inv (reap_call cl namespace name) (GetPod namespace name) calls 9 calls'"
proof -
  obtain r0 where e: "ExponentialBackoff (cleanup_cond cl name namespace) wait_call rnd cleanup_backoff calls = (r0, calls')"
    and r: "r = None \<longleftrightarrow> r0 = None"
    using assms by (auto simp: CheckAndDeleteCompletedPod_def ExponentialBackoffWithContext_def split: prod.splits option.splits)
  from reap.outcome0 [OF loop_inv_init e] r that show thesis by (auto simp: backoff_attempts)
qed

section \<open>The whole run\<close>

text \<open>The calls after \<open>c0\<close>, where pods are created only as in \<open>S\<close>.\<close>

definition creates_only :: "(string \<times> pod) set \<Rightarrow> api_call list \<Rightarrow> api_call list \<Rightarrow> bool" where
  "creates_only S c0 calls \<longleftrightarrow>
     (\<exists>es. calls = c0 @ es \<and> (\<forall>namespace p. CreatePod namespace p \<in> set es \<longrightarrow> (namespace, p) \<in> S))"

lemma creates_only_append:
  "(\<And>namespace p. CreatePod namespace p \<in> set es \<Longrightarrow> (namespace, p) \<in> S) \<Longrightarrow> creates_only S c0 (c0 @ es)"
  by (auto simp: creates_only_def)

lemma creates_only_trans: "creates_only S c0 c1 \<Longrightarrow> creates_only S c1 c2 \<Longrightarrow> creates_only S c0 c2"
  by (auto simp: creates_only_def)

lemma creates_only_mono: "creates_only S c0 c1 \<Longrightarrow> S \<subseteq> S' \<Longrightarrow> creates_only S' c0 c1"
  by (auto simp: creates_only_def)

lemma every_set: "every Q c0 (c0 @ es) \<Longrightarrow> c \<in> set es \<Longrightarrow> \<exists>us. Q us c"
proof -
  assume e: "every Q c0 (c0 @ es)" and "c \<in> set es"
  then obtain i where "i < length es" "c = es ! i" by (auto simp: in_set_conv_nth)
  with e [unfolded every_def, rule_format, of "length c0 + i"] show ?thesis by auto
qed

lemma loop_inv_creates:
  assumes "loop_inv Q x c0 n calls" and "\<And>us namespace p. Q us (CreatePod namespace p) \<Longrightarrow> (namespace, p) \<in> S"
  shows "creates_only S c0 calls"
proof -
  obtain es where es: "calls = c0 @ es" "every (\<lambda>us c. (\<exists>d. c = Wait d) \<or> Q us c) c0 (c0 @ es)"
    using assms(1) by (auto simp: loop_inv_def)
  show ?thesis unfolding es(1)
    by (rule creates_only_append) (use every_set [OF es(2)] assms(2) in fastforce)
qed

text \<open>Calls that change nothing.\<close>

fun is_read :: "api_call \<Rightarrow> bool" where
  "is_read (CreatePod namespace p) = False"
| "is_read (DeletePod namespace n) = False"
| "is_read _ = True"

fun is_create :: "api_call \<Rightarrow> bool" where
  "is_create (CreatePod namespace p) = True"
| "is_create _ = False"

definition reads_only :: "api_call list \<Rightarrow> api_call list \<Rightarrow> bool" where
  "reads_only c0 calls \<longleftrightarrow> (\<exists>es. calls = c0 @ es \<and> list_all is_read es)"

lemma reads_only_trans: "reads_only c0 c1 \<Longrightarrow> reads_only c1 c2 \<Longrightarrow> reads_only c0 c2"
  by (auto simp: reads_only_def)

lemma reads_creates: "reads_only c0 calls \<Longrightarrow> creates_only {} c0 calls"
  by (fastforce simp: reads_only_def creates_only_def list_all_iff)

lemma reads_no_create: "reads_only [] calls \<Longrightarrow> \<not> list_ex is_create calls"
  by (auto simp: reads_only_def list_all_iff list_ex_iff elim!: is_create.elims)

lemma loop_inv_reads:
  assumes "loop_inv Q x c0 n calls" and "\<And>us c. Q us c \<Longrightarrow> is_read c"
  shows "reads_only c0 calls"
proof -
  obtain es where es: "calls = c0 @ es" "every (\<lambda>us c. (\<exists>d. c = Wait d) \<or> Q us c) c0 (c0 @ es)"
    using assms(1) by (auto simp: loop_inv_def)
  have "is_read c" if "c \<in> set es" for c using every_set [OF es(2) that] assms(2) by auto
  with es(1) show ?thesis by (auto simp: reads_only_def list_all_iff)
qed

lemma image_reads:
  "getGFDImageName getenv cl namespace calls = (r, calls') \<Longrightarrow> reads_only calls calls'"
  by (auto simp: getGFDImageName_def Let_def reads_only_def split: if_splits)

lemma wait_reads:
  assumes "WaitForKataRuntime cl rnd nodeName calls = (r, calls')"
  shows "reads_only calls calls'"
  using kata_cases [OF assms]
proof (elim disjE exE conjE)
  fix n assume "kata_stop cl nodeName calls n r calls'"
  then obtain us where "calls' = us @ [GetNode nodeName]" "kata_inv nodeName calls n us" by (auto simp: kata_stop_def)
  with loop_inv_snoc [of "node_call nodeName" "GetNode nodeName" calls n us "GetNode nodeName"]
  have "kata_inv nodeName calls (Suc n) calls'" by (simp add: node_call_def)
  then show ?thesis by (rule loop_inv_reads) (simp add: node_call_def)
next
  assume "kata_inv nodeName calls 9 calls'"
  then show ?thesis by (rule loop_inv_reads) (simp add: node_call_def)
qed

lemma pod_reads:
  "createGFDPod cl d nodeName namespace img saName calls = (p, calls') \<Longrightarrow> reads_only calls calls'"
  by (auto simp: createGFDPod_def runtime_class_def getNodeLabel_def reads_only_def Let_def split: prod.splits if_splits)

lemma launch_calls:
  assumes "LaunchPodWithRetries cl rnd p namespace calls = (r, calls')"
  shows "creates_only {(namespace, p)} calls calls'"
proof -
  let ?S = "{(namespace, p)}"
  have pre: "creates_only ?S calls c0"
    if "launch_start cl namespace p calls c0" for c0
    using that by (auto simp: creates_only_def launch_start_def)
  have loop: "creates_only ?S c0 us" if "loop_inv (rejected_call cl namespace p) (CreatePod namespace p) c0 n us" for c0 n us
    by (rule loop_inv_creates [OF that]) (simp add: rejected_call_def)
  from assms show ?thesis
  proof (cases rule: launch_cases)
    case (Undeleted err)
    with pre [of calls'] show ?thesis by simp
  next
    case (Created c0 n)
    then obtain us where "calls' = us @ [CreatePod namespace p]"
      "loop_inv (rejected_call cl namespace p) (CreatePod namespace p) c0 n us" by (auto simp: launch_stop_def)
    with loop creates_only_append [of "[CreatePod namespace p]" ?S us] creates_only_trans [OF pre [OF Created(1)]]
    show ?thesis by (force intro: creates_only_trans)
  next
    case (Timeout c0)
    from creates_only_trans [OF pre [OF Timeout(1)] loop [OF Timeout(3)]] show ?thesis .
  qed
qed

lemma reap_calls:
  assumes "CheckAndDeleteCompletedPod cl rnd name namespace calls = (r, calls')"
  shows "creates_only {} calls calls'"
proof -
  have "creates_only {} calls us" if "loop_inv (reap_call cl namespace name) (GetPod namespace name) calls n us" for n us
    by (rule loop_inv_creates [OF that]) (simp add: reap_call_def)
  from assms this show ?thesis by (cases rule: reap_cases) (auto simp: reap_stop_def)
qed

lemma wait_stop:
  "WaitForKataRuntime cl rnd nodeName calls = (None, calls') \<Longrightarrow>
     \<exists>us labels. calls' = us @ [GetNode nodeName] \<and> get_node cl us nodeName = Inr labels \<and> kata_ready labels"
  using kata_cases [of cl rnd nodeName calls None calls'] by (auto simp: kata_stop_def)

lemma reap_stopped:
  "CheckAndDeleteCompletedPod cl rnd name namespace calls = (None, calls') \<Longrightarrow>
     \<exists>us. calls' = us @ [DeletePod namespace name] \<and> delete_pod cl us namespace name = None"
  by (erule reap_cases) (auto simp: reap_stop_def)

text \<open>A label of the node that is set to "true" in any case.\<close>

definition label_true :: "(string, string) fmap \<Rightarrow> string \<Rightarrow> bool" where
  "label_true labels k \<longleftrightarrow> (case fmlookup labels k of None \<Rightarrow> False | Some v \<Rightarrow> EqualFold v ''true'')"

definition the_default :: "'a \<Rightarrow> 'a option \<Rightarrow> 'a" where
  "the_default x y = (case y of None \<Rightarrow> x | Some z \<Rightarrow> z)"

text \<open>The node was read, in the calls \<open>us\<close>, with the label of the Kata runtime.\<close>

definition kata_seen :: "cluster \<Rightarrow> string \<Rightarrow> api_call list \<Rightarrow> bool" where
  "kata_seen cl nodeName us \<longleftrightarrow> (\<exists>vs ws labels. us = vs @ GetNode nodeName # ws \<and>
     get_node cl vs nodeName = Inr labels \<and> kata_ready labels)"

lemma kata_seen_append: "kata_seen cl nodeName us \<Longrightarrow> kata_seen cl nodeName (us @ vs)"
  unfolding kata_seen_def by fastforce

lemma created_after:
  assumes "creates_only {} [] c3" and "creates_only {(namespace, p)} c3 calls"
    and "calls = xs @ CreatePod ns q # ys"
  shows "(\<exists>us. xs = c3 @ us) \<and> ns = namespace \<and> q = p"
proof -
  obtain es where es: "calls = c3 @ es" "\<forall>ns q. CreatePod ns q \<in> set es \<longrightarrow> ns = namespace \<and> q = p"
    using assms(2) by (auto simp: creates_only_def)
  have n: "CreatePod ns q \<notin> set c3" using assms(1) by (auto simp: creates_only_def)
  from assms(3) es(1) have "c3 @ es = xs @ CreatePod ns q # ys" by simp
  then obtain us where "c3 = xs @ us \<and> us @ es = CreatePod ns q # ys \<or> c3 @ us = xs \<and> es = us @ CreatePod ns q # ys"
    by (auto simp: append_eq_append_conv2)
  with n es(2) show ?thesis by (cases us) auto
qed

text \<open>A run stops before it changes anything, or launches the pod of its node.\<close>

lemma runGFD_cases:
  assumes "runGFD getenv client cl rnd g names ks = (e, calls)"
  obtains (Early) "reads_only [] calls" "e \<noteq> Cleaned_up"
  | (Launched) c3 c4 c5 p l r where "reads_only [] c3" "kata_seen cl (getenv ''NODE_NAME'') c3"
      "p_NodeName p = getenv ''NODE_NAME''" "p_Name p = ''gfd-'' @ getenv ''NODE_NAME''"
      "LaunchPodWithRetries cl (rnd 1) p (getenv ''POD_NAMESPACE'') c3 = (l, c4)"
      "CheckAndDeleteCompletedPod cl (rnd 2) (p_Name p) (getenv ''POD_NAMESPACE'') c4 = (r, c5)"
      "(e, calls) = (case l of Some err \<Rightarrow> (Launch_error err, c4)
          | None \<Rightarrow> (case r of Some err \<Rightarrow> (Reap_error err, c5) | None \<Rightarrow> (Cleaned_up, c5)))"
proof -
  let ?node = "getenv ''NODE_NAME''" and ?ns = "getenv ''POD_NAMESPACE''" and ?sa = "getenv ''POD_SERVICE_ACCOUNT''"
  show thesis
  proof (cases "?node = [] \<or> ?ns = [] \<or> ?sa = [] \<or> client \<noteq> None")
    case True
    then have "calls = []" "e \<noteq> Cleaned_up" using assms by (auto simp: runGFD_def Let_def split: if_splits)
    then show thesis by (intro Early) (simp_all add: reads_only_def)
  next
    case False
    obtain img c1 where i: "getGFDImageName getenv cl ?ns [] = (img, c1)" by fastforce
    obtain w c2 where w: "WaitForKataRuntime cl (rnd 0) ?node c1 = (w, c2)" by fastforce
    note q1 = image_reads [OF i] and q2 = reads_only_trans [OF image_reads [OF i] wait_reads [OF w]]
    show thesis
    proof (cases "img = None \<or> w \<noteq> None")
      case True
      then have "calls = c1 \<or> calls = c2" "e \<noteq> Cleaned_up"
        using assms False i w by (auto simp: runGFD_def Let_def split: option.splits)
      with Early q1 q2 show thesis by auto
    next
      case started: False
      then obtain im where im: "img = Some im" "w = None" by auto
      obtain p c3 where p: "createGFDPod cl (getGPUDeviceName g names ks) ?node ?ns im ?sa c2 = (p, c3)" by fastforce
      obtain l c4 where l: "LaunchPodWithRetries cl (rnd 1) p ?ns c3 = (l, c4)" by fastforce
      obtain r c5 where r: "CheckAndDeleteCompletedPod cl (rnd 2) (p_Name p) ?ns c4 = (r, c5)" by fastforce
      have run: "(e, calls) = (case l of Some err \<Rightarrow> (Launch_error err, c4)
          | None \<Rightarrow> (case r of Some err \<Rightarrow> (Reap_error err, c5) | None \<Rightarrow> (Cleaned_up, c5)))"
        using assms False i w im p l r by (cases l; cases r) (auto simp: runGFD_def Let_def)
      have pn: "p_NodeName p = ?node" "p_Name p = ''gfd-'' @ ?node"
        using p by (auto simp: createGFDPod_def Let_def split: prod.splits)
      have "kata_seen cl ?node c2" using wait_stop [OF w [unfolded im]] by (auto simp: kata_seen_def)
      then have "kata_seen cl ?node c3" using pod_reads [OF p] kata_seen_append by (auto simp: reads_only_def)
      with Launched reads_only_trans [OF q2 pod_reads [OF p]] pn l r run show thesis by blast
    qed
  qed
qed

text \<open>The call \<open>c\<close>, made after the calls \<open>us\<close>, if it deletes, deletes what it should: the pod \<open>name\<close> when
  it was just read as completed, or before any creation the one just found by that name.\<close>

definition right_delete :: "cluster \<Rightarrow> string \<Rightarrow> string \<Rightarrow> api_call list \<Rightarrow> api_call \<Rightarrow> bool" where
  "right_delete cl namespace name us c \<longleftrightarrow> (\<forall>ns n. c = DeletePod ns n \<longrightarrow> ns = namespace \<and>
     (\<exists>ws q. us = ws @ [GetPod namespace name] \<and> get_pod cl ws namespace name = Inr q \<and>
        (if list_ex is_create us then n = name \<and> st_Phase q = ''Succeeded'' else n = st_Name q)))"

lemma every_all: "(\<And>us c. c \<in> set es \<Longrightarrow> Q us c) \<Longrightarrow> every Q c0 (c0 @ es)"
  by (auto simp: every_def nth_append)

lemma reads_delete: "reads_only c0 calls \<Longrightarrow> every (right_delete cl ns name) c0 calls"
  by (fastforce simp: reads_only_def list_all_iff right_delete_def intro!: every_all)

lemma launch_deletes:
  assumes "LaunchPodWithRetries cl rnd p namespace calls = (r, calls')" and "\<not> list_ex is_create calls"
  shows "every (right_delete cl namespace (p_Name p)) calls calls'" and "r = None \<Longrightarrow> list_ex is_create calls'"
proof -
  let ?Q = "right_delete cl namespace (p_Name p)"
  have pre: "every ?Q calls c0" if "launch_start cl namespace p calls c0" for c0
    using that assms(2) every_snoc [of ?Q calls "[GetPod namespace (p_Name p)]"] every_snoc0 [of ?Q calls]
    by (auto simp: launch_start_def right_delete_def)
  have loop: "every ?Q calls us"
    if "launch_start cl namespace p calls c0" "loop_inv (rejected_call cl namespace p) (CreatePod namespace p) c0 n us" for c0 n us
  proof -
    have "every ?Q c0 us" by (rule loop_inv_every [OF that(2)]) (auto simp: rejected_call_def right_delete_def)
    with every_trans [OF pre [OF that(1)]] loop_inv_prefix [OF that(2)] show ?thesis by auto
  qed
  from assms(1) have "every ?Q calls calls' \<and> (r = None \<longrightarrow> list_ex is_create calls')"
  proof (cases rule: launch_cases)
    case (Undeleted err)
    with pre show ?thesis by simp
  next
    case (Created c0 n)
    then obtain us where us: "calls' = us @ [CreatePod namespace p]"
      "loop_inv (rejected_call cl namespace p) (CreatePod namespace p) c0 n us" by (auto simp: launch_stop_def)
    obtain es where es: "us = calls @ es"
      using loop_inv_prefix [OF us(2)] Created(1) by (auto simp: launch_start_def)
    have "every ?Q calls (calls @ es @ [CreatePod namespace p])"
      unfolding every_snoc using loop [OF Created(1) us(2)] es by (simp add: right_delete_def)
    with us(1) es show ?thesis by simp
  next
    case (Timeout c0)
    with loop show ?thesis by simp
  qed
  then show "every ?Q calls calls'" and "r = None \<Longrightarrow> list_ex is_create calls'" by blast+
qed

lemma reap_deletes:
  assumes "CheckAndDeleteCompletedPod cl rnd name namespace calls = (r, calls')" and "list_ex is_create calls"
  shows "every (right_delete cl namespace name) calls calls'"
proof -
  have "every (right_delete cl namespace name) calls us"
    if l: "loop_inv (reap_call cl namespace name) (GetPod namespace name) calls n us" for n us
  proof -
    obtain es where es: "us = calls @ es" "every (\<lambda>us c. (\<exists>d. c = Wait d) \<or> reap_call cl namespace name us c) calls (calls @ es)"
      using l by (auto simp: loop_inv_def)
    show ?thesis unfolding es(1)
      by (rule every_mono [OF es(2)]) (use assms(2) in \<open>auto simp: right_delete_def reap_call_def\<close>)
  qed
  with assms(1) show ?thesis by (cases rule: reap_cases) (auto simp: reap_stop_def)
qed

section \<open>A sample cluster\<close>

definition sample_labels :: "(string, string) fmap" where
  "sample_labels = fmupd ''katacontainers.io/kata-runtime'' ''true'' (fmupd ''nvidia.com/cc.ready.state'' ''true''
     (fmupd ''amd.feature.node.kubernetes.io/snp'' ''True'' fmempty))"

definition sample_cluster :: cluster where
  "sample_cluster = \<lparr>get_pod = (\<lambda>calls namespace name. if list_ex is_create calls
       then Inr \<lparr>st_Name = name, st_Phase = ''Succeeded'', st_Images = [''gfd:1'']\<rparr> else Inl (ErrOS ''not found'')),
     delete_pod = (\<lambda>_ _ _. None), create_pod = (\<lambda>_ _ _. None), get_node = (\<lambda>_ _. Inr sample_labels)\<rparr>"

lemma retry_first:
  "0 < Steps b \<Longrightarrow> cond s = ((True, None), s1) \<Longrightarrow> ExponentialBackoff cond sleep rnd b s = (None, s1)"
  by (simp add: ExponentialBackoff.simps [of cond sleep rnd b s])

lemma sample_wait: "WaitForKataRuntime sample_cluster rnd nodeName calls = (None, calls @ [GetNode nodeName])"
  unfolding WaitForKataRuntime_def
  by (rule retry_first) (simp_all add: kata_backoff_def kata_cond_def sample_cluster_def kata_ready_def sample_labels_def)

lemma sample_launch:
  assumes "\<not> list_ex is_create calls"
  shows "LaunchPodWithRetries sample_cluster rnd p namespace calls =
    (None, calls @ [GetPod namespace (p_Name p), CreatePod namespace p])"
proof -
  have "ExponentialBackoff (launch_cond sample_cluster namespace p) wait_call rnd launch_backoff
      (calls @ [GetPod namespace (p_Name p)]) = (None, calls @ [GetPod namespace (p_Name p), CreatePod namespace p])"
    by (rule retry_first) (simp_all add: launch_backoff_def launch_cond_def sample_cluster_def)
  with assms show ?thesis by (simp add: LaunchPodWithRetries_def Let_def sample_cluster_def)
qed

lemma sample_reap:
  assumes "list_ex is_create calls"
  shows "CheckAndDeleteCompletedPod sample_cluster rnd name namespace calls =
    (None, calls @ [GetPod namespace name, DeletePod namespace name])"
proof -
  have "ExponentialBackoff (cleanup_cond sample_cluster name namespace) wait_call rnd cleanup_backoff calls =
      (None, calls @ [GetPod namespace name, DeletePod namespace name])"
    by (rule retry_first) (use assms in \<open>simp_all add: cleanup_backoff_def cleanup_cond_def sample_cluster_def Let_def\<close>)
  then show ?thesis by (simp add: CheckAndDeleteCompletedPod_def ExponentialBackoffWithContext_def)
qed

definition sample_pod :: pod where
  "sample_pod = fst (createGFDPod sample_cluster ''pgpu'' ''node'' ''default'' ''gfd:1'' ''sa'' [])"

section \<open>Properties\<close>

text \<open>A condition that is never satisfied and counts how often it is tried.\<close>

definition never :: "nat \<Rightarrow> (bool \<times> go_error option) \<times> nat" where
  "never n = ((False, None), Suc n)"

interpretation never: retry_loop "timed_cond never" "timed_sleep (\<lambda>d n. n)" "\<lambda>k s. fst s = k" "\<lambda>k r s. False"
  by unfold_locales (auto simp: timed_cond_def timed_sleep_def never_def)

text \<open>C33. A condition that is never satisfied is tried nine times, not fifty or thirty times, by
  the loops of the program, because reaching the maximal delay ends the retries; whatever the
  random numbers, they wait less than 83 seconds in all (165 for the deletion of the pod).\<close>

theorem retry_budget:
  assumes "b \<in> {kata_backoff, launch_backoff, cleanup_backoff}" and "\<And>i. 0 \<le> rnd i \<and> rnd i \<le> 1"
    and "ExponentialBackoff (timed_cond never) (timed_sleep (\<lambda>d n. n)) rnd b (0, 0) = (r, n, t)"
  shows "r = Some ErrWaitTimeout \<and> n = 9 \<and> t < 165 * second \<and> (b \<noteq> cleanup_backoff \<longrightarrow> t < 83 * second)"
proof -
  have a: "attempts b = 9" using assms(1) backoff_attempts by auto
  have p: "0 \<le> Duration b" "0 \<le> Factor b" "0 < JitterFactor b"
    using assms(1) by (auto simp: kata_backoff_def launch_backoff_def cleanup_backoff_def second_def)
  have "rat_of_int t \<le> wait_bound b" using waits_bounded [OF assms(2) p assms(3)] by simp
  moreover have "wait_bound b < of_int (165 * second)" "b \<noteq> cleanup_backoff \<Longrightarrow> wait_bound b < of_int (83 * second)"
    using assms(1) backoff_waits by (auto simp: second_def)
  ultimately have "rat_of_int t < of_int (165 * second)" "b \<noteq> cleanup_backoff \<Longrightarrow> rat_of_int t < of_int (83 * second)"
    by (blast intro: le_less_trans)+
  then show ?thesis using never.outcome0 [OF _ assms(3)] a by (auto simp: second_def)
qed

theorem retry_budget_witness:
  "fst (ExponentialBackoff (timed_cond never) (timed_sleep (\<lambda>d n. n)) (\<lambda>_. 0) kata_backoff (0, 0)) = Some ErrWaitTimeout"
proof -
  obtain r n t where e: "ExponentialBackoff (timed_cond never) (timed_sleep (\<lambda>d n. n)) (\<lambda>_. 0) kata_backoff (0, 0) = (r, n, t)"
    by (metis prod_cases3)
  with retry_budget [OF _ _ e] show ?thesis by simp
qed

text \<open>Waiting for the Kata runtime ends without error only right after the node was read with
  the label set to "true"; otherwise it ends in the time-out after the node was read nine
  times, none of them with the label.\<close>

theorem kata_wait_outcome:
  assumes "WaitForKataRuntime cl rnd nodeName calls = (r, calls')"
  shows "(r = None \<longrightarrow> (\<exists>us labels. calls' = us @ [GetNode nodeName] \<and> get_node cl us nodeName = Inr labels \<and> kata_ready labels)) \<and>
    (r \<noteq> None \<longrightarrow> r = Some ErrWaitTimeout \<and> count_list (drop (length calls) calls') (GetNode nodeName) = 9) \<and>
    every (\<lambda>us c. c = GetNode nodeName \<or> (\<exists>d. c = Wait d)) calls calls'"
proof -
  have ev: "every (\<lambda>us c. c = GetNode nodeName \<or> (\<exists>d. c = Wait d)) calls us" if "kata_inv nodeName calls n us" for n us
    by (rule loop_inv_every [OF that]) (auto simp: node_call_def)
  from kata_cases [OF assms] show ?thesis
  proof (elim disjE exE conjE)
    fix n assume "kata_stop cl nodeName calls n r calls'"
    then obtain us labels where s: "r = None" "calls' = us @ [GetNode nodeName]" "kata_inv nodeName calls n us"
      "get_node cl us nodeName = Inr labels" "kata_ready labels" by (auto simp: kata_stop_def)
    have "kata_inv nodeName calls (Suc n) calls'"
      using loop_inv_snoc [OF s(3), of "GetNode nodeName"] s(2) by (simp add: node_call_def)
    with s ev show ?thesis by blast
  next
    assume "r = Some ErrWaitTimeout" and "kata_inv nodeName calls 9 calls'"
    with ev loop_inv_count show ?thesis by blast
  qed
qed

theorem kata_wait_outcome_witness:
  "\<exists>us labels. [GetNode ''node''] = us @ [GetNode ''node''] \<and> get_node sample_cluster us ''node'' = Inr labels \<and> kata_ready labels"
  using kata_wait_outcome [OF sample_wait [of "\<lambda>_. 0" "''node''" "[]"]] by simp

text \<open>Launching creates the pod at most once: without an error the last call is the one accepted
  creation, all creations before it were rejected; with an error, no creation was accepted.\<close>

theorem launch_creates_once:
  assumes "LaunchPodWithRetries cl rnd p namespace calls = (r, calls')"
  shows "(r = None \<longrightarrow> (\<exists>us. calls' = us @ [CreatePod namespace p] \<and> create_pod cl us namespace p = None \<and>
      every (\<lambda>us c. c = CreatePod namespace p \<longrightarrow> create_pod cl us namespace p \<noteq> None) calls us)) \<and>
    (r \<noteq> None \<longrightarrow> every (\<lambda>us c. c = CreatePod namespace p \<longrightarrow> create_pod cl us namespace p \<noteq> None) calls calls')"
proof -
  let ?Q = "\<lambda>us c. c = CreatePod namespace p \<longrightarrow> create_pod cl us namespace p \<noteq> None"
  have pre: "every ?Q calls c0"
    if "launch_start cl namespace p calls c0" for c0
    using that every_snoc [of ?Q calls "[GetPod namespace (p_Name p)]"] every_snoc0 [of ?Q calls] by (auto simp: launch_start_def)
  have ev: "every ?Q calls us" if "every ?Q calls c0" "loop_inv (rejected_call cl namespace p) (CreatePod namespace p) c0 n us" for c0 n us
  proof -
    have "every ?Q c0 us" by (rule loop_inv_every [OF that(2)]) (auto simp: rejected_call_def)
    with every_trans [OF that(1)] loop_inv_prefix [OF that(2)] show ?thesis by auto
  qed
  from assms show ?thesis
  proof (cases rule: launch_cases)
    case (Undeleted err)
    with pre [of calls'] show ?thesis by simp
  next
    case (Created c0 n)
    then obtain us where "r = None" "calls' = us @ [CreatePod namespace p]" "create_pod cl us namespace p = None"
      "loop_inv (rejected_call cl namespace p) (CreatePod namespace p) c0 n us" by (auto simp: launch_stop_def)
    with ev [OF pre [OF Created(1)]] show ?thesis by simp
  next
    case (Timeout c0)
    with ev [OF pre [OF Timeout(1)] Timeout(3)] show ?thesis by simp
  qed
qed

theorem launch_creates_once_witness:
  "\<exists>us. [GetPod ''default'' (p_Name sample_pod), CreatePod ''default'' sample_pod] = us @ [CreatePod ''default'' sample_pod] \<and>
     create_pod sample_cluster us ''default'' sample_pod = None"
  using launch_creates_once [OF sample_launch [of "[]" "\<lambda>_. 0" sample_pod "''default''"]] by auto

text \<open>C32. The clean-up after a launch, \<^verbatim>\<open>CheckAndDeleteCompletedPod\<close>, deletes the pod only when it has
  completed: right before each of its deletions it read the pod in the phase Succeeded. Without an
  error its last call is an accepted deletion, and it reads the pod at most nine times. (What is
  deleted before a launch is the subject of \<open>gfd_run_deletes\<close>.)\<close>

theorem pod_cleanup_safe:
  assumes "CheckAndDeleteCompletedPod cl rnd name namespace calls = (r, calls')"
  shows "every (\<lambda>us c. c = DeletePod namespace name \<longrightarrow> (\<exists>ws q. us = ws @ [GetPod namespace name] \<and>
      get_pod cl ws namespace name = Inr q \<and> st_Phase q = ''Succeeded'')) calls calls' \<and>
    (r = None \<longrightarrow> (\<exists>us. calls' = us @ [DeletePod namespace name] \<and> delete_pod cl us namespace name = None)) \<and>
    count_list (drop (length calls) calls') (GetPod namespace name) \<le> 9"
proof -
  let ?Q = "\<lambda>us c. c = DeletePod namespace name \<longrightarrow> (\<exists>ws q. us = ws @ [GetPod namespace name] \<and>
      get_pod cl ws namespace name = Inr q \<and> st_Phase q = ''Succeeded'')"
  have ev: "every ?Q calls calls' \<and> count_list (drop (length calls) calls') (GetPod namespace name) = n"
    if "loop_inv (reap_call cl namespace name) (GetPod namespace name) calls n calls'" for n
    using loop_inv_every [OF that, of ?Q] loop_inv_count [OF that] by (auto simp: reap_call_def)
  from assms show ?thesis
  proof (cases rule: reap_cases)
    case (1 n r0)
    with ev [of "Suc n"] show ?thesis by (auto simp: reap_stop_def)
  next
    case 2
    with ev [of 9] show ?thesis by auto
  qed
qed

theorem pod_cleanup_safe_witness:
  "fst (CheckAndDeleteCompletedPod sample_cluster (\<lambda>_. 0) ''gfd-node'' ''default'' [CreatePod ''default'' sample_pod]) = None \<and>
   count_list [GetPod ''default'' ''gfd-node'', DeletePod ''default'' ''gfd-node''] (GetPod ''default'' ''gfd-node'') \<le> 9"
proof -
  have r: "CheckAndDeleteCompletedPod sample_cluster (\<lambda>_. 0) ''gfd-node'' ''default'' [CreatePod ''default'' sample_pod] =
      (None, [CreatePod ''default'' sample_pod] @ [GetPod ''default'' ''gfd-node'', DeletePod ''default'' ''gfd-node''])"
    by (rule sample_reap) simp
  from pod_cleanup_safe [OF r] r show ?thesis by simp
qed

text \<open>C25. A run creates no pod but the discovery pod of its node, in the program's namespace, and
  it does so only after the node was read with the label of the Kata runtime. A run that ends
  well ends with the accepted deletion of that pod.\<close>

theorem gfd_run_order:
  assumes "runGFD getenv client cl rnd g names ks = (e, calls)"
  shows "(\<forall>xs namespace p ys. calls = xs @ CreatePod namespace p # ys \<longrightarrow>
      kata_seen cl (getenv ''NODE_NAME'') xs \<and> namespace = getenv ''POD_NAMESPACE'' \<and>
      p_NodeName p = getenv ''NODE_NAME'' \<and> p_Name p = ''gfd-'' @ getenv ''NODE_NAME'') \<and>
    (e = Cleaned_up \<longrightarrow> (\<exists>us. calls = us @ [DeletePod (getenv ''POD_NAMESPACE'') (''gfd-'' @ getenv ''NODE_NAME'')] \<and>
      delete_pod cl us (getenv ''POD_NAMESPACE'') (''gfd-'' @ getenv ''NODE_NAME'') = None))"
  (is "?A \<and> ?B")
proof -
  let ?ns = "getenv ''POD_NAMESPACE''" and ?node = "getenv ''NODE_NAME''"
  from assms show ?thesis
  proof (cases rule: runGFD_cases)
    case Early
    then have "?A" using reads_creates unfolding creates_only_def by (metis append_Nil empty_iff in_set_conv_decomp)
    with Early show ?thesis by simp
  next
    case (Launched c3 c4 c5 p l r)
    have "creates_only {(?ns, p)} c3 calls"
      using Launched(7) launch_calls [OF Launched(5)]
        creates_only_trans [OF launch_calls [OF Launched(5)] creates_only_mono [OF reap_calls [OF Launched(6)] empty_subsetI]]
      by (auto split: option.splits)
    then have ?A using created_after [OF reads_creates [OF Launched(1)]] kata_seen_append [OF Launched(2)] Launched(3,4) by blast
    moreover have ?B
    proof
      assume "e = Cleaned_up"
      then have "l = None" "r = None" "calls = c5" using Launched(7) by (auto split: option.splits)
      from reap_stopped [OF Launched(6) [unfolded \<open>r = None\<close>]] show "\<exists>us. calls = us @ [DeletePod ?ns (''gfd-'' @ ?node)] \<and>
          delete_pod cl us ?ns (''gfd-'' @ ?node) = None" using Launched(4) \<open>calls = c5\<close> by simp
    qed
    ultimately show ?thesis by blast
  qed
qed

theorem gfd_run_order_witness:
  "\<exists>us. snd (runGFD (\<lambda>_. ''x'') None sample_cluster (\<lambda>_ _. 0) init_globals (\<lambda>_. []) []) = us @ [DeletePod ''x'' ''gfd-x'']"
proof -
  obtain p c3 where p: "createGFDPod sample_cluster (getGPUDeviceName init_globals (\<lambda>_. []) []) ''x'' ''x'' ''x'' ''x'' [GetNode ''x''] = (p, c3)"
    by fastforce
  have "\<not> list_ex is_create c3"
    using reads_no_create pod_reads [OF p] by (auto simp: reads_only_def)
  then have l: "LaunchPodWithRetries sample_cluster (\<lambda>_. 0) p ''x'' c3 = (None, c3 @ [GetPod ''x'' (p_Name p), CreatePod ''x'' p])"
    by (rule sample_launch)
  have r: "CheckAndDeleteCompletedPod sample_cluster (\<lambda>_. 0) (p_Name p) ''x'' (c3 @ [GetPod ''x'' (p_Name p), CreatePod ''x'' p]) =
      (None, (c3 @ [GetPod ''x'' (p_Name p), CreatePod ''x'' p]) @ [GetPod ''x'' (p_Name p), DeletePod ''x'' (p_Name p)])"
    by (rule sample_reap) simp
  have w: "WaitForKataRuntime sample_cluster (\<lambda>_. 0) ''x'' [] = (None, [GetNode ''x''])" by (simp add: sample_wait)
  obtain calls where "runGFD (\<lambda>_. ''x'') None sample_cluster (\<lambda>_ _. 0) init_globals (\<lambda>_. []) [] = (Cleaned_up, calls)"
    using p l r w by (simp add: runGFD_def Let_def getGFDImageName_def)
  from gfd_run_order [OF this] this show ?thesis by (simp; blast)
qed

text \<open>C11. What a run of feature discovery deletes. Every deletion of a run comes right after a read of
  the pod of its node, in the program's namespace. Once the run has asked for the creation of that
  pod, it deletes it only where that read said that it has completed; before, it deletes the pod it
  found, an earlier run's, whatever its phase, and nothing else. So no run deletes the pod it
  launched while that pod is still running.\<close>

theorem gfd_run_deletes:
  assumes "runGFD getenv client cl rnd g names ks = (e, calls)" and "calls = xs @ DeletePod ns n # ys"
  shows "ns = getenv ''POD_NAMESPACE'' \<and> (\<exists>ws q. xs = ws @ [GetPod ns (''gfd-'' @ getenv ''NODE_NAME'')] \<and>
    get_pod cl ws ns (''gfd-'' @ getenv ''NODE_NAME'') = Inr q \<and>
    (if list_ex is_create xs then n = ''gfd-'' @ getenv ''NODE_NAME'' \<and> st_Phase q = ''Succeeded'' else n = st_Name q))"
proof -
  have ev: "every (right_delete cl (getenv ''POD_NAMESPACE'') (''gfd-'' @ getenv ''NODE_NAME'')) [] calls"
    using assms(1)
  proof (cases rule: runGFD_cases)
    case Early
    then show ?thesis using reads_delete by auto
  next
    case (Launched c3 c4 c5 p l r)
    note 4 = launch_deletes [OF Launched(5) reads_no_create [OF Launched(1)], unfolded Launched(4)]
    have 3: "every (right_delete cl (getenv ''POD_NAMESPACE'') (''gfd-'' @ getenv ''NODE_NAME'')) [] c3"
      using Launched(1) reads_delete by blast
    obtain es where "c4 = c3 @ es" using launch_calls [OF Launched(5)] by (auto simp: creates_only_def)
    with every_trans [OF 3] 4(1) have e4: "every (right_delete cl (getenv ''POD_NAMESPACE'') (''gfd-'' @ getenv ''NODE_NAME'')) [] c4" by simp
    show ?thesis
    proof (cases l)
      case (Some err)
      with Launched(7) e4 show ?thesis by simp
    next
      case None
      note 5 = reap_deletes [OF Launched(6) 4(2) [OF None], unfolded Launched(4)]
      obtain es where "c5 = c4 @ es" using reap_calls [OF Launched(6)] by (auto simp: creates_only_def)
      with every_trans [OF e4] 5 have "every (right_delete cl (getenv ''POD_NAMESPACE'') (''gfd-'' @ getenv ''NODE_NAME'')) [] c5" by simp
      with None Launched(7) show ?thesis by (auto split: option.splits)
    qed
  qed
  have "right_delete cl (getenv ''POD_NAMESPACE'') (''gfd-'' @ getenv ''NODE_NAME'') xs (DeletePod ns n)"
    using ev assms(2) by (auto simp: every_def dest: spec [of _ "length xs"])
  then show ?thesis unfolding right_delete_def by blast
qed

text \<open>A cluster where a pod of an earlier run is still there, and running.\<close>

definition busy_cluster :: cluster where
  "busy_cluster = sample_cluster\<lparr>get_pod := (\<lambda>calls namespace name.
     Inr \<lparr>st_Name = name, st_Phase = (if list_ex is_create calls then ''Succeeded'' else ''Running''), st_Images = []\<rparr>)\<rparr>"

lemma busy_run:
  "\<exists>p. snd (runGFD (\<lambda>_. ''x'') None busy_cluster (\<lambda>_ _. 0) init_globals (\<lambda>_. []) []) =
     [GetNode ''x'', GetNode ''x'', GetNode ''x'', GetPod ''x'' ''gfd-x'', DeletePod ''x'' ''gfd-x'', CreatePod ''x'' p,
      GetPod ''x'' ''gfd-x'', DeletePod ''x'' ''gfd-x'']"
proof -
  have w: "WaitForKataRuntime busy_cluster (\<lambda>_. 0) ''x'' [] = (None, [] @ [GetNode ''x''])"
    unfolding WaitForKataRuntime_def
    by (rule retry_first) (simp_all add: kata_backoff_def kata_cond_def busy_cluster_def sample_cluster_def kata_ready_def sample_labels_def)
  have e: "EqualFold ''true'' ''true''" "EqualFold ''True'' ''true''" by code_simp+
  obtain p where p: "createGFDPod busy_cluster (getGPUDeviceName init_globals (\<lambda>_. []) []) ''x'' ''x'' ''x'' ''x'' [GetNode ''x''] =
      (p, [GetNode ''x'', GetNode ''x'', GetNode ''x''])" "p_Name p = ''gfd-x''"
    by (simp add: createGFDPod_def runtime_class_def getNodeLabel_def busy_cluster_def sample_cluster_def sample_labels_def e Let_def)
  let ?c3 = "[GetNode ''x'', GetNode ''x'', GetNode ''x'', GetPod ''x'' ''gfd-x'', DeletePod ''x'' ''gfd-x'']"
  have "ExponentialBackoff (launch_cond busy_cluster ''x'' p) wait_call (\<lambda>_. 0) launch_backoff ?c3 = (None, ?c3 @ [CreatePod ''x'' p])"
    by (rule retry_first) (simp_all add: launch_backoff_def launch_cond_def busy_cluster_def sample_cluster_def)
  then have l: "LaunchPodWithRetries busy_cluster (\<lambda>_. 0) p ''x'' [GetNode ''x'', GetNode ''x'', GetNode ''x''] = (None, ?c3 @ [CreatePod ''x'' p])"
    using p(2) by (simp add: LaunchPodWithRetries_def busy_cluster_def sample_cluster_def Let_def)
  let ?c4 = "?c3 @ [CreatePod ''x'' p]"
  have "ExponentialBackoff (cleanup_cond busy_cluster ''gfd-x'' ''x'') wait_call (\<lambda>_. 0) cleanup_backoff ?c4 =
      (None, ?c4 @ [GetPod ''x'' ''gfd-x'', DeletePod ''x'' ''gfd-x''])"
    by (rule retry_first) (simp_all add: cleanup_backoff_def cleanup_cond_def busy_cluster_def sample_cluster_def Let_def)
  then have "CheckAndDeleteCompletedPod busy_cluster (\<lambda>_. 0) (p_Name p) ''x'' ?c4 = (None, ?c4 @ [GetPod ''x'' ''gfd-x'', DeletePod ''x'' ''gfd-x''])"
    using p(2) by (simp add: CheckAndDeleteCompletedPod_def ExponentialBackoffWithContext_def)
  with w p(1) l show ?thesis by (intro exI [of _ p]) (simp add: runGFD_def Let_def getGFDImageName_def)
qed

theorem gfd_run_deletes_witness:
  "\<exists>xs ys ws q. snd (runGFD (\<lambda>_. ''x'') None busy_cluster (\<lambda>_ _. 0) init_globals (\<lambda>_. []) []) = xs @ DeletePod ''x'' ''gfd-x'' # ys \<and>
     list_ex is_create xs \<and> xs = ws @ [GetPod ''x'' ''gfd-x''] \<and> get_pod busy_cluster ws ''x'' ''gfd-x'' = Inr q \<and> st_Phase q = ''Succeeded''"
proof -
  obtain p where p: "snd (runGFD (\<lambda>_. ''x'') None busy_cluster (\<lambda>_ _. 0) init_globals (\<lambda>_. []) []) =
      [GetNode ''x'', GetNode ''x'', GetNode ''x'', GetPod ''x'' ''gfd-x'', DeletePod ''x'' ''gfd-x'', CreatePod ''x'' p,
       GetPod ''x'' ''gfd-x''] @ DeletePod ''x'' ''gfd-x'' # []" (is "_ = ?xs @ _ # _") using busy_run by auto
  obtain e where "runGFD (\<lambda>_. ''x'') None busy_cluster (\<lambda>_ _. 0) init_globals (\<lambda>_. []) [] = (e, ?xs @ DeletePod ''x'' ''gfd-x'' # [])"
    using p by (metis prod.collapse)
  from gfd_run_deletes [OF this refl] have "\<exists>ws q. ?xs = ws @ [GetPod ''x'' ''gfd-x''] \<and> get_pod busy_cluster ws ''x'' ''gfd-x'' = Inr q \<and>
      (if list_ex is_create ?xs then ''gfd-x'' = ''gfd-x'' \<and> st_Phase q = ''Succeeded'' else ''gfd-x'' = st_Name q)" by simp
  moreover have "list_ex is_create ?xs" by simp
  ultimately show ?thesis using p by (metis (no_types, lifting))
qed

text \<open>The runtime class of the pod: where the API always gives the node's labels, it is the SNP
  class exactly when confidential computing and SNP are on, the TDX class when confidential
  computing and TDX but not SNP are on, and the plain GPU class otherwise.\<close>

theorem runtime_class_choice:
  assumes "\<And>c. get_node cl c nodeName = Inr labels"
    and "createGFDPod cl d nodeName namespace img saName calls = (p, calls')"
    and "cc \<longleftrightarrow> label_true labels ''nvidia.com/cc.ready.state''"
    and "snp \<longleftrightarrow> label_true labels ''amd.feature.node.kubernetes.io/snp''"
    and "tdx \<longleftrightarrow> label_true labels ''intel.feature.node.kubernetes.io/tdx''"
  shows "p_RuntimeClassName p = (if cc \<and> snp then ''kata-qemu-nvidia-gpu-snp''
      else if cc \<and> tdx then ''kata-qemu-nvidia-gpu-tdx'' else ''kata-qemu-nvidia-gpu'') \<and>
    map c_Requests (p_Containers p) = [[(''nvidia.com/'' @ d, 1)]]"
proof -
  have l: "getNodeLabel cl nodeName k c = ((fmlookup labels k \<noteq> None, the_default [] (fmlookup labels k)), c @ [GetNode nodeName])" for k c
    by (simp add: getNodeLabel_def assms(1) the_default_def split: option.splits)
  have t: "label_true labels k \<longleftrightarrow> fmlookup labels k \<noteq> None \<and> EqualFold (the_default [] (fmlookup labels k)) ''true''" for k
    by (simp add: label_true_def the_default_def split: option.splits)
  have c: "fst (runtime_class cl nodeName calls) = (if cc then if snp then ''kata-qemu-nvidia-gpu-snp''
      else if tdx then ''kata-qemu-nvidia-gpu-tdx'' else ''kata-qemu-nvidia-gpu'' else ''kata-qemu-nvidia-gpu'')"
    unfolding runtime_class_def l prod.case t [symmetric] assms(3-5) [symmetric]
    by (cases cc; cases snp; cases tdx) (simp_all only: if_True if_False prod.case fst_conv)
  obtain rc c1 where rc: "runtime_class cl nodeName calls = (rc, c1)" by fastforce
  then have "p_RuntimeClassName p = rc" and r: "map c_Requests (p_Containers p) = [[(DeviceNamespace @ ''/'' @ d, 1)]]"
    using assms(2) by (auto simp: createGFDPod_def gfd_container_def Let_def)
  then have "p_RuntimeClassName p = (if cc then if snp then ''kata-qemu-nvidia-gpu-snp''
      else if tdx then ''kata-qemu-nvidia-gpu-tdx'' else ''kata-qemu-nvidia-gpu'' else ''kata-qemu-nvidia-gpu'')"
    using c unfolding rc by (simp only: fst_conv)
  moreover have "map c_Requests (p_Containers p) = [[(''nvidia.com/'' @ d, 1)]]" using r by (simp add: DeviceNamespace_def)
  ultimately show ?thesis by (cases cc; cases snp; cases tdx) (simp_all only: if_True if_False simp_thms)
qed

theorem runtime_class_choice_witness:
  "p_RuntimeClassName sample_pod = ''kata-qemu-nvidia-gpu-snp''"
proof -
  obtain p c where p: "createGFDPod sample_cluster ''pgpu'' ''node'' ''default'' ''gfd:1'' ''sa'' [] = (p, c)" by fastforce
  have n: "get_node sample_cluster c ''node'' = Inr sample_labels" for c by (simp add: sample_cluster_def)
  have t: "label_true sample_labels ''nvidia.com/cc.ready.state''"
      "label_true sample_labels ''amd.feature.node.kubernetes.io/snp''"
    by (simp_all add: label_true_def sample_labels_def) (code_simp+)
  from runtime_class_choice [OF n p refl refl refl] t p show ?thesis by (simp add: sample_pod_def)
qed

end
