(* ===== verification/CdiSpec.thy ===== *)
theory CdiSpec
  imports GoPath "HOL-Library.Finite_Map"
begin

text \<open>
  The vendored Container Device Interface library, as far as the program reaches it: the
  spec it builds, the name syntax (pkg/parser/parser.go), the version rules
  (specs-go/version.go), the validation of a spec and of its devices (pkg/cdi/spec.go,
  device.go, container-edits.go) and the writing of a spec file (spec.go, cache.go).

  The records hold the fields the program sets; the others (environment, mounts, hooks,
  network devices, RDT, group IDs, annotations, node type and permissions) are always Go's
  zero value, so the rules that look at them never fire and are left out. No external
  validator is installed (\<^verbatim>\<open>SetSpecValidator\<close> is not called). What marshalling and the
  file system answer to writing a file is an argument.
\<close>

section \<open>Specs\<close>

record DeviceNode =
  Path :: string

record ContainerEdits =
  DeviceNodes :: "DeviceNode list"

record Device =
  Name :: string
  Edits :: ContainerEdits

record Spec =
  Version :: string
  Kind :: string
  Devices :: "Device list"

section \<open>Names\<close>

definition validateVendorOrClassName :: "string \<Rightarrow> go_error option" where
  "validateVendorOrClassName name =
     (if name = [] then Some (Errorf ''empty name'')
      else if \<not> is_letter (hd name) then Some (Errorf ''should start with letter'')
      else if length name = 1 then None
      else if \<not> list_all (\<lambda>c. is_alnum c \<or> c = CHR ''_'' \<or> c = CHR ''-'' \<or> c = CHR ''.'') (butlast (tl name))
        then Some (Errorf ''invalid character in name'')
      else if \<not> is_alnum (last name) then Some (Errorf ''should end with a letter or digit'')
      else None)"

definition ValidateVendorName :: "string \<Rightarrow> go_error option" where
  "ValidateVendorName vendor = map_option (Wrapf ''invalid vendor.'') (validateVendorOrClassName vendor)"

definition ValidateClassName :: "string \<Rightarrow> go_error option" where
  "ValidateClassName cls = map_option (Wrapf ''invalid class.'') (validateVendorOrClassName cls)"

definition ValidateDeviceName :: "string \<Rightarrow> go_error option" where
  "ValidateDeviceName name =
     (if name = [] then Some (Errorf ''invalid (empty) device name'')
      else if \<not> is_alnum (hd name) then Some (Errorf ''should start with a letter or digit'')
      else if length name = 1 then None
      else if \<not> list_all (\<lambda>c. is_alnum c \<or> c = CHR ''_'' \<or> c = CHR ''-'' \<or> c = CHR ''.'' \<or> c = CHR '':'')
             (butlast (tl name))
        then Some (Errorf ''invalid character in device name'')
      else if \<not> is_alnum (last name) then Some (Errorf ''should end with a letter or digit'')
      else None)"

definition ParseQualifier :: "string \<Rightarrow> string \<times> string" where
  "ParseQualifier kind = (case Cut kind (CHR ''/'') of
      Some (qualifier, val) \<Rightarrow> if qualifier = [] \<or> val = [] then ([], kind) else (qualifier, val)
    | None \<Rightarrow> ([], kind))"

definition GenerateSpecName :: "string \<Rightarrow> string \<Rightarrow> string" where
  "GenerateSpecName vendor cls = vendor @ ''-'' @ cls"

definition GenerateNameForSpec :: "Spec \<Rightarrow> string result" where
  "GenerateNameForSpec raw = (case ParseQualifier (Kind raw) of (vendor, cls) \<Rightarrow>
     if vendor = [] then Inl (Errorf ''invalid vendor/class in Spec'')
     else Inr (GenerateSpecName vendor cls))"

section \<open>Versions\<close>

text \<open>The known versions, newest first; \<open>versionIndex\<close> is -1 for an unknown one.\<close>

definition validSpecVersions :: "string list" where
  "validSpecVersions = [''1.1.0'', ''1.0.0'', ''0.8.0'', ''0.7.0'', ''0.6.0'', ''0.5.0'', ''0.4.0'',
     ''0.3.0'', ''0.2.0'', ''0.1.0'']"

fun index_of :: "'a list \<Rightarrow> 'a \<Rightarrow> int \<Rightarrow> int" where
  "index_of [] v i = -1"
| "index_of (x # xs) v i = (if x = v then i else index_of xs v (i + 1))"

definition versionIndex :: "string \<Rightarrow> int" where
  "versionIndex v = index_of validSpecVersions v 0"

definition requiresV060 :: "Spec \<Rightarrow> bool" where
  "requiresV060 spec = (case Cut (Kind spec) (CHR ''/'') of
      Some (_, cls) \<Rightarrow> CHR ''.'' \<in> set cls
    | None \<Rightarrow> False)"

definition requiresV050 :: "Spec \<Rightarrow> bool" where
  "requiresV050 spec = list_ex (\<lambda>d. Name d \<noteq> [] \<and> is_digit (hd (Name d))) (Devices spec)"

definition requiredVersion :: "Spec \<Rightarrow> string" where
  "requiredVersion spec =
     (if requiresV060 spec then ''0.6.0'' else if requiresV050 spec then ''0.5.0'' else ''0.3.0'')"

definition ValidateVersion :: "Spec \<Rightarrow> go_error option" where
  "ValidateVersion spec =
     (let specVersion = TrimPrefix (Version spec) ''v'';
          minVersion = requiredVersion spec
      in if specVersion \<notin> set validSpecVersions then Some (Errorf ''invalid version'')
         else if versionIndex minVersion < versionIndex specVersion
           then Some (Errorf (''the spec version must be at least v'' @ minVersion))
         else None)"

section \<open>Validation\<close>

definition node_Validate :: "DeviceNode \<Rightarrow> go_error option" where
  "node_Validate d = (if Path d = [] then Some (Errorf ''invalid (empty) device path'') else None)"

fun first_error :: "('a \<Rightarrow> go_error option) \<Rightarrow> 'a list \<Rightarrow> go_error option" where
  "first_error f [] = None"
| "first_error f (x # xs) = (case f x of Some e \<Rightarrow> Some e | None \<Rightarrow> first_error f xs)"

definition edits_Validate :: "ContainerEdits \<Rightarrow> go_error option" where
  "edits_Validate e = first_error node_Validate (DeviceNodes e)"

definition device_validate :: "Device \<Rightarrow> go_error option" where
  "device_validate d = (case ValidateDeviceName (Name d) of
      Some err \<Rightarrow> Some err
    | None \<Rightarrow>
        if DeviceNodes (Edits d) = [] then Some (Errorf ''invalid device, empty device edits'')
        else map_option (Wrapf (''invalid device '' @ Name d)) (edits_Validate (Edits d)))"

text \<open>The loop over the devices, with the names already in the map.\<close>

fun validate_devices :: "Device list \<Rightarrow> string list \<Rightarrow> string list result" where
  "validate_devices [] seen = Inr seen"
| "validate_devices (d # ds) seen = (case device_validate d of
      Some err \<Rightarrow> Inl (Wrapf (''failed add device '' @ Name d) err)
    | None \<Rightarrow>
        if Name d \<in> set seen then Inl (Errorf (''invalid spec, multiple device '' @ Name d))
        else validate_devices ds (Name d # seen))"

definition spec_validate :: "Spec \<Rightarrow> go_error option" where
  "spec_validate spec = (case ParseQualifier (Kind spec) of (vendor, cls) \<Rightarrow>
     (case ValidateVersion spec of Some err \<Rightarrow> Some err | None \<Rightarrow>
     (case ValidateVendorName vendor of Some err \<Rightarrow> Some err | None \<Rightarrow>
     (case ValidateClassName cls of Some err \<Rightarrow> Some err | None \<Rightarrow>
     (case validate_devices (Devices spec) [] of
        Inl err \<Rightarrow> Some err
      | Inr names \<Rightarrow> if names = [] then Some (Errorf ''invalid spec, no devices'') else None)))))"

definition newSpec :: "Spec \<Rightarrow> go_error option" where
  "newSpec raw = map_option (Wrapf ''invalid CDI Spec'') (spec_validate raw)"

section \<open>Writing\<close>

text \<open>The CDI directory: the spec files in it, by path.\<close>

type_synonym cdi_dir = "(string, Spec) fmap"

text \<open>
  \<^verbatim>\<open>Cache.WriteSpec\<close> on a cache whose one spec directory is \<open>dir\<close>. The write goes to a
  temporary file that is renamed over the old one, so a failed write leaves the file alone.
\<close>

definition spec_path :: "string \<Rightarrow> string \<Rightarrow> string" where
  "spec_path dir name = (let p = Join [dir, name]
     in if Ext p \<noteq> ''.json'' \<and> Ext p \<noteq> ''.yaml'' then p @ ''.yaml'' else p)"

definition WriteSpec ::
    "(string \<Rightarrow> go_error option) \<Rightarrow> string \<Rightarrow> Spec \<Rightarrow> string \<Rightarrow> cdi_dir \<Rightarrow> go_error option \<times> cdi_dir" where
  "WriteSpec write_err dir raw name files = (case newSpec raw of
      Some err \<Rightarrow> (Some err, files)
    | None \<Rightarrow>
        (case write_err (spec_path dir name) of
           Some err \<Rightarrow> (Some err, files)
         | None \<Rightarrow> (None, fmupd (spec_path dir name) raw files)))"

section \<open>What a valid spec is\<close>

definition valid_name :: "string \<Rightarrow> bool" where
  "valid_name n \<longleftrightarrow> validateVendorOrClassName n = None"

definition devices_ok :: "Device list \<Rightarrow> bool" where
  "devices_ok ds \<longleftrightarrow> (\<forall>d \<in> set ds. device_validate d = None) \<and> distinct (map Name ds)"

lemma validate_devices_iff:
  "(\<exists>ns. validate_devices ds seen = Inr ns) \<longleftrightarrow>
     devices_ok ds \<and> set (map Name ds) \<inter> set seen = {}"
proof (induction ds arbitrary: seen)
  case (Cons d ds)
  then show ?case
    by (auto simp: devices_ok_def split: option.splits)
qed (simp add: devices_ok_def)

lemma validate_devices_names:
  "validate_devices ds seen = Inr ns \<Longrightarrow> ns = rev (map Name ds) @ seen"
  by (induction ds arbitrary: seen) (auto split: option.splits if_splits)

lemma validate_devices_empty:
  "(case validate_devices ds [] of
      Inl err \<Rightarrow> Some err
    | Inr names \<Rightarrow> if names = [] then Some e else None) = None \<longleftrightarrow> devices_ok ds \<and> ds \<noteq> []"
  using validate_devices_iff [of ds "[]"] validate_devices_names [of ds "[]"]
  by (auto split: sum.splits)

lemma spec_validate_None:
  "spec_validate spec = None \<longleftrightarrow>
     ValidateVersion spec = None \<and> valid_name (fst (ParseQualifier (Kind spec))) \<and>
     valid_name (snd (ParseQualifier (Kind spec))) \<and> devices_ok (Devices spec) \<and> Devices spec \<noteq> []"
  unfolding spec_validate_def
  by (simp add: case_prod_beta valid_name_def ValidateVendorName_def ValidateClassName_def
      split: option.split) (auto simp: validate_devices_empty)

lemma newSpec_None: "newSpec spec = None \<longleftrightarrow> spec_validate spec = None"
  by (simp add: newSpec_def)

section \<open>The directory as a store of specs\<close>

text \<open>
  What a writer of specs promises its client: a write that succeeds stores the spec under
  the path of its name and touches no other file, a write that fails changes nothing, and
  only valid specs are written.
\<close>

locale spec_store =
  fixes wr :: "Spec \<Rightarrow> string \<Rightarrow> cdi_dir \<Rightarrow> go_error option \<times> cdi_dir"
    and path :: "string \<Rightarrow> string"
    and valid :: "Spec \<Rightarrow> bool"
  assumes write_ok: "wr raw name fs = (None, fs') \<Longrightarrow> fs' = fmupd (path name) raw fs"
    and write_failed: "wr raw name fs = (Some err, fs') \<Longrightarrow> fs' = fs"
    and write_valid: "wr raw name fs = (None, fs') \<Longrightarrow> valid raw"
begin

lemma write_frame: "wr raw name fs = (r, fs') \<Longrightarrow> p \<noteq> path name \<Longrightarrow> fmlookup fs' p = fmlookup fs p"
  by (cases r) (auto dest: write_ok write_failed)

lemma write_keeps_valid:
  assumes "wr raw name fs = (r, fs')" and "\<And>p s. fmlookup fs p = Some s \<Longrightarrow> valid s"
    and "fmlookup fs' p = Some s"
  shows "valid s"
proof (cases r)
  case None
  with assms(1) have "fs' = fmupd (path name) raw fs" and "valid raw"
    by (auto dest: write_ok write_valid)
  with assms(2,3) show ?thesis by (auto split: if_splits)
next
  case (Some err)
  with assms show ?thesis by (auto dest: write_failed)
qed

end

interpretation cdi_store: spec_store "WriteSpec write_err dir" "spec_path dir" "\<lambda>s. spec_validate s = None"
  by unfold_locales (auto simp: WriteSpec_def newSpec_None split: option.splits)

lemma WriteSpec_ok_iff:
  "fst (WriteSpec write_err dir raw name fs) = None \<longleftrightarrow>
     spec_validate raw = None \<and> write_err (spec_path dir name) = None"
  by (auto simp: WriteSpec_def newSpec_def split: option.splits)

end
