(* ===== verification/Cdi.thy ===== *)
theory Cdi
  imports Discovery CdiSpec
begin

text \<open>
  CDI spec generation (pkg/device_plugin/cdi.go): the numeric order of IOMMU keys, the spec
  of one class, and \<^verbatim>\<open>GenerateCDISpec\<close>, which chooses the classes by the aliases.
\<close>

section \<open>The order of the keys\<close>

definition extractNumber :: "string \<Rightarrow> go_int" where
  "extractNumber s = (case Atoi (TrimLeft s is_letter) of None \<Rightarrow> 0 | Some n \<Rightarrow> n)"

definition key_number :: "string \<Rightarrow> int" where
  "key_number s = sint (extractNumber s)"

text \<open>
  \<^verbatim>\<open>sort.Slice\<close> with the comparison of the numbers. The algorithm of Go's library is not
  stable, so this function is one of its possible results where two keys have the same
  number; where the numbers differ it is the only one (\<open>key_sorter.srt_unique\<close>).
\<close>

definition sort_keys :: "string list \<Rightarrow> string list" where
  "sort_keys keys = sort_key key_number keys"

interpretation key_sorter: slice_sorter sort_keys key_number
  by unfold_locales (simp_all add: sort_keys_def)

section \<open>The spec of one class\<close>

record host =
  h_stat :: stat_fn
  h_mkdir :: "string \<Rightarrow> go_error option"
  h_write :: "string \<Rightarrow> go_error option"

definition kataCompatibleCDIVersion :: string where
  "kataCompatibleCDIVersion = ''0.5.0''"

definition cdi_nodes :: "bool \<Rightarrow> string \<Rightarrow> NvidiaPCIDevice \<Rightarrow> DeviceNode list" where
  "cdi_nodes iommufdSupported iommuKey dev =
     (if iommufdSupported \<and> IommuFD dev \<noteq> []
      then [\<lparr>Path = Join [vfioDevicePath, ''devices'', IommuFD dev]\<rparr>]
      else [\<lparr>Path = Join [vfioDevicePath, ''vfio'']\<rparr>, \<lparr>Path = Join [vfioDevicePath, iommuKey]\<rparr>])"

definition cdi_device :: "bool \<Rightarrow> string \<Rightarrow> NvidiaPCIDevice \<Rightarrow> Device" where
  "cdi_device iommufdSupported iommuKey dev =
     \<lparr>Name = iommuKey, Edits = \<lparr>DeviceNodes = cdi_nodes iommufdSupported iommuKey dev\<rparr>\<rparr>"

text \<open>The two nested loops, appending to the slice of device specs.\<close>

definition cdi_devices :: "bool \<Rightarrow> globals \<Rightarrow> string list \<Rightarrow> Device list" where
  "cdi_devices iommufdSupported g sortedKeys =
     fold (\<lambda>iommuKey specs.
         fold (\<lambda>dev specs. specs @ [cdi_device iommufdSupported iommuKey dev])
           (get_slice (iommuMap g) iommuKey) specs)
       sortedKeys []"

definition class_spec :: "string \<Rightarrow> Device list \<Rightarrow> Spec" where
  "class_spec cls specs = \<lparr>Version = kataCompatibleCDIVersion,
     Kind = cdiVendor @ ''/'' @ cls, Devices = specs\<rparr>"

definition generateCDISpecForClass ::
    "host \<Rightarrow> globals \<Rightarrow> string \<Rightarrow> string list \<Rightarrow> cdi_dir \<Rightarrow> go_error option \<times> cdi_dir" where
  "generateCDISpecForClass h g cls scopedIommuKeys files =
     (case supportsIOMMUFD (h_stat h) of
        Inl err \<Rightarrow> (Some (Wrapf ''failed to check IOMMUFD support'' err), files)
      | Inr iommufdSupported \<Rightarrow>
          let sortedKeys = sort_keys scopedIommuKeys;
              deviceSpecs = cdi_devices iommufdSupported g sortedKeys
          in if deviceSpecs = [] then (None, files)
             else
               let spec = class_spec cls deviceSpecs
               in (case GenerateNameForSpec spec of
                     Inl err \<Rightarrow> (Some (Wrapf ''failed to generate CDI spec name'' err), files)
                   | Inr specName \<Rightarrow>
                       (case WriteSpec (h_write h) cdiRoot spec specName files of
                          (Some err, files') \<Rightarrow>
                            (Some (Wrapf (''failed to save CDI spec '' @ specName) err), files')
                        | (None, files') \<Rightarrow> (None, files'))))"

section \<open>All specs\<close>

text \<open>
  The orders the \<^verbatim>\<open>range\<close> loops take: over the device map for GPUs and for NVSwitches, and
  over the IOMMU map in the call of \<^verbatim>\<open>getDeviceNameForID\<close> for a device ID.
\<close>

record range_orders =
  o_gpu :: "string list"
  o_switch :: "string list"
  o_names :: "string \<Rightarrow> string list"

definition orders_ok :: "globals \<Rightarrow> range_orders \<Rightarrow> bool" where
  "orders_ok g os \<longleftrightarrow> range_order (deviceMap g) (o_gpu os) \<and> range_order (deviceMap g) (o_switch os) \<and>
     (\<forall>d. range_order (iommuMap g) (o_names os d))"

text \<open>The keys of all device IDs for which \<open>P\<close> holds, one after the other.\<close>

fun collect_keys :: "globals \<Rightarrow> (string \<Rightarrow> bool) \<Rightarrow> string list \<Rightarrow> string list \<Rightarrow> string list" where
  "collect_keys g P [] acc = acc"
| "collect_keys g P (deviceID # ids) acc =
     (if P deviceID then collect_keys g P ids (acc @ get_slice (deviceMap g) deviceID)
      else collect_keys g P ids acc)"

text \<open>One spec per device ID for which \<open>P\<close> holds; the first failure ends the loop.\<close>

definition class_name :: "globals \<Rightarrow> range_orders \<Rightarrow> string \<Rightarrow> string" where
  "class_name g os deviceID =
     (let className = getDeviceNameForID g (o_names os deviceID) deviceID
      in if className = [] then deviceID else className)"

fun generate_each ::
    "host \<Rightarrow> globals \<Rightarrow> range_orders \<Rightarrow> (string \<Rightarrow> bool) \<Rightarrow> string list \<Rightarrow> cdi_dir \<Rightarrow>
       go_error option \<times> cdi_dir" where
  "generate_each h g os P [] files = (None, files)"
| "generate_each h g os P (deviceID # ids) files =
     (if \<not> P deviceID then generate_each h g os P ids files
      else
        let className = class_name g os deviceID
        in (case generateCDISpecForClass h g className (get_slice (deviceMap g) deviceID) files of
              (Some err, files') \<Rightarrow>
                (Some (Wrapf (''failed to generate CDI spec for '' @ className) err), files')
            | (None, files') \<Rightarrow> generate_each h g os P ids files'))"

definition generate_alias ::
    "host \<Rightarrow> globals \<Rightarrow> string \<Rightarrow> string \<Rightarrow> string list \<Rightarrow> cdi_dir \<Rightarrow> go_error option \<times> cdi_dir" where
  "generate_alias h g what alias keys files =
     (if keys = [] then (None, files)
      else (case generateCDISpecForClass h g alias keys files of
              (Some err, files') \<Rightarrow> (Some (Wrapf (''failed to generate '' @ what @ '' CDI spec'') err), files')
            | (None, files') \<Rightarrow> (None, files')))"

definition GenerateCDISpec ::
    "host \<Rightarrow> range_orders \<Rightarrow> globals \<Rightarrow> cdi_dir \<Rightarrow> go_error option \<times> cdi_dir" where
  "GenerateCDISpec h os g files =
     (if map_len (iommuMap g) = 0 then (None, files)
      else (case h_mkdir h cdiRoot of
        Some err \<Rightarrow> (Some (Wrapf (''failed to create CDI directory '' @ cdiRoot) err), files)
      | None \<Rightarrow>
          (case (if PGPUAlias g \<noteq> []
                 then generate_alias h g ''GPU'' (PGPUAlias g)
                        (collect_keys g (\<lambda>d. \<not> isNVSwitchDeviceID g d) (o_gpu os) []) files
                 else generate_each h g os (\<lambda>d. \<not> isNVSwitchDeviceID g d) (o_gpu os) files) of
             (Some err, files1) \<Rightarrow> (Some err, files1)
           | (None, files1) \<Rightarrow>
               if NVSwitchAlias g \<noteq> []
               then generate_alias h g ''NVSwitch'' (NVSwitchAlias g)
                      (collect_keys g (isNVSwitchDeviceID g) (o_switch os) []) files1
               else generate_each h g os (isNVSwitchDeviceID g) (o_switch os) files1)))"

section \<open>Lemmas on one class\<close>

lemma fold_snoc: "fold (\<lambda>x acc. acc @ [f x]) xs acc = acc @ map f xs"
  by (induction xs arbitrary: acc) simp_all

lemma fold_append: "fold (\<lambda>x acc. acc @ f x) xs acc = acc @ concat (map f xs)"
  by (induction xs arbitrary: acc) simp_all

lemma cdi_devices_eq:
  "cdi_devices b g ks = concat (map (\<lambda>k. map (cdi_device b k) (get_slice (iommuMap g) k)) ks)"
  by (simp add: cdi_devices_def fold_snoc fold_append)

lemma cdi_device_Name [simp]: "Name (cdi_device b k dev) = k"
  by (simp add: cdi_device_def)

lemma names_cdi_devices:
  "map Name (cdi_devices b g ks) = concat (map (\<lambda>k. replicate (length (get_slice (iommuMap g) k)) k) ks)"
  by (simp add: cdi_devices_eq map_concat comp_def map_replicate_const)

lemma set_cdi_devices:
  "d \<in> set (cdi_devices b g ks) \<longleftrightarrow>
     (\<exists>k \<in> set ks. \<exists>dev \<in> set (get_slice (iommuMap g) k). d = cdi_device b k dev)"
  by (auto simp: cdi_devices_eq)

lemma vfio_path_nonempty [simp]: "vfioDevicePath \<noteq> []"
  by (simp add: vfioDevicePath_def)

lemma cdi_nodes_nonempty [simp]: "cdi_nodes b k dev \<noteq> []"
  by (simp add: cdi_nodes_def)

lemma device_validate_cdi: "device_validate (cdi_device b k dev) = ValidateDeviceName k"
proof -
  have "edits_Validate \<lparr>DeviceNodes = cdi_nodes b k dev\<rparr> = None"
    by (simp add: edits_Validate_def cdi_nodes_def node_Validate_def Join_nonempty)
  then show ?thesis
    by (simp add: device_validate_def cdi_device_def split: option.split)
qed

lemma distinct_concat_replicate:
  "distinct (concat (map (\<lambda>k. replicate (n k) k) ks)) \<longleftrightarrow>
     (\<forall>k \<in> set ks. n k \<le> 1) \<and> distinct (filter (\<lambda>k. n k \<noteq> 0) ks)"
proof (induction ks)
  case (Cons k ks)
  have "set (replicate (n k) k) \<inter> set (concat (map (\<lambda>k. replicate (n k) k) ks)) = {} \<longleftrightarrow>
      n k = 0 \<or> k \<notin> set (filter (\<lambda>k. n k \<noteq> 0) ks)"
    by auto
  moreover have "distinct (replicate (n k) k) \<longleftrightarrow> n k \<le> 1"
    by (cases "n k"; cases "n k - 1") auto
  ultimately show ?case using Cons by auto
qed simp

text \<open>The devices of a spec are valid exactly when no key has two devices.\<close>

lemma devices_ok_cdi:
  assumes "\<And>k. k \<in> set ks \<Longrightarrow> get_slice (iommuMap g) k \<noteq> []"
  shows "devices_ok (cdi_devices b g ks) \<longleftrightarrow>
    (\<forall>k \<in> set ks. ValidateDeviceName k = None \<and> length (get_slice (iommuMap g) k) = 1) \<and> distinct ks"
proof -
  have l: "length (get_slice (iommuMap g) k) \<le> 1 \<longleftrightarrow> length (get_slice (iommuMap g) k) = 1"
    if "k \<in> set ks" for k
    using assms [OF that] by (cases "get_slice (iommuMap g) k") auto
  have "filter (\<lambda>k. length (get_slice (iommuMap g) k) \<noteq> 0) ks = ks"
    using assms by (auto intro!: filter_True)
  then have "distinct (map Name (cdi_devices b g ks)) \<longleftrightarrow>
      (\<forall>k \<in> set ks. length (get_slice (iommuMap g) k) = 1) \<and> distinct ks"
    using l by (auto simp: names_cdi_devices distinct_concat_replicate)
  moreover have "(\<forall>d \<in> set (cdi_devices b g ks). device_validate d = None) \<longleftrightarrow>
      (\<forall>k \<in> set ks. ValidateDeviceName k = None)"
  proof -
    have "(\<forall>d \<in> set (cdi_devices b g ks). device_validate d = None) \<longleftrightarrow>
        (\<forall>k \<in> set ks. \<forall>dev \<in> set (get_slice (iommuMap g) k). ValidateDeviceName k = None)"
      by (simp add: cdi_devices_eq device_validate_cdi)
    also have "\<dots> \<longleftrightarrow> (\<forall>k \<in> set ks. ValidateDeviceName k = None)"
      using assms by (intro ball_cong refl) auto
    finally show ?thesis .
  qed
  ultimately show ?thesis by (auto simp: devices_ok_def)
qed

lemma Kind_class_spec: "Kind (class_spec cls ds) = ''nvidia.com'' @ CHR ''/'' # cls"
  by (simp add: class_spec_def cdiVendor_def)

lemma ParseQualifier_class:
  "ParseQualifier (Kind (class_spec cls ds)) =
     (if cls = [] then ([], Kind (class_spec cls ds)) else (''nvidia.com'', cls))"
proof -
  have "Cut (''nvidia.com'' @ CHR ''/'' # cls) (CHR ''/'') = Some (''nvidia.com'', cls)"
    by (rule Cut_append) simp
  then show ?thesis
    unfolding ParseQualifier_def Kind_class_spec by simp
qed

definition spec_name :: "string \<Rightarrow> string" where
  "spec_name cls = ''nvidia.com-'' @ cls"

lemma GenerateName_class:
  "GenerateNameForSpec (class_spec cls ds) =
     (if cls = [] then Inl (Errorf ''invalid vendor/class in Spec'')
      else Inr (spec_name cls))"
  by (simp add: GenerateNameForSpec_def ParseQualifier_class GenerateSpecName_def spec_name_def)

lemma ValidateVersion_class:
  "ValidateVersion (class_spec cls ds) = None \<longleftrightarrow> CHR ''.'' \<notin> set cls"
proof -
  have "Cut (''nvidia.com'' @ CHR ''/'' # cls) (CHR ''/'') = Some (''nvidia.com'', cls)"
    by (rule Cut_append) simp
  then have r: "requiresV060 (class_spec cls ds) \<longleftrightarrow> CHR ''.'' \<in> set cls"
    unfolding requiresV060_def Kind_class_spec by simp
  have v: "TrimPrefix (Version (class_spec cls ds)) ''v'' = ''0.5.0''"
    by (simp add: class_spec_def kataCompatibleCDIVersion_def TrimPrefix_def)
  have i: "versionIndex ''0.6.0'' = 4" "versionIndex ''0.5.0'' = 5" "versionIndex ''0.3.0'' = 7"
    by (simp_all add: versionIndex_def validSpecVersions_def)
  show ?thesis
    unfolding ValidateVersion_def v requiredVersion_def Let_def
    by (simp add: r i) (simp add: validSpecVersions_def)
qed

text \<open>A class the CDI library accepts in a spec of version 0.5.0.\<close>

definition class_ok :: "string \<Rightarrow> bool" where
  "class_ok cls \<longleftrightarrow> valid_name cls \<and> CHR ''.'' \<notin> set cls"

lemma valid_vendor: "valid_name ''nvidia.com''"
  unfolding valid_name_def by code_simp

lemma valid_name_Nil [simp]: "\<not> valid_name []"
  by (simp add: valid_name_def validateVendorOrClassName_def)

lemma spec_validate_class:
  "spec_validate (class_spec cls ds) = None \<longleftrightarrow> class_ok cls \<and> devices_ok ds \<and> ds \<noteq> []"
proof -
  have d: "Devices (class_spec cls ds) = ds" by (simp add: class_spec_def)
  show ?thesis
    unfolding spec_validate_None ParseQualifier_class ValidateVersion_class d class_ok_def
    using valid_vendor by auto
qed

text \<open>The file of a class.\<close>

definition class_path :: "string \<Rightarrow> string" where
  "class_path cls = ''/var/run/cdi/nvidia.com-'' @ cls @ ''.yaml''"

lemma class_path_inj [simp]: "class_path a = class_path b \<longleftrightarrow> a = b"
  by (simp add: class_path_def)

lemma valid_name_no_slash: "valid_name n \<Longrightarrow> CHR ''/'' \<notin> set n"
proof
  assume v: "valid_name n" and "CHR ''/'' \<in> set n"
  then obtain c cs where n: "n = c # cs" by (cases n) auto
  have s: "\<not> is_alnum (CHR ''/'')" "\<not> is_letter (CHR ''/'')"
    by (simp_all add: is_alnum_def is_letter_def is_upper_def is_lower_def is_digit_def)
  show False
  proof (cases cs rule: rev_cases)
    case Nil
    with n v s \<open>CHR ''/'' \<in> set n\<close> show ?thesis
      by (auto simp: valid_name_def validateVendorOrClassName_def split: if_splits)
  next
    case (snoc ys y)
    with n v s \<open>CHR ''/'' \<in> set n\<close> show ?thesis
      by (auto simp: valid_name_def validateVendorOrClassName_def list_all_iff split: if_splits)
  qed
qed

lemma spec_path_class:
  assumes "class_ok cls"
  shows "spec_path cdiRoot (spec_name cls) = class_path cls"
proof -
  let ?n = "''nvidia.com-'' @ cls"
  have sl: "CHR ''/'' \<notin> set cls" and dot: "CHR ''.'' \<notin> set cls"
    using assms valid_name_no_slash by (auto simp: class_ok_def)
  have r: "cdiRoot = rooted [''var'', ''run'', ''cdi'']" by (simp add: cdiRoot_def rooted_def)
  have "Join [cdiRoot, ?n] = rooted ([''var'', ''run'', ''cdi''] @ [?n])"
    unfolding r using sl by (intro Join_rooted) (auto simp: simple_name_def)
  also have "\<dots> = ''/var/run/cdi/'' @ ?n" by (simp add: rooted_def)
  finally have j: "Join [cdiRoot, ?n] = ''/var/run/cdi/nvidia.com-'' @ cls" by simp
  have l: "rev (takeWhile (\<lambda>c. c \<noteq> CHR ''/'') (rev (''/var/run/cdi/nvidia.com-'' @ cls))) = ?n"
    using sl by (simp add: takeWhile_append)
  have "Ext (''/var/run/cdi/nvidia.com-'' @ cls) = ''.com-'' @ cls"
    using dot unfolding Ext_def Let_def l by (simp add: takeWhile_append)
  then show ?thesis
    unfolding spec_path_def Let_def spec_name_def j by (simp add: class_path_def)
qed

text \<open>What a call for one class does: the first refused condition, or the file it writes.\<close>

lemma generate_class_probe:
  "supportsIOMMUFD (h_stat h) = Inl err \<Longrightarrow>
     generateCDISpecForClass h g cls keys files = (Some (Wrapf ''failed to check IOMMUFD support'' err), files)"
  by (simp add: generateCDISpecForClass_def)

lemma generate_class_none:
  "supportsIOMMUFD (h_stat h) = Inr b \<Longrightarrow> cdi_devices b g (sort_keys keys) = [] \<Longrightarrow>
     generateCDISpecForClass h g cls keys files = (None, files)"
  by (simp add: generateCDISpecForClass_def)

lemma generate_class_ok_iff:
  assumes "supportsIOMMUFD (h_stat h) = Inr b"
    and "\<And>k. k \<in> set keys \<Longrightarrow> get_slice (iommuMap g) k \<noteq> []" and "keys \<noteq> []"
  shows "fst (generateCDISpecForClass h g cls keys files) = None \<longleftrightarrow>
    class_ok cls \<and> distinct keys \<and> h_write h (class_path cls) = None \<and>
    (\<forall>k \<in> set keys. ValidateDeviceName k = None \<and> length (get_slice (iommuMap g) k) = 1)"
proof -
  let ?ds = "cdi_devices b g (sort_keys keys)"
  have ok: "devices_ok ?ds \<longleftrightarrow> (\<forall>k \<in> set keys. ValidateDeviceName k = None \<and>
      length (get_slice (iommuMap g) k) = 1) \<and> distinct keys"
    using devices_ok_cdi [of "sort_keys keys" g b] assms(2)
    by (simp add: key_sorter.srt_set key_sorter.srt_distinct)
  have ne: "?ds \<noteq> []"
    using assms(2) [of "hd keys"] assms(3) hd_in_set [of keys]
    by (auto simp: cdi_devices_eq key_sorter.srt_set)
  show ?thesis
  proof (cases "cls = []")
    case True
    then show ?thesis
      using assms(1) ne by (simp add: generateCDISpecForClass_def GenerateName_class class_ok_def)
  next
    case False
    then have "fst (generateCDISpecForClass h g cls keys files) = None \<longleftrightarrow>
        fst (WriteSpec (h_write h) cdiRoot (class_spec cls ?ds) (spec_name cls) files) = None"
      using assms(1) ne
      by (auto simp: generateCDISpecForClass_def GenerateName_class Let_def split: prod.splits option.splits)
    also have "\<dots> \<longleftrightarrow> class_ok cls \<and> devices_ok ?ds \<and> h_write h (class_path cls) = None"
      using ne by (auto simp: WriteSpec_ok_iff spec_validate_class spec_path_class)
    finally show ?thesis using ok by auto
  qed
qed

lemma generate_class_failed:
  "generateCDISpecForClass h g cls keys files = (Some err, files') \<Longrightarrow> files' = files"
  by (auto simp: generateCDISpecForClass_def Let_def GenerateName_class
      split: sum.splits if_splits option.splits prod.splits dest: cdi_store.write_failed)

lemma generate_class_written:
  assumes "generateCDISpecForClass h g cls keys files = (None, files')"
    and "supportsIOMMUFD (h_stat h) = Inr b"
    and "\<And>k. k \<in> set keys \<Longrightarrow> get_slice (iommuMap g) k \<noteq> []" and "keys \<noteq> []"
  shows "files' = fmupd (class_path cls) (class_spec cls (cdi_devices b g (sort_keys keys))) files"
proof -
  let ?ds = "cdi_devices b g (sort_keys keys)"
  have c: "class_ok cls"
    using generate_class_ok_iff [OF assms(2,3,4), of cls files] assms(1) by simp
  have ne: "?ds \<noteq> []"
    using assms(3) [of "hd keys"] assms(4) hd_in_set [of keys]
    by (auto simp: cdi_devices_eq key_sorter.srt_set)
  from c have "cls \<noteq> []" by (auto simp: class_ok_def)
  with assms(1,2) ne have "WriteSpec (h_write h) cdiRoot (class_spec cls ?ds) (spec_name cls) files = (None, files')"
    by (auto simp: generateCDISpecForClass_def GenerateName_class Let_def split: prod.splits option.splits)
  then show ?thesis
    using c by (auto dest: cdi_store.write_ok simp: spec_path_class)
qed

end
