(* ===== verification/CdiAll.thy ===== *)
theory CdiAll
  imports Cdi
begin

text \<open>
  Lemmas on \<^verbatim>\<open>GenerateCDISpec\<close>: it runs a list of jobs, one class and its keys each, and
  stops at the first failure; what the directory holds afterwards; and the properties of CDI
  generation.
\<close>

section \<open>Numeric keys\<close>

text \<open>The keys discovery makes are decimal texts of integers on a usual host.\<close>

definition numeric_key :: "string \<Rightarrow> bool" where
  "numeric_key k \<longleftrightarrow> (case Atoi k of None \<Rightarrow> False | Some n \<Rightarrow> Itoa n = k)"

lemma numeric_key_iff: "numeric_key k \<longleftrightarrow> (\<exists>n. k = Itoa n)"
  by (auto simp: numeric_key_def split: option.splits)

lemma is_letter_not_digit: "is_digit c \<Longrightarrow> \<not> is_letter c"
  by (auto simp: is_digit_def is_letter_def is_upper_def is_lower_def)

lemma hd_dec: "is_digit (hd (dec n))"
  using dec_digits [of n] dec_nonempty [of n] by (cases "dec n") auto

lemma TrimLeft_Itoa [simp]: "TrimLeft (Itoa n) is_letter = Itoa n"
proof (rule TrimLeft_id)
  show "Itoa n \<noteq> []" by (simp add: Itoa_def)
  have "\<not> is_letter (CHR ''-'')"
    by (simp add: is_letter_def is_upper_def is_lower_def)
  then show "\<not> is_letter (hd (Itoa n))"
    using hd_dec is_letter_not_digit by (simp add: Itoa_def)
qed

lemma key_number_Itoa [simp]: "key_number (Itoa n) = sint n"
  by (simp add: key_number_def extractNumber_def)

lemma key_number_inj: "\<forall>k \<in> set keys. numeric_key k \<Longrightarrow> inj_on key_number (set keys)"
  by (rule inj_onI) (metis key_number_Itoa numeric_key_iff signed_word_eqI)

section \<open>Jobs\<close>

fun run_jobs :: "host \<Rightarrow> globals \<Rightarrow> (string \<times> string list) list \<Rightarrow> cdi_dir \<Rightarrow> go_error option \<times> cdi_dir" where
  "run_jobs h g [] files = (None, files)"
| "run_jobs h g ((cls, keys) # js) files =
     (case generateCDISpecForClass h g cls keys files of
        (Some err, files') \<Rightarrow> (Some err, files')
      | (None, files') \<Rightarrow> run_jobs h g js files')"

definition alias_jobs :: "string \<Rightarrow> string list \<Rightarrow> (string \<times> string list) list" where
  "alias_jobs alias keys = (if keys = [] then [] else [(alias, keys)])"

definition type_jobs :: "globals \<Rightarrow> range_orders \<Rightarrow> (string \<Rightarrow> bool) \<Rightarrow> string list \<Rightarrow> (string \<times> string list) list" where
  "type_jobs g os P ids = map (\<lambda>d. (class_name g os d, get_slice (deviceMap g) d)) (filter P ids)"

definition keys_of :: "globals \<Rightarrow> (string \<Rightarrow> bool) \<Rightarrow> string list \<Rightarrow> string list" where
  "keys_of g P ids = concat (map (get_slice (deviceMap g)) (filter P ids))"

definition gpu_jobs :: "globals \<Rightarrow> range_orders \<Rightarrow> (string \<times> string list) list" where
  "gpu_jobs g os =
     (if PGPUAlias g \<noteq> []
      then alias_jobs (PGPUAlias g) (keys_of g (\<lambda>d. \<not> isNVSwitchDeviceID g d) (o_gpu os))
      else type_jobs g os (\<lambda>d. \<not> isNVSwitchDeviceID g d) (o_gpu os))"

definition switch_jobs :: "globals \<Rightarrow> range_orders \<Rightarrow> (string \<times> string list) list" where
  "switch_jobs g os =
     (if NVSwitchAlias g \<noteq> []
      then alias_jobs (NVSwitchAlias g) (keys_of g (isNVSwitchDeviceID g) (o_switch os))
      else type_jobs g os (isNVSwitchDeviceID g) (o_switch os))"

lemma collect_keys_eq: "collect_keys g P ids acc = acc @ keys_of g P ids"
  by (induction ids arbitrary: acc) (simp_all add: keys_of_def)

text \<open>Two outcomes that agree on failure and on the files.\<close>

definition same_outcome :: "go_error option \<times> cdi_dir \<Rightarrow> go_error option \<times> cdi_dir \<Rightarrow> bool" where
  "same_outcome a b \<longleftrightarrow> (fst a = None \<longleftrightarrow> fst b = None) \<and> snd a = snd b"

lemma generate_alias_jobs:
  "same_outcome (generate_alias h g what alias keys files) (run_jobs h g (alias_jobs alias keys) files)"
  by (auto simp: same_outcome_def generate_alias_def alias_jobs_def split: prod.splits option.splits)

lemma generate_each_jobs:
  "same_outcome (generate_each h g os P ids files) (run_jobs h g (type_jobs g os P ids) files)"
proof (induction ids arbitrary: files)
  case (Cons d ids)
  then show ?case
    by (auto simp: same_outcome_def type_jobs_def Let_def split: prod.splits option.splits)
qed (simp add: same_outcome_def type_jobs_def)

lemma run_jobs_append:
  "run_jobs h g (js @ js') files = (case run_jobs h g js files of
      (Some err, files') \<Rightarrow> (Some err, files')
    | (None, files') \<Rightarrow> run_jobs h g js' files')"
  by (induction h g js files rule: run_jobs.induct) (auto split: prod.splits option.splits)

lemma same_outcome_seq:
  assumes "same_outcome a a'" and "\<And>f. same_outcome (F f) (F' f)"
  shows "same_outcome
    (case a of (Some err, f) \<Rightarrow> (Some err, f) | (None, f) \<Rightarrow> F f)
    (case a' of (Some err, f) \<Rightarrow> (Some err, f) | (None, f) \<Rightarrow> F' f)"
  using assms by (cases a; cases a'; cases "fst a"; cases "fst a'") (auto simp: same_outcome_def)

lemma GenerateCDISpec_jobs:
  assumes "iommuMap g \<noteq> fmempty" and "h_mkdir h cdiRoot = None"
  shows "same_outcome (GenerateCDISpec h os g files) (run_jobs h g (gpu_jobs g os @ switch_jobs g os) files)"
proof -
  have "same_outcome
      (if PGPUAlias g \<noteq> []
       then generate_alias h g ''GPU'' (PGPUAlias g)
              (collect_keys g (\<lambda>d. \<not> isNVSwitchDeviceID g d) (o_gpu os) []) files
       else generate_each h g os (\<lambda>d. \<not> isNVSwitchDeviceID g d) (o_gpu os) files)
      (run_jobs h g (gpu_jobs g os) files)"
    by (simp add: gpu_jobs_def collect_keys_eq generate_alias_jobs generate_each_jobs)
  moreover have "same_outcome
      (if NVSwitchAlias g \<noteq> []
       then generate_alias h g ''NVSwitch'' (NVSwitchAlias g)
              (collect_keys g (isNVSwitchDeviceID g) (o_switch os) []) f
       else generate_each h g os (isNVSwitchDeviceID g) (o_switch os) f)
      (run_jobs h g (switch_jobs g os) f)" for f
    by (simp add: switch_jobs_def collect_keys_eq generate_alias_jobs generate_each_jobs)
  ultimately show ?thesis
    using assms unfolding GenerateCDISpec_def run_jobs_append
    by (simp only: map_len_0 if_False option.case) (rule same_outcome_seq)
qed

section \<open>The directory after a run\<close>

text \<open>A job that has devices for every key.\<close>

definition job_ok :: "globals \<Rightarrow> string \<times> string list \<Rightarrow> bool" where
  "job_ok g j \<longleftrightarrow> snd j \<noteq> [] \<and> (\<forall>k \<in> set (snd j). get_slice (iommuMap g) k \<noteq> [])"

definition job_spec :: "bool \<Rightarrow> globals \<Rightarrow> string \<times> string list \<Rightarrow> Spec" where
  "job_spec b g j = class_spec (fst j) (cdi_devices b g (sort_keys (snd j)))"

definition write_jobs :: "bool \<Rightarrow> globals \<Rightarrow> (string \<times> string list) list \<Rightarrow> cdi_dir \<Rightarrow> cdi_dir" where
  "write_jobs b g js files = fold (\<lambda>j. fmupd (class_path (fst j)) (job_spec b g j)) js files"

lemma run_jobs_written:
  assumes "supportsIOMMUFD (h_stat h) = Inr b"
    and "\<forall>j \<in> set js. job_ok g j" and "run_jobs h g js files = (None, files')"
  shows "files' = write_jobs b g js files"
  using assms(2,3)
proof (induction js arbitrary: files)
  case (Cons j js)
  obtain cls keys where j: "j = (cls, keys)" by (cases j)
  with Cons.prems(2) obtain f where f: "generateCDISpecForClass h g cls keys files = (None, f)"
      "run_jobs h g js f = (None, files')"
    by (auto split: prod.splits option.splits)
  have "f = fmupd (class_path cls) (job_spec b g j) files"
    using generate_class_written [OF f(1) assms(1)] Cons.prems(1) by (simp add: j job_ok_def job_spec_def)
  with f(2) Cons j show ?case by (simp add: write_jobs_def)
qed (simp add: write_jobs_def)

lemma run_jobs_ok_iff:
  assumes "supportsIOMMUFD (h_stat h) = Inr b" and "\<forall>j \<in> set js. job_ok g j"
  shows "fst (run_jobs h g js files) = None \<longleftrightarrow>
    (\<forall>(cls, keys) \<in> set js. class_ok cls \<and> distinct keys \<and> h_write h (class_path cls) = None \<and>
       (\<forall>k \<in> set keys. ValidateDeviceName k = None \<and> length (get_slice (iommuMap g) k) = 1))"
  using assms(2)
proof (induction js arbitrary: files)
  case (Cons j js)
  obtain cls keys where j: "j = (cls, keys)" by (cases j)
  have "fst (generateCDISpecForClass h g cls keys files) = None \<longleftrightarrow>
      class_ok cls \<and> distinct keys \<and> h_write h (class_path cls) = None \<and>
      (\<forall>k \<in> set keys. ValidateDeviceName k = None \<and> length (get_slice (iommuMap g) k) = 1)"
    using generate_class_ok_iff [OF assms(1), of keys g] Cons.prems by (simp add: j job_ok_def)
  moreover have "fst (run_jobs h g (j # js) files) = None \<longleftrightarrow>
      fst (generateCDISpecForClass h g cls keys files) = None \<and>
      fst (run_jobs h g js (snd (generateCDISpecForClass h g cls keys files))) = None"
    by (auto simp: j split: prod.splits option.splits)
  ultimately show ?case using Cons by (auto simp: j)
qed simp

lemma write_jobs_last:
  assumes "j \<in> set js" and "\<And>j'. j' \<in> set js \<Longrightarrow> fst j' = fst j \<Longrightarrow> j' = j"
  shows "fmlookup (write_jobs b g js files) (class_path (fst j)) = Some (job_spec b g j)"
proof -
  have "fmlookup (write_jobs b g xs files) (class_path (fst j)) =
      (if j \<in> set xs then Some (job_spec b g j) else fmlookup files (class_path (fst j)))"
    if "set xs \<subseteq> set js" for xs
    using that assms(2) by (induction xs rule: rev_induct) (auto simp: write_jobs_def)
  then show ?thesis using assms(1) by simp
qed

lemma write_jobs_last_wins:
  assumes "\<forall>j' \<in> set js2. fst j' \<noteq> fst j"
  shows "fmlookup (write_jobs b g (js1 @ j # js2) files) (class_path (fst j)) = Some (job_spec b g j)"
  using assms by (induction js2 rule: rev_induct) (auto simp: write_jobs_def)

lemma write_jobs_frame:
  "p \<notin> (class_path \<circ> fst) ` set js \<Longrightarrow> fmlookup (write_jobs b g js files) p = fmlookup files p"
  by (induction js rule: rev_induct) (auto simp: write_jobs_def)

section \<open>The jobs of well-formed maps\<close>

lemma wf_slice:
  assumes "wf_maps g" and "k \<in> set (get_slice (deviceMap g) d)"
  shows "get_slice (iommuMap g) k \<noteq> []"
    and "hex4 (DeviceID (hd (get_slice (iommuMap g) k))) = d"
proof -
  from assms(2) obtain ks where "fmlookup (deviceMap g) d = Some ks" "k \<in> set ks"
    by (auto simp: in_get_slice)
  with wf_mapsD(4) [OF assms(1)] obtain ds where "fmlookup (iommuMap g) k = Some ds"
    "hex4 (DeviceID (hd ds)) = d" by blast
  with wf_mapsD(1) [OF assms(1)] show "get_slice (iommuMap g) k \<noteq> []"
    and "hex4 (DeviceID (hd (get_slice (iommuMap g) k))) = d" by auto
qed

lemma wf_distinct_slice: "wf_maps g \<Longrightarrow> distinct (get_slice (deviceMap g) d)"
  by (auto simp: get_slice_def wf_mapsD(3) split: option.split)

text \<open>The device type a key is advertised under.\<close>

definition key_type :: "globals \<Rightarrow> string \<Rightarrow> string" where
  "key_type g k = hex4 (DeviceID (hd (get_slice (iommuMap g) k)))"

lemma wf_key_type:
  assumes "wf_maps g"
  shows "k \<in> set (get_slice (deviceMap g) d) \<longleftrightarrow> k \<in> fmdom' (iommuMap g) \<and> key_type g k = d"
proof
  assume k: "k \<in> set (get_slice (deviceMap g) d)"
  from wf_slice(1) [OF assms k] have "k \<in> fmdom' (iommuMap g)"
    by (auto simp: get_slice_def split: option.splits)
  with wf_slice(2) [OF assms k] show "k \<in> fmdom' (iommuMap g) \<and> key_type g k = d"
    by (simp add: key_type_def)
next
  assume k: "k \<in> fmdom' (iommuMap g) \<and> key_type g k = d"
  then obtain d' ks where "fmlookup (deviceMap g) d' = Some ks" "k \<in> set ks"
    using wf_mapsD(5) [OF assms] by blast
  then have "k \<in> set (get_slice (deviceMap g) d')" by simp
  with wf_slice(2) [OF assms this] k show "k \<in> set (get_slice (deviceMap g) d)"
    by (simp add: key_type_def)
qed

lemma set_keys_of:
  assumes "wf_maps g" and "range_order (deviceMap g) ids"
  shows "set (keys_of g P ids) = {k \<in> fmdom' (iommuMap g). P (key_type g k)}"
proof -
  have "key_type g k \<in> set ids" if k: "k \<in> fmdom' (iommuMap g)" for k
  proof -
    have "k \<in> set (get_slice (deviceMap g) (key_type g k))"
      using wf_key_type [OF assms(1)] k by simp
    then show ?thesis using range_order_mem [OF assms(2)] by (auto simp: in_get_slice)
  qed
  then show ?thesis
    using wf_key_type [OF assms(1)] by (auto simp: keys_of_def simp del: fmlookup_dom'_iff)
qed

lemma distinct_keys_of:
  assumes "wf_maps g" and "distinct ids"
  shows "distinct (keys_of g P ids)"
  using assms(2)
proof (induction ids)
  case (Cons d ids)
  have "k \<notin> set (keys_of g P ids)" if "k \<in> set (get_slice (deviceMap g) d)" for k
    using that Cons.prems wf_key_type [OF assms(1)] by (auto simp: keys_of_def simp del: fmlookup_dom'_iff)
  with Cons wf_distinct_slice [OF assms(1)] show ?case by (auto simp: keys_of_def)
qed (simp add: keys_of_def)

lemma cdi_devices_single:
  assumes "\<forall>k \<in> set ks. length (get_slice (iommuMap g) k) = 1"
  shows "cdi_devices b g ks = map (\<lambda>k. cdi_device b k (hd (get_slice (iommuMap g) k))) ks"
  unfolding cdi_devices_eq using assms by (induction ks) (auto simp: length_Suc_conv)

lemma filter_eq_single: "distinct ks \<Longrightarrow> k \<in> set ks \<Longrightarrow> filter (\<lambda>x. x = k) ks = [k]"
  by (induction ks) (auto simp: filter_empty_conv)

lemma jobs_ok:
  assumes "wf_maps g" and "orders_ok g os"
  shows "\<forall>j \<in> set (gpu_jobs g os @ switch_jobs g os). job_ok g j"
proof -
  have k: "job_ok g (c, keys_of g P ids)" if "keys_of g P ids \<noteq> []" for c P ids
    using that wf_slice(1) [OF assms(1)] by (auto simp: job_ok_def keys_of_def)
  have "job_ok g (c, get_slice (deviceMap g) d)" if "d \<in> set ids" "range_order (deviceMap g) ids" for c d ids
    using that wf_slice(1) [OF assms(1)] wf_mapsD(2) [OF assms(1)] range_order_mem [OF that(2), of d]
    by (auto simp: job_ok_def)
  then have "job_ok g j" if "j \<in> set (type_jobs g os P ids)" "range_order (deviceMap g) ids" for j P ids
    using that by (auto simp: type_jobs_def)
  then show ?thesis
    using assms(2) k by (auto simp: gpu_jobs_def switch_jobs_def alias_jobs_def orders_ok_def split: if_splits)
qed

text \<open>Success of the whole generation, and the directory it leaves.\<close>

lemma GenerateCDISpec_success:
  assumes "wf_maps g" and "orders_ok g os" and "supportsIOMMUFD (h_stat h) = Inr b"
    and "iommuMap g \<noteq> fmempty" and "GenerateCDISpec h os g files = (None, files')"
  shows "files' = write_jobs b g (gpu_jobs g os @ switch_jobs g os) files"
    and "(cls, keys) \<in> set (gpu_jobs g os @ switch_jobs g os) \<Longrightarrow> k \<in> set keys \<Longrightarrow>
      class_ok cls \<and> distinct keys \<and> length (get_slice (iommuMap g) k) = 1"
proof -
  let ?js = "gpu_jobs g os @ switch_jobs g os"
  have m: "h_mkdir h cdiRoot = None"
    using assms(4,5) by (auto simp: GenerateCDISpec_def split: option.splits)
  have so: "fst (run_jobs h g ?js files) = None" "snd (run_jobs h g ?js files) = files'"
    using GenerateCDISpec_jobs [OF assms(4) m, of os files] assms(5) by (simp_all add: same_outcome_def)
  then have r: "run_jobs h g ?js files = (None, files')" by (metis prod.collapse)
  show "files' = write_jobs b g ?js files"
    using run_jobs_written [OF assms(3) jobs_ok [OF assms(1,2)] r] .
  show "(cls, keys) \<in> set ?js \<Longrightarrow> k \<in> set keys \<Longrightarrow>
      class_ok cls \<and> distinct keys \<and> length (get_slice (iommuMap g) k) = 1"
    using so(1) unfolding run_jobs_ok_iff [OF assms(3) jobs_ok [OF assms(1,2)]] by blast
qed

text \<open>Failure of the first job stops everything before a file is written.\<close>

lemma GenerateCDISpec_first_fails:
  assumes "iommuMap g \<noteq> fmempty" and "gpu_jobs g os = (cls, keys) # js"
    and "fst (generateCDISpecForClass h g cls keys files) \<noteq> None"
  shows "\<exists>err. GenerateCDISpec h os g files = (Some err, files)"
proof (cases "h_mkdir h cdiRoot")
  case None
  obtain err f where e: "generateCDISpecForClass h g cls keys files = (Some err, f)"
    using assms(3) by (cases "generateCDISpecForClass h g cls keys files") auto
  then have "run_jobs h g (gpu_jobs g os @ switch_jobs g os) files = (Some err, files)"
    using generate_class_failed [OF e] assms(2) by simp
  with GenerateCDISpec_jobs [OF assms(1) None, of os files] show ?thesis
    by (cases "GenerateCDISpec h os g files") (auto simp: same_outcome_def)
next
  case (Some err)
  with assms(1) show ?thesis by (simp add: GenerateCDISpec_def)
qed

lemma gpu_jobs_alias:
  assumes "wf_maps g" and "orders_ok g os" and "PGPUAlias g \<noteq> []"
    and "k \<in> fmdom' (iommuMap g)" and "\<not> isNVSwitchDeviceID g (key_type g k)"
  shows "gpu_jobs g os = [(PGPUAlias g, keys_of g (\<lambda>d. \<not> isNVSwitchDeviceID g d) (o_gpu os))]"
    and "k \<in> set (keys_of g (\<lambda>d. \<not> isNVSwitchDeviceID g d) (o_gpu os))"
proof -
  have r: "range_order (deviceMap g) (o_gpu os)" using assms(2) by (simp add: orders_ok_def)
  show k: "k \<in> set (keys_of g (\<lambda>d. \<not> isNVSwitchDeviceID g d) (o_gpu os))"
    using set_keys_of [OF assms(1) r] assms(4,5) by auto
  then show "gpu_jobs g os = [(PGPUAlias g, keys_of g (\<lambda>d. \<not> isNVSwitchDeviceID g d) (o_gpu os))]"
    using assms(3) by (auto simp: gpu_jobs_def alias_jobs_def)
qed

lemma switch_jobs_alias:
  assumes "wf_maps g" and "orders_ok g os" and "NVSwitchAlias g \<noteq> []"
    and "k \<in> fmdom' (iommuMap g)" and "isNVSwitchDeviceID g (key_type g k)"
  shows "switch_jobs g os = [(NVSwitchAlias g, keys_of g (isNVSwitchDeviceID g) (o_switch os))]"
    and "k \<in> set (keys_of g (isNVSwitchDeviceID g) (o_switch os))"
proof -
  have r: "range_order (deviceMap g) (o_switch os)" using assms(2) by (simp add: orders_ok_def)
  show k: "k \<in> set (keys_of g (isNVSwitchDeviceID g) (o_switch os))"
    using set_keys_of [OF assms(1) r] assms(4,5) by auto
  then show "switch_jobs g os = [(NVSwitchAlias g, keys_of g (isNVSwitchDeviceID g) (o_switch os))]"
    using assms(3) by (auto simp: switch_jobs_def alias_jobs_def)
qed

lemma alias_job_in:
  assumes "wf_maps g" and "orders_ok g os" and "PGPUAlias g \<noteq> []" and "NVSwitchAlias g \<noteq> []"
    and "k \<in> fmdom' (iommuMap g)"
  shows "\<exists>keys. ((if isNVSwitchDeviceID g (key_type g k) then NVSwitchAlias g else PGPUAlias g), keys)
      \<in> set (gpu_jobs g os @ switch_jobs g os) \<and> k \<in> set keys"
  using gpu_jobs_alias [OF assms(1,2,3,5)] switch_jobs_alias [OF assms(1,2,4,5)] by auto

lemma alias_jobs_unique:
  assumes "PGPUAlias g \<noteq> []" and "NVSwitchAlias g \<noteq> []" and "PGPUAlias g \<noteq> NVSwitchAlias g"
    and "j \<in> set (gpu_jobs g os @ switch_jobs g os)" and "j' \<in> set (gpu_jobs g os @ switch_jobs g os)"
    and "fst j' = fst j"
  shows "j' = j"
  using assms by (auto simp: gpu_jobs_def switch_jobs_def alias_jobs_def split: if_splits)

lemma job_spec_device:
  assumes "distinct keys" and "\<forall>k \<in> set keys. length (get_slice (iommuMap g) k) = 1" and "k \<in> set keys"
  shows "filter (\<lambda>d. Name d = k) (Devices (job_spec b g (cls, keys))) =
    [cdi_device b k (hd (get_slice (iommuMap g) k))]"
proof -
  let ?ks = "sort_keys keys"
  have "Devices (job_spec b g (cls, keys)) = map (\<lambda>k. cdi_device b k (hd (get_slice (iommuMap g) k))) ?ks"
    using assms(2) by (simp add: job_spec_def class_spec_def cdi_devices_single key_sorter.srt_set)
  moreover have "filter (\<lambda>x. x = k) ?ks = [k]"
    using assms by (intro filter_eq_single) (simp_all add: key_sorter.srt_set key_sorter.srt_distinct)
  ultimately show ?thesis by (simp add: filter_map comp_def)
qed

text \<open>Every outcome, also a failure half-way: what may change in the directory.\<close>

lemma generate_class_cases:
  assumes "generateCDISpecForClass h g cls keys files = (r, files')"
  shows "files' = files \<or> (\<exists>s. spec_validate s = None \<and> files' = fmupd (class_path cls) s files)"
proof (cases "files' = files")
  case False
  then have r: "r = None" using assms generate_class_failed by (cases r) auto
  with assms False obtain b where b: "cdi_devices b g (sort_keys keys) \<noteq> []" "cls \<noteq> []"
      "WriteSpec (h_write h) cdiRoot (class_spec cls (cdi_devices b g (sort_keys keys))) (spec_name cls) files = (None, files')"
    by (auto simp: generateCDISpecForClass_def GenerateName_class Let_def
        split: sum.splits if_splits prod.splits option.splits)
  have v: "spec_validate (class_spec cls (cdi_devices b g (sort_keys keys))) = None"
    using cdi_store.write_valid [OF b(3)] .
  then have "class_ok cls" by (simp add: spec_validate_class)
  with v cdi_store.write_ok [OF b(3)] show ?thesis by (auto simp: spec_path_class)
qed simp

definition dir_valid :: "cdi_dir \<Rightarrow> bool" where
  "dir_valid files \<longleftrightarrow> (\<forall>p s. fmlookup files p = Some s \<longrightarrow> spec_validate s = None)"

lemma run_jobs_frame:
  "run_jobs h g js files = (r, files') \<Longrightarrow>
     (dir_valid files \<longrightarrow> dir_valid files') \<and>
     (\<forall>p. p \<notin> class_path ` fst ` set js \<longrightarrow> fmlookup files' p = fmlookup files p)"
proof (induction js arbitrary: files)
  case (Cons j js)
  obtain cls keys where j: "j = (cls, keys)" by (cases j)
  obtain r1 f1 where g: "generateCDISpecForClass h g cls keys files = (r1, f1)" by fastforce
  have 1: "(dir_valid files \<longrightarrow> dir_valid f1) \<and> (\<forall>p. p \<noteq> class_path cls \<longrightarrow> fmlookup f1 p = fmlookup files p)"
    using generate_class_cases [OF g] by (auto simp: dir_valid_def split: if_splits)
  show ?case
  proof (cases r1)
    case None
    with Cons.prems g have "run_jobs h g js f1 = (r, files')" by (simp add: j)
    with Cons.IH 1 show ?thesis by (simp add: j)
  next
    case (Some err)
    with Cons.prems g 1 show ?thesis by (simp add: j)
  qed
qed simp

lemma write_jobs_origin:
  assumes "fmlookup (write_jobs b g js files) (class_path c) = Some s" and "\<exists>j \<in> set js. fst j = c"
  shows "\<exists>j \<in> set js. fst j = c \<and> s = job_spec b g j"
  using assms
proof (induction js rule: rev_induct)
  case (snoc j js)
  then show ?case
    by (cases "fst j = c") (auto simp: write_jobs_def)
qed simp

lemma write_jobs_present:
  "j \<in> set js \<Longrightarrow> \<exists>s. fmlookup (write_jobs b g js files) (class_path (fst j)) = Some s"
  by (induction js rule: rev_induct) (auto simp: write_jobs_def)

text \<open>The keys of a job are all of GPU types or all of NVSwitch types; without an alias they
  are of one type.\<close>

lemma gpu_type_job:
  assumes "wf_maps g" and "PGPUAlias g = []" and "j \<in> set (gpu_jobs g os)" and "k \<in> set (snd j)"
  shows "snd j = get_slice (deviceMap g) (key_type g k)"
  using assms wf_key_type [OF assms(1)]
  by (auto simp: gpu_jobs_def type_jobs_def simp del: fmlookup_dom'_iff)

lemma switch_job_keys:
  assumes "wf_maps g" and "orders_ok g os" and "j \<in> set (switch_jobs g os)" and "k \<in> set (snd j)"
  shows "isNVSwitchDeviceID g (key_type g k)"
  using assms wf_key_type [OF assms(1)]
  by (auto simp: switch_jobs_def alias_jobs_def type_jobs_def keys_of_def
      split: if_splits simp del: fmlookup_dom'_iff)

lemma names_job_spec: "Name ` set (Devices (job_spec b g (cls, keys))) \<subseteq> set keys"
  by (auto simp: job_spec_def class_spec_def set_cdi_devices key_sorter.srt_set)

section \<open>A sample state\<close>

definition sample_host :: "stat_fn \<Rightarrow> host" where
  "sample_host stat = \<lparr>h_stat = stat, h_mkdir = (\<lambda>_. None), h_write = (\<lambda>_. None)\<rparr>"

definition sample_state :: "string \<Rightarrow> NvidiaPCIDevice list \<Rightarrow> globals" where
  "sample_state alias devs = \<lparr>iommuMap = fmupd ''1'' devs fmempty,
     deviceMap = fmupd (hex4 (DeviceID (hd devs))) [''1''] fmempty, nvSwitchDeviceIDs = fmempty,
     PGPUAlias = alias, NVSwitchAlias = ''nvswitch'', EnableGFD = False\<rparr>"

definition sample_orders :: "NvidiaPCIDevice list \<Rightarrow> range_orders" where
  "sample_orders devs = \<lparr>o_gpu = [hex4 (DeviceID (hd devs))], o_switch = [hex4 (DeviceID (hd devs))],
     o_names = (\<lambda>_. [''1''])\<rparr>"

definition sample_dev :: NvidiaPCIDevice where
  "sample_dev = to_nv (sample_gpu ''0000:01:00.0'' 0x2331 1 ''vfio3'')"

lemma sample_wf: "devs \<noteq> [] \<Longrightarrow> wf_maps (sample_state alias devs)"
  by (simp add: wf_maps_def sample_state_def)

lemma sample_orders_ok: "orders_ok (sample_state alias devs) (sample_orders devs)"
  by (simp add: orders_ok_def range_order_def sample_state_def sample_orders_def)

lemma sample_state_simps [simp]:
  "iommuMap (sample_state alias devs) = fmupd ''1'' devs fmempty"
  "PGPUAlias (sample_state alias devs) = alias"
  "NVSwitchAlias (sample_state alias devs) = ''nvswitch''"
  "\<not> isNVSwitchDeviceID (sample_state alias devs) d"
  "h_stat (sample_host stat) = stat" "h_mkdir (sample_host stat) p = None"
  "h_write (sample_host stat) p = None"
  by (simp_all add: sample_state_def isNVSwitchDeviceID_def sample_host_def)

lemma sample_slice [simp]: "get_slice (fmupd k vs m) k = vs"
  by simp

section \<open>Properties\<close>

text \<open>C20. Generating the spec of a class that has devices for every key succeeds exactly when the
  class is a name the CDI library accepts in a version 0.5.0 spec, the keys are distinct and
  valid device names, every key has exactly one device, and the file can be written. Then
  one file is written: the spec lists the keys once each, in ascending numeric order. A
  failed call writes nothing.\<close>

theorem cdi_class_outcome:
  assumes "supportsIOMMUFD (h_stat h) = Inr b" and "keys \<noteq> []"
    and "\<And>k. k \<in> set keys \<Longrightarrow> get_slice (iommuMap g) k \<noteq> []"
    and "generateCDISpecForClass h g cls keys files = (r, files')"
  shows "(r = None \<longleftrightarrow> class_ok cls \<and> distinct keys \<and> h_write h (class_path cls) = None \<and>
      (\<forall>k \<in> set keys. ValidateDeviceName k = None \<and> length (get_slice (iommuMap g) k) = 1)) \<and>
    (r = None \<longrightarrow> files' = fmupd (class_path cls) (class_spec cls
       (map (\<lambda>k. cdi_device b k (hd (get_slice (iommuMap g) k))) (sort_keys keys))) files \<and>
       sorted (map key_number (sort_keys keys)) \<and> mset (sort_keys keys) = mset keys) \<and>
    (r \<noteq> None \<longrightarrow> files' = files)"
proof -
  have ok: "r = None \<longleftrightarrow> class_ok cls \<and> distinct keys \<and> h_write h (class_path cls) = None \<and>
      (\<forall>k \<in> set keys. ValidateDeviceName k = None \<and> length (get_slice (iommuMap g) k) = 1)"
    using generate_class_ok_iff [OF assms(1,3,2), of cls files] assms(4) by simp
  have "files' = fmupd (class_path cls) (class_spec cls
       (map (\<lambda>k. cdi_device b k (hd (get_slice (iommuMap g) k))) (sort_keys keys))) files" if "r = None"
  proof -
    have "\<forall>k \<in> set (sort_keys keys). length (get_slice (iommuMap g) k) = 1"
      using ok that by (simp add: key_sorter.srt_set)
    then show ?thesis
      using generate_class_written [OF assms(4) [unfolded that] assms(1,3,2)] by (simp add: cdi_devices_single)
  qed
  moreover have "files' = files" if "r \<noteq> None"
    using that assms(4) generate_class_failed by auto
  ultimately show ?thesis
    using ok by (simp add: key_sorter.srt_sorted key_sorter.srt_mset)
qed

lemma sample_names_ok: "class_ok ''pgpu''" "ValidateDeviceName ''1'' = None"
  unfolding class_ok_def valid_name_def by code_simp+

theorem cdi_class_outcome_witness:
  "fst (generateCDISpecForClass (sample_host has_iommufd) (sample_state ''pgpu'' [sample_dev]) ''pgpu'' [''1''] fmempty) = None"
proof -
  obtain r f where g: "generateCDISpecForClass (sample_host has_iommufd) (sample_state ''pgpu'' [sample_dev])
      ''pgpu'' [''1''] fmempty = (r, f)" by fastforce
  have "r = None"
    using cdi_class_outcome [OF _ _ _ g, of True] sample_names_ok by simp
  with g show ?thesis by simp
qed

text \<open>The number of a key is read back: for letters, possibly none, followed by the decimal form of
  a machine integer, the code finds that integer; and a key of letters only counts as zero.\<close>

theorem extractNumber_roundtrip:
  assumes "list_all is_letter p"
  shows "extractNumber (p @ Itoa n) = n \<and> extractNumber p = 0"
proof -
  have "TrimLeft (p @ Itoa n) is_letter = Itoa n" "TrimLeft p is_letter = []"
    using assms TrimLeft_Itoa [of n] by (simp_all add: TrimLeft_def list_all_iff dropWhile_append2)
  moreover have "Atoi [] = None" by (simp add: Atoi_def split_sign_def)
  ultimately show ?thesis by (simp add: extractNumber_def)
qed

theorem extractNumber_roundtrip_witness:
  "extractNumber (''vfio'' @ Itoa 10) = 10 \<and> extractNumber (Itoa (- 3)) = - 3"
  using extractNumber_roundtrip [of "''vfio''" 10] extractNumber_roundtrip [of "[]" "- 3"]
  by (simp add: is_letter_def is_lower_def)

text \<open>C35. For keys that are decimal texts of integers, the spec does not depend on the order in
  which the device map was ranged over: any permutation of the keys gives the same result
  and the same directory, so Go's random map order and unstable sort are not observable.\<close>

theorem cdi_order_free:
  assumes "\<forall>k \<in> set keys. numeric_key k" and "mset keys' = mset keys"
  shows "generateCDISpecForClass h g cls keys' files = generateCDISpecForClass h g cls keys files"
proof -
  have e: "sort_keys keys' = sort_keys keys"
    using key_sorter.srt_order_free [OF key_number_inj [OF assms(1)] assms(2)] .
  show ?thesis unfolding generateCDISpecForClass_def e ..
qed

theorem cdi_order_free_witness:
  "generateCDISpecForClass (sample_host has_iommufd) (sample_state ''pgpu'' [sample_dev]) ''pgpu'' [''10'', ''9''] fmempty =
   generateCDISpecForClass (sample_host has_iommufd) (sample_state ''pgpu'' [sample_dev]) ''pgpu'' [''9'', ''10''] fmempty"
proof -
  have "numeric_key ''9''" "numeric_key ''10''" by code_simp+
  then show ?thesis using cdi_order_free [of "[''9'', ''10'']" "[''10'', ''9'']"] by simp
qed

text \<open>C26. In alias mode (both aliases set and different), successful generation leaves exactly
  one CDI device for every discovered key, in the spec of its category, with the device
  nodes of the one device behind the key.\<close>

theorem alias_specs_cover_keys:
  assumes "wf_maps g" and "orders_ok g os" and "supportsIOMMUFD (h_stat h) = Inr b"
    and "PGPUAlias g \<noteq> []" and "NVSwitchAlias g \<noteq> []" and "PGPUAlias g \<noteq> NVSwitchAlias g"
    and "GenerateCDISpec h os g files = (None, files')" and "k \<in> fmdom' (iommuMap g)"
  shows "\<exists>dev s. fmlookup (iommuMap g) k = Some [dev] \<and>
    fmlookup files' (class_path (if isNVSwitchDeviceID g (key_type g k) then NVSwitchAlias g else PGPUAlias g)) = Some s \<and>
    filter (\<lambda>d. Name d = k) (Devices s) = [\<lparr>Name = k, Edits = \<lparr>DeviceNodes = cdi_nodes b k dev\<rparr>\<rparr>]"
proof -
  let ?js = "gpu_jobs g os @ switch_jobs g os"
  let ?c = "if isNVSwitchDeviceID g (key_type g k) then NVSwitchAlias g else PGPUAlias g"
  have ne: "iommuMap g \<noteq> fmempty" using assms(8) by auto
  note succ = GenerateCDISpec_success [OF assms(1-3) ne assms(7)]
  obtain keys where j: "(?c, keys) \<in> set ?js" "k \<in> set keys"
    using alias_job_in [OF assms(1,2,4,5,8)] by blast
  have one: "\<forall>k \<in> set keys. length (get_slice (iommuMap g) k) = 1" and d: "distinct keys"
    using succ(2) [OF j(1)] j(2) by blast+
  have "fmlookup files' (class_path ?c) = Some (job_spec b g (?c, keys))"
    using write_jobs_last [OF j(1)] alias_jobs_unique [OF assms(4-6) j(1)] by (simp add: succ(1))
  moreover obtain dev where "get_slice (iommuMap g) k = [dev]"
    using one j(2) by (auto simp: length_Suc_conv)
  moreover from this have "fmlookup (iommuMap g) k = Some [dev]"
    using assms(8) by auto
  ultimately show ?thesis
    using job_spec_device [OF d one j(2)] by (auto simp: cdi_device_def)
qed

theorem alias_specs_cover_keys_witness:
  "\<exists>s. fmlookup (snd (GenerateCDISpec (sample_host has_iommufd) (sample_orders [sample_dev])
       (sample_state ''pgpu'' [sample_dev]) fmempty)) (class_path ''pgpu'') = Some s \<and>
     filter (\<lambda>d. Name d = ''1'') (Devices s) =
       [\<lparr>Name = ''1'', Edits = \<lparr>DeviceNodes = cdi_nodes True ''1'' sample_dev\<rparr>\<rparr>]"
proof -
  let ?g = "sample_state ''pgpu'' [sample_dev]" let ?h = "sample_host has_iommufd"
  let ?os = "sample_orders [sample_dev]"
  let ?js = "gpu_jobs ?g ?os @ switch_jobs ?g ?os"
  have "?js = [(''pgpu'', [''1''])]"
    by (simp add: gpu_jobs_def switch_jobs_def alias_jobs_def keys_of_def sample_orders_def sample_state_def)
       (simp add: isNVSwitchDeviceID_def)
  then have "fst (run_jobs ?h ?g ?js fmempty) = None"
    using run_jobs_ok_iff [of ?h True ?js ?g fmempty] sample_names_ok by (simp add: job_ok_def)
  then have "fst (GenerateCDISpec ?h ?os ?g fmempty) = None"
    using GenerateCDISpec_jobs [of ?g ?h ?os fmempty] by (simp add: same_outcome_def)
  then obtain f where f: "GenerateCDISpec ?h ?os ?g fmempty = (None, f)"
    by (cases "GenerateCDISpec ?h ?os ?g fmempty") auto
  show ?thesis
    using alias_specs_cover_keys [OF sample_wf sample_orders_ok _ _ _ _ f, of True "''1''"] f by auto
qed

text \<open>C36. A GPU key that holds two devices (an IOMMU group shared by two GPUs, or the key
  collision of the IOMMUFD mode) makes the generation fail in alias mode, and no CDI spec is
  written at all, not even for the NVSwitches: the device list would name the key twice,
  which the CDI library refuses.\<close>

theorem shared_key_blocks_cdi:
  assumes "wf_maps g" and "orders_ok g os" and "PGPUAlias g \<noteq> []"
    and "fmlookup (iommuMap g) k = Some (x # y # zs)" and "\<not> isNVSwitchDeviceID g (key_type g k)"
  shows "\<exists>err. GenerateCDISpec h os g files = (Some err, files)"
proof -
  let ?keys = "keys_of g (\<lambda>d. \<not> isNVSwitchDeviceID g d) (o_gpu os)"
  have k: "k \<in> fmdom' (iommuMap g)" using assms(4) by simp
  note g = gpu_jobs_alias [OF assms(1-3) k assms(5)]
  have ne: "\<And>k. k \<in> set ?keys \<Longrightarrow> get_slice (iommuMap g) k \<noteq> []"
    using jobs_ok [OF assms(1,2)] by (simp add: g(1) job_ok_def)
  have "fst (generateCDISpecForClass h g (PGPUAlias g) ?keys files) \<noteq> None"
  proof (cases "supportsIOMMUFD (h_stat h)")
    case (Inl err)
    then show ?thesis by (simp add: generate_class_probe)
  next
    fix b assume b: "supportsIOMMUFD (h_stat h) = Inr b"
    have "\<not> length (get_slice (iommuMap g) k) = 1" and "?keys \<noteq> []"
      using assms(4) g(2) by auto
    then show ?thesis
      using generate_class_ok_iff [OF b ne, where cls = "PGPUAlias g" and files = files] g(2) by blast
  qed
  moreover have "iommuMap g \<noteq> fmempty" using k by auto
  ultimately show ?thesis by (intro GenerateCDISpec_first_fails [OF _ g(1)])
qed

theorem shared_key_blocks_cdi_witness:
  "\<exists>err. GenerateCDISpec (sample_host no_iommufd) (sample_orders [sample_dev, sample_dev\<lparr>Address := ''0000:01:00.1''\<rparr>])
     (sample_state ''pgpu'' [sample_dev, sample_dev\<lparr>Address := ''0000:01:00.1''\<rparr>]) fmempty = (Some err, fmempty)"
  using shared_key_blocks_cdi [OF sample_wf sample_orders_ok, of "[sample_dev, sample_dev\<lparr>Address := ''0000:01:00.1''\<rparr>]" "''pgpu''" "''1''"]
  by simp

text \<open>The version written into every spec, 0.5.0, rules out aliases with a dot: with such
  a GPU alias and a GPU present, no spec is ever written.\<close>

theorem dotted_alias_blocks_cdi:
  assumes "wf_maps g" and "orders_ok g os" and "CHR ''.'' \<in> set (PGPUAlias g)"
    and "k \<in> fmdom' (iommuMap g)" and "\<not> isNVSwitchDeviceID g (key_type g k)"
  shows "\<exists>err. GenerateCDISpec h os g files = (Some err, files)"
proof -
  let ?keys = "keys_of g (\<lambda>d. \<not> isNVSwitchDeviceID g d) (o_gpu os)"
  have a: "PGPUAlias g \<noteq> []" using assms(3) by auto
  note g = gpu_jobs_alias [OF assms(1,2) a assms(4,5)]
  have ne: "\<And>k. k \<in> set ?keys \<Longrightarrow> get_slice (iommuMap g) k \<noteq> []"
    using jobs_ok [OF assms(1,2)] by (simp add: g(1) job_ok_def)
  have "fst (generateCDISpecForClass h g (PGPUAlias g) ?keys files) \<noteq> None"
  proof (cases "supportsIOMMUFD (h_stat h)")
    case (Inl err)
    then show ?thesis by (simp add: generate_class_probe)
  next
    fix b assume b: "supportsIOMMUFD (h_stat h) = Inr b"
    have "?keys \<noteq> []" and "\<not> class_ok (PGPUAlias g)" using g(2) assms(3) by (auto simp: class_ok_def)
    then show ?thesis
      using generate_class_ok_iff [OF b ne, where cls = "PGPUAlias g" and files = files] by blast
  qed
  moreover have "iommuMap g \<noteq> fmempty" using assms(4) by auto
  ultimately show ?thesis by (intro GenerateCDISpec_first_fails [OF _ g(1)])
qed

theorem dotted_alias_blocks_cdi_witness:
  "\<exists>err. GenerateCDISpec (sample_host has_iommufd) (sample_orders [sample_dev])
     (sample_state ''gpu.h100'' [sample_dev]) fmempty = (Some err, fmempty)"
  using dotted_alias_blocks_cdi [OF sample_wf sample_orders_ok, of "[sample_dev]" "''gpu.h100''" "''1''"]
  by simp

text \<open>Without a GPU alias, two GPU device types whose names format to the same class (as
  several entries of the PCI database do) write the same file: the spec that remains does
  not offer the keys of both.\<close>

theorem same_name_types_lose_devices:
  assumes "wf_maps g" and "orders_ok g os" and "supportsIOMMUFD (h_stat h) = Inr b"
    and "PGPUAlias g = []" and "GenerateCDISpec h os g files = (None, files')"
    and "k1 \<in> fmdom' (iommuMap g)" and "k2 \<in> fmdom' (iommuMap g)"
    and "\<not> isNVSwitchDeviceID g (key_type g k1)" and "\<not> isNVSwitchDeviceID g (key_type g k2)"
    and "key_type g k1 \<noteq> key_type g k2"
    and "class_name g os (key_type g k1) = class_name g os (key_type g k2)"
  shows "\<exists>s. fmlookup files' (class_path (class_name g os (key_type g k1))) = Some s \<and>
    \<not> (k1 \<in> Name ` set (Devices s) \<and> k2 \<in> Name ` set (Devices s))"
proof -
  let ?js = "gpu_jobs g os @ switch_jobs g os" and ?c = "class_name g os (key_type g k1)"
  have ne: "iommuMap g \<noteq> fmempty" using assms(6) by auto
  note w = GenerateCDISpec_success(1) [OF assms(1-3) ne assms(5)]
  have ro: "range_order (deviceMap g) (o_gpu os)" "range_order (deviceMap g) (o_switch os)"
    using assms(2) by (simp_all add: orders_ok_def)
  have k1: "k1 \<in> set (get_slice (deviceMap g) (key_type g k1))"
    using wf_key_type [OF assms(1)] assms(6) by simp
  then have "key_type g k1 \<in> set (o_gpu os)"
    using range_order_mem [OF ro(1)] by (auto simp: in_get_slice)
  then have j1: "(?c, get_slice (deviceMap g) (key_type g k1)) \<in> set ?js"
    using assms(4,8) by (auto simp: gpu_jobs_def type_jobs_def)
  then obtain s where s: "fmlookup files' (class_path ?c) = Some s"
    using write_jobs_present w by (metis fst_conv)
  have "\<not> (k1 \<in> Name ` set (Devices s) \<and> k2 \<in> Name ` set (Devices s))"
  proof
    assume n: "k1 \<in> Name ` set (Devices s) \<and> k2 \<in> Name ` set (Devices s)"
    obtain j where j: "j \<in> set ?js" "s = job_spec b g j"
      using write_jobs_origin s j1 unfolding w by (metis fst_conv)
    then have m: "k1 \<in> set (snd j)" "k2 \<in> set (snd j)"
      using n names_job_spec [of b g "fst j" "snd j"] by auto
    have "j \<in> set (gpu_jobs g os)"
      using j(1) switch_job_keys [OF assms(1,2) _ m(1)] assms(8) by auto
    from gpu_type_job [OF assms(1,4) this m(1)] m(2) have "key_type g k2 = key_type g k1"
      using wf_key_type [OF assms(1)] by auto
    with assms(10) show False by simp
  qed
  with s show ?thesis by blast
qed

definition twin_dev :: "string \<Rightarrow> 16 word \<Rightarrow> NvidiaPCIDevice" where
  "twin_dev addr d = \<lparr>Address = addr, DeviceID = d, DeviceName = ''GH100'', IommuGroup = 1,
     IommuFD = ''vfio3'', IsSwitch = False\<rparr>"

definition twin_state :: globals where
  "twin_state = \<lparr>iommuMap = fmupd ''1'' [twin_dev ''0000:01:00.0'' 0x2302]
       (fmupd ''2'' [twin_dev ''0000:02:00.0'' 0x2343] fmempty),
     deviceMap = fmupd (hex4 0x2302) [''1''] (fmupd (hex4 0x2343) [''2''] fmempty),
     nvSwitchDeviceIDs = fmempty, PGPUAlias = [], NVSwitchAlias = ''nvswitch'', EnableGFD = False\<rparr>"

definition twin_orders :: range_orders where
  "twin_orders = \<lparr>o_gpu = [hex4 0x2302, hex4 0x2343], o_switch = [hex4 0x2302, hex4 0x2343],
     o_names = (\<lambda>_. [''1'', ''2''])\<rparr>"

lemma twin_wf: "wf_maps twin_state"
  by (auto simp: wf_maps_def twin_state_def twin_dev_def hex4_inj split: if_splits)

lemma twin_orders_ok: "orders_ok twin_state twin_orders"
  by (auto simp: orders_ok_def range_order_def twin_state_def twin_orders_def hex4_inj)

lemma twin_names:
  "class_name twin_state twin_orders (hex4 0x2302) = ''GH100''"
  "class_name twin_state twin_orders (hex4 0x2343) = ''GH100''"
proof -
  have "formatDeviceName ''GH100'' = ''GH100''" by code_simp
  then show "class_name twin_state twin_orders (hex4 0x2302) = ''GH100''"
    "class_name twin_state twin_orders (hex4 0x2343) = ''GH100''"
    by (simp_all add: class_name_def twin_state_def twin_orders_def twin_dev_def hex4_inj)
qed

lemma twin_success: "\<exists>f. GenerateCDISpec (sample_host has_iommufd) twin_orders twin_state fmempty = (None, f)"
proof -
  let ?js = "gpu_jobs twin_state twin_orders @ switch_jobs twin_state twin_orders"
  have n: "\<not> isNVSwitchDeviceID twin_state d" for d
    by (simp add: isNVSwitchDeviceID_def twin_state_def)
  have "PGPUAlias twin_state = []" "get_slice (deviceMap twin_state) (hex4 0x2302) = [''1'']"
    "get_slice (deviceMap twin_state) (hex4 0x2343) = [''2'']" "o_gpu twin_orders = [hex4 0x2302, hex4 0x2343]"
    by (simp_all add: twin_state_def twin_orders_def hex4_inj)
  then have "gpu_jobs twin_state twin_orders = [(''GH100'', [''1'']), (''GH100'', [''2''])]"
    using n twin_names by (simp add: gpu_jobs_def type_jobs_def)
  moreover have "switch_jobs twin_state twin_orders = []"
    using n by (simp add: switch_jobs_def alias_jobs_def type_jobs_def keys_of_def)
  moreover have "class_ok ''GH100''" unfolding class_ok_def valid_name_def by code_simp
  moreover have "ValidateDeviceName ''1'' = None" "ValidateDeviceName ''2'' = None" by code_simp+
  moreover have "get_slice (iommuMap twin_state) ''1'' = [twin_dev ''0000:01:00.0'' 0x2302]"
    "get_slice (iommuMap twin_state) ''2'' = [twin_dev ''0000:02:00.0'' 0x2343]"
    by (simp_all add: twin_state_def)
  ultimately have "fst (run_jobs (sample_host has_iommufd) twin_state ?js fmempty) = None"
    using run_jobs_ok_iff [of "sample_host has_iommufd" True ?js twin_state fmempty] by (simp add: job_ok_def)
  moreover have "iommuMap twin_state \<noteq> fmempty" by (simp add: twin_state_def)
  ultimately have "fst (GenerateCDISpec (sample_host has_iommufd) twin_orders twin_state fmempty) = None"
    using GenerateCDISpec_jobs [of twin_state "sample_host has_iommufd" twin_orders fmempty]
    by (simp add: same_outcome_def)
  then show ?thesis by (metis prod.collapse)
qed

theorem same_name_types_lose_devices_witness:
  "\<exists>f s. GenerateCDISpec (sample_host has_iommufd) twin_orders twin_state fmempty = (None, f) \<and>
     fmlookup f (class_path ''GH100'') = Some s \<and>
     \<not> (''1'' \<in> Name ` set (Devices s) \<and> ''2'' \<in> Name ` set (Devices s))"
proof -
  obtain f where f: "GenerateCDISpec (sample_host has_iommufd) twin_orders twin_state fmempty = (None, f)"
    using twin_success by blast
  have k: "key_type twin_state ''1'' = hex4 0x2302" "key_type twin_state ''2'' = hex4 0x2343"
    by (simp_all add: key_type_def twin_state_def twin_dev_def)
  have "PGPUAlias twin_state = []" "''1'' \<in> fmdom' (iommuMap twin_state)" "''2'' \<in> fmdom' (iommuMap twin_state)"
    "\<not> isNVSwitchDeviceID twin_state d" for d
    by (simp_all add: twin_state_def isNVSwitchDeviceID_def)
  then show ?thesis
    using same_name_types_lose_devices [OF twin_wf twin_orders_ok _ _ f, of True "''1''" "''2''"] f
    by (simp add: k twin_names hex4_inj)
qed

text \<open>Whatever the outcome, generation touches no file but those of the classes it
  generates, and a directory of valid specs stays one.\<close>

theorem cdi_directory_frame:
  assumes "GenerateCDISpec h os g files = (r, files')"
  shows "(dir_valid files \<longrightarrow> dir_valid files') \<and>
    (\<forall>p. p \<notin> class_path ` fst ` set (gpu_jobs g os @ switch_jobs g os) \<longrightarrow>
       fmlookup files' p = fmlookup files p)"
proof (cases "iommuMap g = fmempty \<or> h_mkdir h cdiRoot \<noteq> None")
  case True
  with assms have "files' = files"
    by (auto simp: GenerateCDISpec_def split: if_splits option.splits)
  then show ?thesis by simp
next
  case False
  then have "snd (run_jobs h g (gpu_jobs g os @ switch_jobs g os) files) = files'"
    using GenerateCDISpec_jobs [of g h os files] assms by (simp add: same_outcome_def)
  then show ?thesis
    using run_jobs_frame [of h g "gpu_jobs g os @ switch_jobs g os" files] by (metis prod.collapse)
qed

theorem cdi_directory_frame_witness:
  "\<exists>f. GenerateCDISpec (sample_host has_iommufd) twin_orders twin_state fmempty = (None, f) \<and> dir_valid f"
proof -
  obtain f where f: "GenerateCDISpec (sample_host has_iommufd) twin_orders twin_state fmempty = (None, f)"
    using twin_success by blast
  with cdi_directory_frame [OF f] show ?thesis by (simp add: dir_valid_def)
qed

end
