(* ===== verification/Allocate.thy ===== *)
theory Allocate
  imports Cdi
begin

text \<open>
  Device allocation (\<^verbatim>\<open>Allocate\<close> in pkg/device_plugin/generic_device_plugin.go): the device
  nodes a container gets for the IOMMU keys the kubelet asks for. Only the IOMMU map and the
  probe of /dev/iommu are read; nothing is written.
\<close>

record DeviceSpec =
  HostPath :: string
  ContainerPath :: string
  Permissions :: string

definition node_spec :: "string \<Rightarrow> DeviceSpec" where
  "node_spec p = \<lparr>HostPath = p, ContainerPath = p, Permissions = ''mrw''\<rparr>"

text \<open>A container request is its \<^verbatim>\<open>DevicesIDs\<close>, a container response its \<^verbatim>\<open>Devices\<close>.\<close>

fun allocate_fds :: "NvidiaPCIDevice list \<Rightarrow> DeviceSpec list \<Rightarrow> DeviceSpec list result" where
  "allocate_fds [] deviceSpecs = Inr deviceSpecs"
| "allocate_fds (dev # nvDevs) deviceSpecs =
     (if IommuFD dev = [] then Inl (Errorf (''iommufd device not available for device '' @ Address dev))
      else allocate_fds nvDevs
             (deviceSpecs @ [node_spec (Join [vfioDevicePath, ''devices'', IommuFD dev])]))"

fun allocate_ids ::
    "bool \<Rightarrow> (string, NvidiaPCIDevice list) fmap \<Rightarrow> string list \<Rightarrow> DeviceSpec list \<Rightarrow> DeviceSpec list result" where
  "allocate_ids iommufdSupported m [] deviceSpecs = Inr deviceSpecs"
| "allocate_ids iommufdSupported m (iommuID # ids) deviceSpecs =
     (case fmlookup m iommuID of
        None \<Rightarrow> Inl (Errorf (''invalid allocation request: unknown iommu id: '' @ iommuID))
      | Some nvDevs \<Rightarrow>
          if iommufdSupported
          then (case allocate_fds nvDevs deviceSpecs of
                  Inl err \<Rightarrow> Inl err
                | Inr specs \<Rightarrow> allocate_ids iommufdSupported m ids specs)
          else allocate_ids iommufdSupported m ids
                 (deviceSpecs @ [node_spec (Join [vfioDevicePath, ''vfio'']),
                                 node_spec (Join [vfioDevicePath, iommuID])]))"

fun allocate_requests ::
    "bool \<Rightarrow> (string, NvidiaPCIDevice list) fmap \<Rightarrow> string list list \<Rightarrow> DeviceSpec list list \<Rightarrow>
       DeviceSpec list list result" where
  "allocate_requests iommufdSupported m [] responses = Inr responses"
| "allocate_requests iommufdSupported m (req # reqs) responses =
     (case allocate_ids iommufdSupported m req [] of
        Inl err \<Rightarrow> Inl err
      | Inr deviceSpecs \<Rightarrow> allocate_requests iommufdSupported m reqs (responses @ [deviceSpecs]))"

definition getIommuMap :: "globals \<Rightarrow> (string, NvidiaPCIDevice list) fmap" where
  "getIommuMap g = iommuMap g"

definition Allocate :: "stat_fn \<Rightarrow> globals \<Rightarrow> string list list \<Rightarrow> DeviceSpec list list result" where
  "Allocate stat g reqs = (case supportsIOMMUFD stat of
      Inl err \<Rightarrow> Inl (Wrapf ''could not determine iommufd support'' err)
    | Inr iommufdSupported \<Rightarrow> allocate_requests iommufdSupported (getIommuMap g) reqs [])"

section \<open>What an allocation gives\<close>

text \<open>The abstract specification: the nodes of one key, and when a key can be allocated.\<close>

definition key_nodes :: "bool \<Rightarrow> (string, NvidiaPCIDevice list) fmap \<Rightarrow> string \<Rightarrow> string list" where
  "key_nodes b m k =
     (if b then map (\<lambda>dev. Join [vfioDevicePath, ''devices'', IommuFD dev]) (get_slice m k)
      else [Join [vfioDevicePath, ''vfio''], Join [vfioDevicePath, k]])"

definition allocatable :: "bool \<Rightarrow> (string, NvidiaPCIDevice list) fmap \<Rightarrow> string \<Rightarrow> bool" where
  "allocatable b m k \<longleftrightarrow> (case fmlookup m k of None \<Rightarrow> False
     | Some devs \<Rightarrow> b \<longrightarrow> list_all (\<lambda>dev. IommuFD dev \<noteq> []) devs)"

definition response :: "bool \<Rightarrow> (string, NvidiaPCIDevice list) fmap \<Rightarrow> string list \<Rightarrow> DeviceSpec list" where
  "response b m ids = map node_spec (concat (map (key_nodes b m) ids))"

lemma allocate_fds_ok:
  "list_all (\<lambda>dev. IommuFD dev \<noteq> []) devs \<Longrightarrow> allocate_fds devs specs =
     Inr (specs @ map (\<lambda>dev. node_spec (Join [vfioDevicePath, ''devices'', IommuFD dev])) devs)"
  by (induction devs arbitrary: specs) simp_all

lemma allocate_fds_error:
  "\<not> list_all (\<lambda>dev. IommuFD dev \<noteq> []) devs \<Longrightarrow> \<exists>err. allocate_fds devs specs = Inl err"
  by (induction devs arbitrary: specs) auto

lemma allocate_ids_ok:
  "list_all (allocatable b m) ids \<Longrightarrow> allocate_ids b m ids specs = Inr (specs @ response b m ids)"
  by (induction ids arbitrary: specs)
     (auto simp: allocatable_def response_def key_nodes_def allocate_fds_ok comp_def split: option.splits)

lemma allocate_ids_error:
  "\<not> list_all (allocatable b m) ids \<Longrightarrow> \<exists>err. allocate_ids b m ids specs = Inl err"
proof (induction ids arbitrary: specs)
  case (Cons k ids)
  show ?case
  proof (cases "allocatable b m k")
    case True
    then obtain devs where d: "fmlookup m k = Some devs" "b \<longrightarrow> list_all (\<lambda>dev. IommuFD dev \<noteq> []) devs"
      by (auto simp: allocatable_def split: option.splits)
    from True Cons have "\<And>specs. \<exists>err. allocate_ids b m ids specs = Inl err" by simp
    with d show ?thesis by (cases b) (simp_all add: allocate_fds_ok)
  next
    case False
    show ?thesis
    proof (cases "fmlookup m k")
      case (Some devs)
      with False have b: "b" and "\<not> list_all (\<lambda>dev. IommuFD dev \<noteq> []) devs"
        by (auto simp: allocatable_def)
      with allocate_fds_error [of devs specs] obtain err where "allocate_fds devs specs = Inl err" by blast
      with Some b show ?thesis by simp
    qed simp
  qed
qed simp

lemma allocate_requests_ok:
  "\<forall>req \<in> set reqs. list_all (allocatable b m) req \<Longrightarrow>
     allocate_requests b m reqs rs = Inr (rs @ map (response b m) reqs)"
  by (induction reqs arbitrary: rs) (simp_all add: allocate_ids_ok)

lemma allocate_requests_error:
  "\<not> (\<forall>req \<in> set reqs. list_all (allocatable b m) req) \<Longrightarrow> \<exists>err. allocate_requests b m reqs rs = Inl err"
proof (induction reqs arbitrary: rs)
  case (Cons req reqs)
  then show ?case
    using allocate_ids_error [of b m req "[]"] by (cases "list_all (allocatable b m) req") (auto simp: allocate_ids_ok)
qed simp

lemma Allocate_cases:
  assumes "supportsIOMMUFD stat = Inr b"
  shows "Allocate stat g reqs =
      Inr (map (response b (iommuMap g)) reqs) \<and> (\<forall>req \<in> set reqs. list_all (allocatable b (iommuMap g)) req) \<or>
    (\<exists>err. Allocate stat g reqs = Inl err) \<and> \<not> (\<forall>req \<in> set reqs. list_all (allocatable b (iommuMap g)) req)"
proof (cases "\<forall>req \<in> set reqs. list_all (allocatable b (iommuMap g)) req")
  case True
  with assms show ?thesis by (simp add: Allocate_def getIommuMap_def allocate_requests_ok)
next
  case False
  with assms show ?thesis
    using allocate_requests_error [OF False, of "[]"] by (simp add: Allocate_def getIommuMap_def)
qed

lemma Allocate_Inr:
  assumes "Allocate stat g reqs = Inr rs"
  shows "\<exists>b. supportsIOMMUFD stat = Inr b \<and> rs = map (response b (iommuMap g)) reqs \<and>
    (\<forall>req \<in> set reqs. list_all (allocatable b (iommuMap g)) req)"
proof (cases "supportsIOMMUFD stat")
  case (Inl err)
  with assms show ?thesis by (simp add: Allocate_def)
next
  case (Inr b)
  with Allocate_cases [OF Inr, of g reqs] assms show ?thesis by auto
qed

section \<open>Paths\<close>

lemma vfio_rooted: "vfioDevicePath = rooted [''dev'', ''vfio'']"
  by (simp add: vfioDevicePath_def rooted_def)

lemma Join_vfio: "simple_name k \<Longrightarrow> Join [vfioDevicePath, k] = ''/dev/vfio/'' @ k"
proof -
  assume k: "simple_name k"
  then have "Join [vfioDevicePath, k] = rooted ([''dev'', ''vfio''] @ [k])"
    unfolding vfio_rooted by (intro Join_rooted) (auto simp: simple_name_def)
  then show ?thesis by (simp add: rooted_def)
qed

lemma Join_vfio_devices: "simple_name k \<Longrightarrow> Join [vfioDevicePath, ''devices'', k] = ''/dev/vfio/devices/'' @ k"
proof -
  assume k: "simple_name k"
  then have "Join [vfioDevicePath, ''devices'', k] = rooted ([''dev'', ''vfio''] @ [''devices'', k])"
    unfolding vfio_rooted by (intro Join_rooted) (auto simp: simple_name_def)
  then show ?thesis by (simp add: rooted_def)
qed

lemma Join_vfio_vfio: "Join [vfioDevicePath, ''vfio''] = ''/dev/vfio/vfio''"
  by (subst Join_vfio) (simp_all add: simple_name_def)

section \<open>Isolation\<close>

text \<open>
  What a provider of device nodes promises: the nodes of a key are its control nodes, which
  every key may share, and nodes that no other key has.
\<close>

locale node_provider =
  fixes nodes :: "string \<Rightarrow> string list" and shared :: "string list" and K :: "string \<Rightarrow> bool"
  assumes nodes_private: "K k \<Longrightarrow> K k' \<Longrightarrow> k \<noteq> k' \<Longrightarrow> p \<in> set (nodes k) \<Longrightarrow> p \<in> set (nodes k') \<Longrightarrow> p \<in> set shared"
begin

lemma disjoint_requests:
  assumes "\<forall>k \<in> set ids. K k" and "\<forall>k \<in> set ids'. K k" and "set ids \<inter> set ids' = {}"
  shows "set (concat (map nodes ids)) \<inter> set (concat (map nodes ids')) \<subseteq> set shared"
proof
  fix p assume "p \<in> set (concat (map nodes ids)) \<inter> set (concat (map nodes ids'))"
  then obtain k k' where k: "k \<in> set ids" "p \<in> set (nodes k)" and k': "k' \<in> set ids'" "p \<in> set (nodes k')"
    by auto
  then have "k \<noteq> k'" using assms(3) by auto
  then show "p \<in> set shared" using nodes_private k k' assms(1,2) by blast
qed

end

text \<open>Without IOMMUFD the nodes of a key are the VFIO control node and the group node.\<close>

lemma key_nodes_legacy: "simple_name k \<Longrightarrow> key_nodes False m k = [''/dev/vfio/vfio'', ''/dev/vfio/'' @ k]"
  by (simp add: key_nodes_def Join_vfio Join_vfio_vfio)

interpretation legacy_nodes: node_provider "key_nodes False m" "[''/dev/vfio/vfio'']" simple_name
  by unfold_locales (auto simp: key_nodes_legacy)

text \<open>With IOMMUFD, on maps in which the devices of a key have the handle vfio<key>.\<close>

definition fd_keyed :: "(string, NvidiaPCIDevice list) fmap \<Rightarrow> string \<Rightarrow> bool" where
  "fd_keyed m k \<longleftrightarrow> simple_name (''vfio'' @ k) \<and> (\<forall>dev \<in> set (get_slice m k). IommuFD dev = ''vfio'' @ k)"

lemma key_nodes_fd:
  "fd_keyed m k \<Longrightarrow> p \<in> set (key_nodes True m k) \<Longrightarrow> p = ''/dev/vfio/devices/vfio'' @ k"
  by (auto simp: key_nodes_def fd_keyed_def) (use Join_vfio_devices in force)

interpretation fd_nodes: node_provider "key_nodes True m" "[]" "fd_keyed m"
  by unfold_locales (metis key_nodes_fd append_same_eq same_append_eq)

text \<open>The IOMMU map discovery builds from devices that all have handles.\<close>

lemma discovered_fd_keyed:
  assumes "supportsIOMMUFD stat = Inr True"
    and "\<forall>d \<in> set devs. eligible d \<longrightarrow> HasPrefix (pci_IommuFD d) ''vfio'' \<and> simple_name (pci_IommuFD d)"
    and "k \<in> fmdom' (iommuMap (createIommuDeviceMap stat (Inr devs) g))"
  shows "fd_keyed (iommuMap (createIommuDeviceMap stat (Inr devs) g)) k"
proof -
  let ?m = "iommuMap (createIommuDeviceMap stat (Inr devs) g)"
  have s: "get_slice ?m k = members True devs k"
    using create_spec(1) [OF assms(1)] by (rule get_slice_slice_opt)
  have "IommuFD v = ''vfio'' @ k \<and> simple_name (''vfio'' @ k)" if "v \<in> set (members True devs k)" for v
  proof -
    from that obtain x where x: "x \<in> set devs" "eligible x" "iommu_key True x = k" "v = to_nv x"
      by (auto simp: in_members)
    with assms(2) obtain r where "pci_IommuFD x = ''vfio'' @ r" "simple_name (pci_IommuFD x)"
      by (auto simp: HasPrefix_iff)
    with x show ?thesis by (auto simp: iommu_key_def to_nv_def TrimPrefix_def)
  qed
  moreover have "members True devs k \<noteq> []"
    using assms(3) by (auto simp: create_spec(1) [OF assms(1)])
  ultimately show ?thesis
    unfolding fd_keyed_def s by (metis hd_in_set)
qed

lemma discovered_legacy_simple:
  assumes "supportsIOMMUFD stat = Inr False"
    and "k \<in> fmdom' (iommuMap (createIommuDeviceMap stat (Inr devs) g))"
  shows "\<exists>n. k = Itoa n"
proof -
  have "members False devs k \<noteq> []"
    using assms(2) by (auto simp: create_spec(1) [OF assms(1)])
  then show ?thesis
    by (auto simp: members_def filter_empty_conv iommu_key_legacy)
qed

text \<open>The first thing that cannot be allocated decides the error.\<close>

lemma allocate_requests_stop:
  assumes "\<forall>req \<in> set pre. list_all (allocatable b m) req" and "list_all (allocatable b m) ids"
    and "\<And>specs. allocate_ids b m (k # ids') specs = Inl err"
  shows "allocate_requests b m (pre @ (ids @ k # ids') # post) rs = Inl err"
proof -
  have ids: "allocate_ids b m (ids @ k # ids') specs = Inl err" for specs
    using assms(2)
  proof (induction ids arbitrary: specs)
    case Nil
    then show ?case using assms(3) by simp
  next
    case (Cons i ids)
    then have "\<exists>s. allocate_ids b m [i] specs = Inr s" using allocate_ids_ok [of b m "[i]"] by simp
    then show ?case using Cons by (auto split: option.splits sum.splits)
  qed
  show ?thesis
    using assms(1)
  proof (induction pre arbitrary: rs)
    case Nil
    show ?case by (simp add: ids del: allocate_ids.simps)
  next
    case (Cons req pre)
    then show ?case by (simp add: allocate_ids_ok)
  qed
qed

lemma allocate_fds_stop:
  "list_all (\<lambda>dev. IommuFD dev \<noteq> []) ds \<Longrightarrow> IommuFD dev = [] \<Longrightarrow>
     allocate_fds (ds @ dev # ds') specs = Inl (Errorf (''iommufd device not available for device '' @ Address dev))"
  by (induction ds arbitrary: specs) simp_all

section \<open>Properties\<close>

text \<open>C10. Allocation succeeds exactly when every requested key is known and, with IOMMUFD, all
  its devices have a handle; then there is one response per container request, in order,
  holding the nodes of its keys in order, each mapped to the same path in the container with
  read, write and mknod permission. It is all or nothing.\<close>

theorem allocate_outcome:
  assumes "supportsIOMMUFD stat = Inr b"
  shows "Allocate stat g reqs = Inr rs \<longleftrightarrow>
    (\<forall>req \<in> set reqs. \<forall>k \<in> set req. allocatable b (iommuMap g) k) \<and>
    rs = map (\<lambda>req. map (\<lambda>p. \<lparr>HostPath = p, ContainerPath = p, Permissions = ''mrw''\<rparr>)
      (concat (map (key_nodes b (iommuMap g)) req))) reqs"
  using Allocate_cases [OF assms, of g reqs]
  by (auto simp: response_def node_spec_def list_all_iff)

definition sample_reqs_state :: globals where
  "sample_reqs_state = init_globals\<lparr>iommuMap :=
     fmupd ''1'' [to_nv (sample_gpu ''0000:01:00.0'' 0x1b80 1 ''vfio3'')]
       (fmupd ''3'' [to_nv (sample_gpu ''0000:03:00.0'' 0x1b82 3 [])] fmempty)\<rparr>"

lemma sample_reqs_simps [simp]:
  "fmlookup (iommuMap sample_reqs_state) ''1'' = Some [to_nv (sample_gpu ''0000:01:00.0'' 0x1b80 1 ''vfio3'')]"
  "fmlookup (iommuMap sample_reqs_state) ''3'' = Some [to_nv (sample_gpu ''0000:03:00.0'' 0x1b82 3 [])]"
  "fmlookup (iommuMap sample_reqs_state) ''4'' = None"
  "IommuFD (to_nv d) = pci_IommuFD d" "Address (to_nv d) = pci_Address d"
  by (simp_all add: sample_reqs_state_def to_nv_def)

theorem allocate_outcome_witness:
  "Allocate no_iommufd sample_reqs_state [[''1'']] = Inr [[node_spec ''/dev/vfio/vfio'', node_spec ''/dev/vfio/1'']]"
proof -
  have "key_nodes False (iommuMap sample_reqs_state) ''1'' = [''/dev/vfio/vfio'', ''/dev/vfio/1'']"
    by (simp add: key_nodes_legacy simple_name_def)
  then show ?thesis
    using allocate_outcome [OF probe_samples(1), of sample_reqs_state "[[''1'']]"]
    by (simp add: allocatable_def node_spec_def)
qed

text \<open>A refused allocation names its first cause: a failing probe is wrapped, an unknown
  key is named, and with IOMMUFD the first device without a handle is named. Nothing that
  follows the cause is looked at.\<close>

theorem allocate_first_error:
  assumes "supportsIOMMUFD stat = Inr b"
    and "\<forall>req \<in> set pre. list_all (allocatable b (iommuMap g)) req"
    and "list_all (allocatable b (iommuMap g)) ids"
  shows "(fmlookup (iommuMap g) k = None \<longrightarrow>
      Allocate stat g (pre @ (ids @ k # ids') # post) =
        Inl (Errorf (''invalid allocation request: unknown iommu id: '' @ k))) \<and>
    (b \<and> fmlookup (iommuMap g) k = Some (ds @ dev # ds') \<and>
      list_all (\<lambda>dev. IommuFD dev \<noteq> []) ds \<and> IommuFD dev = [] \<longrightarrow>
      Allocate stat g (pre @ (ids @ k # ids') # post) =
        Inl (Errorf (''iommufd device not available for device '' @ Address dev))) \<and>
    (supportsIOMMUFD stat' = Inl err \<longrightarrow>
      Allocate stat' g reqs = Inl (Wrapf ''could not determine iommufd support'' err))"
  using assms allocate_requests_stop [OF assms(2,3), of k ids' _ post "[]"]
  by (auto simp: Allocate_def getIommuMap_def allocate_fds_stop)

theorem allocate_first_error_witness:
  "Allocate no_iommufd sample_reqs_state [[''4'']] = Inl (Errorf (''invalid allocation request: unknown iommu id: '' @ ''4'')) \<and>
   Allocate has_iommufd sample_reqs_state [[''1''], [''3'', ''4'']] =
     Inl (Errorf (''iommufd device not available for device '' @ ''0000:03:00.0''))"
proof
  show "Allocate no_iommufd sample_reqs_state [[''4'']] = Inl (Errorf (''invalid allocation request: unknown iommu id: '' @ ''4''))"
    using allocate_first_error [OF probe_samples(1), of "[]" sample_reqs_state "[]" "''4''" "[]" "[]"] by simp
  have a: "allocatable True (iommuMap sample_reqs_state) ''1''" by (simp add: allocatable_def)
  have "pci_Address (sample_gpu ''0000:03:00.0'' 0x1b82 3 []) = ''0000:03:00.0''" by (simp add: sample_gpu_def)
  then show "Allocate has_iommufd sample_reqs_state [[''1''], [''3'', ''4'']] =
      Inl (Errorf (''iommufd device not available for device '' @ ''0000:03:00.0''))"
    using allocate_first_error [OF probe_samples(2), of "[[''1'']]" sample_reqs_state "[]" "''3''" "[''4'']" "[]"
        "[]" "to_nv (sample_gpu ''0000:03:00.0'' 0x1b82 3 [])" "[]"] a
    by simp
qed

text \<open>C19. Isolation: after discovery, containers given disjoint sets of keys share no device
  node but the VFIO control node, without IOMMUFD; with IOMMUFD, where the handles are file
  names vfio<N>, they share none.\<close>

theorem allocation_isolation:
  assumes "supportsIOMMUFD stat = Inr b" and "g' = createIommuDeviceMap stat (Inr devs) g"
    and "b \<longrightarrow> (\<forall>d \<in> set devs. eligible d \<longrightarrow>
      HasPrefix (pci_IommuFD d) ''vfio'' \<and> simple_name (pci_IommuFD d))"
    and "Allocate stat g' [ids, ids'] = Inr [resp, resp']" and "set ids \<inter> set ids' = {}"
  shows "HostPath ` set resp \<inter> HostPath ` set resp' \<subseteq> (if b then {} else {''/dev/vfio/vfio''})"
proof -
  have al: "\<forall>k \<in> set ids \<union> set ids'. allocatable b (iommuMap g') k"
    and r: "resp = response b (iommuMap g') ids" "resp' = response b (iommuMap g') ids'"
    using Allocate_Inr [OF assms(4)] assms(1) by (auto simp: list_all_iff)
  then have dom: "\<forall>k \<in> set ids \<union> set ids'. k \<in> fmdom' (iommuMap g')"
    by (auto simp: allocatable_def split: option.splits)
  have h: "HostPath ` set (response b m xs) = set (concat (map (key_nodes b m) xs))" for m xs
    by (force simp: response_def node_spec_def)
  show ?thesis
  proof (cases b)
    case True
    then have "\<forall>k \<in> set ids \<union> set ids'. fd_keyed (iommuMap g') k"
      using discovered_fd_keyed [of stat devs _ g] assms(1,2,3) dom by simp
    then show ?thesis
      using fd_nodes.disjoint_requests [of ids "iommuMap g'" ids'] assms(5) True unfolding r h by simp
  next
    case False
    then have "\<forall>k \<in> set ids \<union> set ids'. simple_name k"
      using discovered_legacy_simple [of stat _ devs g] assms(1,2) dom simple_Itoa by fastforce
    then show ?thesis
      using legacy_nodes.disjoint_requests [of ids ids' "iommuMap g'"] assms(5) False unfolding r h by simp
  qed
qed

theorem allocation_isolation_witness:
  "HostPath ` set [node_spec ''/dev/vfio/vfio'', node_spec ''/dev/vfio/1''] \<inter>
   HostPath ` set [node_spec ''/dev/vfio/vfio'', node_spec ''/dev/vfio/3''] \<subseteq> {''/dev/vfio/vfio''}"
proof -
  let ?g = "createIommuDeviceMap no_iommufd (Inr two_gpus) init_globals"
  have i: "Itoa 1 = ''1''" "Itoa 3 = ''3''" by code_simp+
  have "allocatable False (iommuMap ?g) ''1''" "allocatable False (iommuMap ?g) ''3''"
    by (simp_all add: allocatable_def create_spec(1) [OF probe_samples(1)] slice_opt_def members_def
        two_gpus_def iommu_key_legacy i)
  then have "Allocate no_iommufd ?g [[''1''], [''3'']] =
      Inr [[node_spec ''/dev/vfio/vfio'', node_spec ''/dev/vfio/1''],
           [node_spec ''/dev/vfio/vfio'', node_spec ''/dev/vfio/3'']]"
    using Allocate_cases [OF probe_samples(1), of ?g "[[''1''], [''3'']]"]
    by (auto simp: response_def key_nodes_legacy simple_name_def)
  then show ?thesis
    using allocation_isolation [OF probe_samples(1) refl, of two_gpus init_globals "[''1'']" "[''3'']"] by simp
qed

text \<open>C27. The two ways into a container agree: for a key with one device (with a handle, where
  IOMMUFD is on), the host paths of an allocation are the device nodes of the key in the CDI
  spec, in the same order.\<close>

theorem allocate_agrees_with_cdi:
  assumes "Allocate stat g [[k]] = Inr [resp]" and "supportsIOMMUFD stat = Inr b"
    and "fmlookup (iommuMap g) k = Some [dev]"
  shows "map HostPath resp = map Path (DeviceNodes (Edits (cdi_device b k dev)))"
proof -
  have "allocatable b (iommuMap g) k" and "resp = response b (iommuMap g) [k]"
    using Allocate_Inr [OF assms(1)] assms(2) by auto
  then show ?thesis
    using assms(3)
    by (auto simp: response_def key_nodes_def cdi_device_def cdi_nodes_def node_spec_def allocatable_def)
qed

theorem allocate_agrees_with_cdi_witness:
  "\<exists>resp. Allocate has_iommufd sample_reqs_state [[''1'']] = Inr [resp] \<and>
     map HostPath resp = map Path (DeviceNodes (Edits (cdi_device True ''1'' (to_nv (sample_gpu ''0000:01:00.0'' 0x1b80 1 ''vfio3'')))))"
proof -
  have "Allocate has_iommufd sample_reqs_state [[''1'']] = Inr [response True (iommuMap sample_reqs_state) [''1'']]"
    using Allocate_cases [OF probe_samples(2), of sample_reqs_state "[[''1'']]"] by (auto simp: allocatable_def)
  with allocate_agrees_with_cdi [OF this probe_samples(2)] show ?thesis by simp
qed

end
