(* ===== verification/Plugin.thy ===== *)
theory Plugin
  imports Discovery
begin

text \<open>
  One device plugin server (pkg/device_plugin/generic_device_plugin.go): the struct, its
  construction, and \<^verbatim>\<open>Start\<close>, \<^verbatim>\<open>Stop\<close>, \<^verbatim>\<open>restart\<close> and \<^verbatim>\<open>Register\<close>.

  What these functions do to the host is recorded as a list of effects, oldest first. The
  environment answers an effect, after the effects before it, with an error or \<open>None\<close>;
  it is an argument, so a theorem for every environment covers every pattern of failures.
\<close>

section \<open>State\<close>

text \<open>\<^verbatim>\<open>pluginapi.Device\<close>, whose \<^verbatim>\<open>Topology\<close> is never set, and its health values.\<close>

record plugin_device =
  ID :: string
  Health :: string

definition Healthy :: string where "Healthy = ''Healthy''"
definition Unhealthy :: string where "Unhealthy = ''Unhealthy''"
definition DevicePluginPath :: string where "DevicePluginPath = ''/var/lib/kubelet/device-plugins/''"
definition KubeletSocket :: string where "KubeletSocket = DevicePluginPath @ ''kubelet.sock''"
definition plugin_api_version :: string where "plugin_api_version = ''v1beta1''"

text \<open>
  The stop channels: nil before \<^verbatim>\<open>Start\<close>, the package's \<^verbatim>\<open>stop\<close>, or one made by
  \<^verbatim>\<open>restart\<close>, told apart by the number of effects before it was made.
\<close>

datatype stop_chan = Nil_chan | Global_stop | Fresh_stop nat

text \<open>
  The struct. \<open>server\<close> says that the pointer is not nil; \<open>term_buf\<close> is the content of the
  channel \<^verbatim>\<open>term\<close>, of capacity 1. The channels \<^verbatim>\<open>healthy\<close> and \<^verbatim>\<open>unhealthy\<close> are
  unbuffered and so have no content.
\<close>

record GenericDevicePlugin =
  devs :: "plugin_device list"
  server :: bool
  socketPath :: string
  stop_ch :: stop_chan
  term_buf :: "bool list"
  devicePath :: string
  deviceName :: string
  devsHealth :: "plugin_device list"

definition term_capacity :: nat where "term_capacity = 1"

definition NewGenericDevicePlugin :: "string \<Rightarrow> string \<Rightarrow> plugin_device list \<Rightarrow> GenericDevicePlugin" where
  "NewGenericDevicePlugin name path devices =
     \<lparr>devs = devices, server = False, socketPath = DevicePluginPath @ ''sandbox-'' @ name @ ''.sock'',
      stop_ch = Nil_chan, term_buf = [], devicePath = path, deviceName = name, devsHealth = []\<rparr>"

record RegisterRequest =
  req_Version :: string
  Endpoint :: string
  ResourceName :: string

datatype effect =
    RemoveFile string
  | ListenUnix string
  | GoServe string
  | DialUnix string
  | CloseConn string
  | CallRegister RegisterRequest
  | GoHealthCheck
  | SendTerm
  | ServerStop

type_synonym environment = "effect list \<Rightarrow> effect \<Rightarrow> go_error option"
type_synonym plugin_state = "GenericDevicePlugin \<times> effect list"

section \<open>Operations\<close>

definition connect :: "environment \<Rightarrow> string \<Rightarrow> effect list \<Rightarrow> go_error option \<times> effect list" where
  "connect env path tr = (env tr (DialUnix path), tr @ [DialUnix path])"

definition waitForGrpcServer :: "environment \<Rightarrow> string \<Rightarrow> effect list \<Rightarrow> go_error option \<times> effect list" where
  "waitForGrpcServer env path tr = (case connect env path tr of
      (Some err, tr1) \<Rightarrow> (Some err, tr1)
    | (None, tr1) \<Rightarrow> (None, tr1 @ [CloseConn path]))"

definition cleanup :: "environment \<Rightarrow> GenericDevicePlugin \<Rightarrow> effect list \<Rightarrow> go_error option \<times> effect list" where
  "cleanup env dpi tr =
     (case env tr (RemoveFile (socketPath dpi)) of
        Some err \<Rightarrow> if \<not> is_not_exist err then Some err else None
      | None \<Rightarrow> None,
      tr @ [RemoveFile (socketPath dpi)])"

definition register_request :: "GenericDevicePlugin \<Rightarrow> RegisterRequest" where
  "register_request dpi = \<lparr>req_Version = plugin_api_version, Endpoint = Base (socketPath dpi),
     ResourceName = DeviceNamespace @ ''/'' @ deviceName dpi\<rparr>"

text \<open>The deferred \<^verbatim>\<open>conn.Close()\<close> runs on both outcomes of the call.\<close>

definition Register :: "environment \<Rightarrow> GenericDevicePlugin \<Rightarrow> effect list \<Rightarrow> go_error option \<times> effect list" where
  "Register env dpi tr = (case connect env KubeletSocket tr of
      (Some err, tr1) \<Rightarrow> (Some err, tr1)
    | (None, tr1) \<Rightarrow>
        let reqt = register_request dpi
        in (env tr1 (CallRegister reqt), tr1 @ [CallRegister reqt, CloseConn KubeletSocket]))"

definition Start :: "environment \<Rightarrow> stop_chan \<Rightarrow> plugin_state \<Rightarrow> go_error option \<times> plugin_state" where
  "Start env ch st = (case st of (dpi, tr) \<Rightarrow>
     if server dpi then (Some (Errorf ''gRPC server already started''), dpi, tr)
     else
       let dpi1 = dpi\<lparr>stop_ch := ch\<rparr>
       in (case cleanup env dpi1 tr of
             (Some err, tr1) \<Rightarrow> (Some err, dpi1, tr1)
           | (None, tr1) \<Rightarrow>
               (case env tr1 (ListenUnix (socketPath dpi1)) of
                  Some err \<Rightarrow> (Some err, dpi1, tr1 @ [ListenUnix (socketPath dpi1)])
                | None \<Rightarrow>
                    let dpi2 = dpi1\<lparr>server := True\<rparr>;
                        tr2 = tr1 @ [ListenUnix (socketPath dpi1), GoServe (socketPath dpi1)];
                        tr3 = snd (waitForGrpcServer env (socketPath dpi2) tr2)
                    in (case Register env dpi2 tr3 of
                          (Some err, tr4) \<Rightarrow> (Some err, dpi2, tr4)
                        | (None, tr4) \<Rightarrow> (None, dpi2, tr4 @ [GoHealthCheck])))))"

text \<open>\<open>None\<close>: the send on \<^verbatim>\<open>term\<close> finds the buffer full and blocks.\<close>

definition Stop :: "environment \<Rightarrow> plugin_state \<Rightarrow> (go_error option \<times> plugin_state) option" where
  "Stop env st = (case st of (dpi, tr) \<Rightarrow>
     if \<not> server dpi then Some (None, dpi, tr)
     else if term_capacity \<le> length (term_buf dpi) then None
     else
       let dpi1 = dpi\<lparr>term_buf := term_buf dpi @ [True], server := False\<rparr>;
           (err, tr1) = cleanup env dpi1 (tr @ [SendTerm, ServerStop])
       in Some (err, dpi1, tr1))"

definition restart :: "environment \<Rightarrow> plugin_state \<Rightarrow> (go_error option \<times> plugin_state) option" where
  "restart env st = (case st of (dpi, tr) \<Rightarrow>
     if \<not> server dpi then Some (Some (Errorf (''grpc server instance not found for '' @ deviceName dpi)), dpi, tr)
     else (case Stop env (dpi, tr) of
             None \<Rightarrow> None
           | Some (_, dpi1, tr1) \<Rightarrow> Some (Start env (Fresh_stop (length tr1)) (dpi1, tr1))))"

section \<open>The calls without behaviour\<close>

record DevicePluginOptions =
  PreStartRequired :: bool
  GetPreferredAllocationAvailable :: bool

definition GetDevicePluginOptions :: "DevicePluginOptions result" where
  "GetDevicePluginOptions = Inr \<lparr>PreStartRequired = False, GetPreferredAllocationAvailable = False\<rparr>"

text \<open>The response of \<^verbatim>\<open>PreStartContainer\<close> has no fields; \<^verbatim>\<open>GetPreferredAllocation\<close> answers nil.\<close>

definition PreStartContainer :: "unit result" where
  "PreStartContainer = Inr ()"

definition GetPreferredAllocation :: "(string list list option) result" where
  "GetPreferredAllocation = Inr None"

section \<open>The outcomes of Start\<close>

text \<open>The effects up to a served socket, where \<open>ok\<close> says that the server answered.\<close>

definition serve_effects :: "string \<Rightarrow> bool \<Rightarrow> effect list" where
  "serve_effects p ok = [RemoveFile p, ListenUnix p, GoServe p, DialUnix p] @ (if ok then [CloseConn p] else [])"

definition register_effects :: "GenericDevicePlugin \<Rightarrow> effect list" where
  "register_effects dpi = [DialUnix KubeletSocket, CallRegister (register_request dpi), CloseConn KubeletSocket]"

lemma waitForGrpcServer_trace:
  "snd (waitForGrpcServer env p tr) = tr @ DialUnix p # (if env tr (DialUnix p) = None then [CloseConn p] else [])"
  by (simp add: waitForGrpcServer_def connect_def split: option.splits)

lemma register_request_update [simp]:
  "register_request (dpi\<lparr>stop_ch := c\<rparr>) = register_request dpi"
  "register_request (dpi\<lparr>server := b\<rparr>) = register_request dpi"
  "register_request (dpi\<lparr>term_buf := q\<rparr>) = register_request dpi"
  by (simp_all add: register_request_def)

lemma cleanup_result:
  "cleanup env dpi tr = (case env tr (RemoveFile (socketPath dpi)) of
     Some err \<Rightarrow> if is_not_exist err then None else Some err | None \<Rightarrow> None, tr @ [RemoveFile (socketPath dpi)])"
  by (simp add: cleanup_def split: option.splits)

text \<open>The five ways through a \<^verbatim>\<open>Start\<close> that is not refused.\<close>

lemma Start_elim:
  assumes "Start env ch (dpi, tr) = (r, dpi', tr')" and "\<not> server dpi"
  obtains
    (Cleanup) err where "r = Some err" "dpi' = dpi\<lparr>stop_ch := ch\<rparr>" "tr' = tr @ [RemoveFile (socketPath dpi)]"
  | (Listen) err where "r = Some err" "dpi' = dpi\<lparr>stop_ch := ch\<rparr>"
      "tr' = tr @ [RemoveFile (socketPath dpi), ListenUnix (socketPath dpi)]"
  | (Kubelet) err ok where "r = Some err" "dpi' = dpi\<lparr>stop_ch := ch, server := True\<rparr>"
      "tr' = tr @ serve_effects (socketPath dpi) ok @ [DialUnix KubeletSocket]"
      "ok \<longleftrightarrow> env (tr @ take 3 (serve_effects (socketPath dpi) True)) (DialUnix (socketPath dpi)) = None"
      "env (tr @ serve_effects (socketPath dpi) ok) (DialUnix KubeletSocket) = Some err"
  | (Refused) err ok where "r = Some err" "dpi' = dpi\<lparr>stop_ch := ch, server := True\<rparr>"
      "tr' = tr @ serve_effects (socketPath dpi) ok @ register_effects dpi"
      "ok \<longleftrightarrow> env (tr @ take 3 (serve_effects (socketPath dpi) True)) (DialUnix (socketPath dpi)) = None"
      "env (tr @ serve_effects (socketPath dpi) ok) (DialUnix KubeletSocket) = None"
  | (Started) ok where "r = None" "dpi' = dpi\<lparr>stop_ch := ch, server := True\<rparr>"
      "tr' = tr @ serve_effects (socketPath dpi) ok @ register_effects dpi @ [GoHealthCheck]"
      "ok \<longleftrightarrow> env (tr @ take 3 (serve_effects (socketPath dpi) True)) (DialUnix (socketPath dpi)) = None"
      "env (tr @ serve_effects (socketPath dpi) ok) (DialUnix KubeletSocket) = None"
proof -
  let ?p = "socketPath dpi"
  let ?tr2 = "tr @ [RemoveFile ?p, ListenUnix ?p, GoServe ?p]"
  define ok where "ok \<longleftrightarrow> env ?tr2 (DialUnix ?p) = None"
  have tr3: "snd (waitForGrpcServer env ?p ?tr2) = tr @ serve_effects ?p ok"
    by (simp add: waitForGrpcServer_trace serve_effects_def ok_def)
  have ok': "ok \<longleftrightarrow> env (tr @ take 3 (serve_effects ?p True)) (DialUnix ?p) = None"
    by (simp add: ok_def serve_effects_def)
  show thesis
  proof (cases "fst (cleanup env dpi tr)")
    case (Some err)
    with assms show thesis
      by (intro Cleanup) (auto simp: Start_def cleanup_result split: option.splits if_splits)
  next
    case None
    then have c: "cleanup env (dpi\<lparr>stop_ch := ch\<rparr>) tr = (None, tr @ [RemoveFile ?p])"
      by (simp add: cleanup_result)
    show thesis
    proof (cases "env (tr @ [RemoveFile ?p]) (ListenUnix ?p)")
      case (Some err)
      with assms c show thesis by (intro Listen [of err]) (auto simp: Start_def Let_def)
    next
      case l: None
      have s: "Start env ch (dpi, tr) = (case Register env (dpi\<lparr>stop_ch := ch, server := True\<rparr>) (tr @ serve_effects ?p ok) of
          (Some err, tr4) \<Rightarrow> (Some err, dpi\<lparr>stop_ch := ch, server := True\<rparr>, tr4)
        | (None, tr4) \<Rightarrow> (None, dpi\<lparr>stop_ch := ch, server := True\<rparr>, tr4 @ [GoHealthCheck]))"
        using assms(2) c l tr3 by (simp add: Start_def Let_def)
      show thesis
      proof (cases "env (tr @ serve_effects ?p ok) (DialUnix KubeletSocket)")
        case (Some err)
        with s assms(1) ok' show thesis by (intro Kubelet [of err ok]) (simp_all add: Register_def connect_def)
      next
        case k: None
        show thesis
        proof (cases "env (tr @ serve_effects ?p ok @ [DialUnix KubeletSocket]) (CallRegister (register_request dpi))")
          case (Some err)
          with s k assms(1) ok' show thesis
            by (intro Refused [of err ok]) (auto simp: Register_def connect_def register_effects_def Let_def)
        next
          case None
          with s k assms(1) ok' show thesis
            by (intro Started [of ok]) (auto simp: Register_def connect_def register_effects_def Let_def)
        qed
      qed
    qed
  qed
qed

lemma Start_server: "server dpi \<Longrightarrow> Start env ch (dpi, tr) = (Some (Errorf ''gRPC server already started''), dpi, tr)"
  by (simp add: Start_def)

lemma Start_frame:
  assumes "Start env ch (dpi, tr) = (r, dpi', tr')"
  shows "devs dpi' = devs dpi" and "term_buf dpi' = term_buf dpi" and "socketPath dpi' = socketPath dpi"
    and "deviceName dpi' = deviceName dpi" and "devicePath dpi' = devicePath dpi"
    and "\<exists>es. tr' = tr @ es"
proof -
  consider "server dpi" | "\<not> server dpi" by blast
  then have "devs dpi' = devs dpi \<and> term_buf dpi' = term_buf dpi \<and> socketPath dpi' = socketPath dpi \<and>
      deviceName dpi' = deviceName dpi \<and> devicePath dpi' = devicePath dpi \<and> (\<exists>es. tr' = tr @ es)"
  proof cases
    case 2
    from assms 2 show ?thesis by (rule Start_elim) auto
  qed (use assms in \<open>simp add: Start_server\<close>)
  then show "devs dpi' = devs dpi" and "term_buf dpi' = term_buf dpi" and "socketPath dpi' = socketPath dpi"
    and "deviceName dpi' = deviceName dpi" and "devicePath dpi' = devicePath dpi"
    and "\<exists>es. tr' = tr @ es" by simp_all
qed

lemma Start_None:
  assumes "Start env ch (dpi, tr) = (None, dpi', tr')"
  shows "\<not> server dpi" and "dpi' = dpi\<lparr>stop_ch := ch, server := True\<rparr>"
proof -
  show n: "\<not> server dpi" using assms by (auto simp: Start_def)
  show "dpi' = dpi\<lparr>stop_ch := ch, server := True\<rparr>" using assms n by (rule Start_elim) simp_all
qed

lemma Stop_None: "Stop env (dpi, tr) = None \<longleftrightarrow> server dpi \<and> term_buf dpi \<noteq> []"
  by (auto simp: Stop_def term_capacity_def Let_def cleanup_result Suc_le_eq)

lemma Stop_Some:
  assumes "Stop env (dpi, tr) = Some (err, dpi', tr')" and "server dpi"
  shows "term_buf dpi = []" and "dpi' = dpi\<lparr>term_buf := [True], server := False\<rparr>"
    and "tr' = tr @ [SendTerm, ServerStop, RemoveFile (socketPath dpi)]"
  using assms by (auto simp: Stop_def term_capacity_def Let_def cleanup_result not_le split: if_splits)

lemma Stop_off: "\<not> server dpi \<Longrightarrow> Stop env (dpi, tr) = Some (None, dpi, tr)"
  by (simp add: Stop_def)

section \<open>Connections\<close>

text \<open>The connections left open by the effects \<open>es\<close> after the history \<open>tr\<close>.\<close>

fun open_conns :: "environment \<Rightarrow> effect list \<Rightarrow> effect list \<Rightarrow> string multiset" where
  "open_conns env tr [] = {#}"
| "open_conns env tr (e # es) = (case e of
      DialUnix p \<Rightarrow> (if env tr e = None then add_mset p (open_conns env (tr @ [e]) es)
                      else open_conns env (tr @ [e]) es)
    | _ \<Rightarrow> open_conns env (tr @ [e]) es)"

fun closed_conns :: "effect list \<Rightarrow> string multiset" where
  "closed_conns [] = {#}"
| "closed_conns (e # es) = (case e of CloseConn p \<Rightarrow> add_mset p (closed_conns es) | _ \<Rightarrow> closed_conns es)"

section \<open>The request\<close>

lemma Base_join_dir:
  assumes "simple_name c"
  shows "Base (d @ CHR ''/'' # c) = c"
proof -
  have n: "CHR ''/'' \<notin> set (rev c)" "rev c \<noteq> []" using assms by (auto simp: simple_name_def)
  then obtain x xs where x: "rev c = x # xs" "x \<noteq> CHR ''/''" by (cases "rev c") auto
  have "takeWhile (\<lambda>c. c \<noteq> CHR ''/'') (rev c @ CHR ''/'' # rev d) = rev c"
    using n by (subst takeWhile_append2) auto
  with x show ?thesis by (simp add: Base_def Let_def)
qed

lemma DevicePluginPath_rooted:
  "DevicePluginPath = rooted [''var'', ''lib'', ''kubelet'', ''device-plugins''] @ ''/''"
  by (simp add: DevicePluginPath_def rooted_def)

definition socket_name :: "string \<Rightarrow> string" where
  "socket_name name = ''sandbox-'' @ name @ ''.sock''"

lemma socket_name_simple: "CHR ''/'' \<notin> set name \<Longrightarrow> simple_name (socket_name name)"
  by (auto simp: simple_name_def socket_name_def)

lemma socketPath_New:
  "socketPath (NewGenericDevicePlugin name path ds) = DevicePluginPath @ socket_name name"
  by (simp add: NewGenericDevicePlugin_def socket_name_def)

lemma endpoint_path:
  assumes "CHR ''/'' \<notin> set name"
  shows "Join [DevicePluginPath, Endpoint (register_request (NewGenericDevicePlugin name path ds))] =
    socketPath (NewGenericDevicePlugin name path ds)"
proof -
  let ?c = "socket_name name"
  let ?ds = "[''var'', ''lib'', ''kubelet'', ''device-plugins'']"
  have c: "simple_name ?c" using assms by (rule socket_name_simple)
  have p: "DevicePluginPath @ ?c = rooted ?ds @ CHR ''/'' # ?c" by (simp add: DevicePluginPath_rooted)
  have "Base (DevicePluginPath @ ?c) = ?c" unfolding p by (rule Base_join_dir) (rule c)
  moreover have "Join [DevicePluginPath, ?c] = rooted (?ds @ [?c])"
    unfolding DevicePluginPath_rooted by (rule Join_dir_slash) (use c in \<open>simp_all add: simple_name_def\<close>)
  moreover have "rooted (?ds @ [?c]) = DevicePluginPath @ ?c"
    unfolding p by (subst rooted_append) simp_all
  ultimately show ?thesis by (simp add: register_request_def socketPath_New)
qed

lemma register_at:
  "serve_effects p ok @ register_effects dpi @ zs = xs @ CallRegister q # ys \<Longrightarrow>
     \<forall>q'. CallRegister q' \<notin> set zs \<Longrightarrow>
     \<exists>e. xs = serve_effects p ok @ [e] \<and> q = register_request dpi"
  by (cases ok) (auto simp: serve_effects_def register_effects_def Cons_eq_append_conv)

lemma register_resource:
  "ResourceName (register_request (NewGenericDevicePlugin name path ds)) = ''nvidia.com/'' @ name"
  by (simp add: register_request_def NewGenericDevicePlugin_def DeviceNamespace_def)

section \<open>Sample plugins and environments\<close>

definition all_fine :: environment where "all_fine tr e = None"

definition no_kubelet :: environment where
  "no_kubelet tr e = (if e = DialUnix KubeletSocket then Some (ErrOS ''connection refused'') else None)"

definition sample_plugin :: GenericDevicePlugin where
  "sample_plugin = NewGenericDevicePlugin ''pgpu'' ''/dev/vfio/'' [\<lparr>ID = ''1'', Health = Healthy\<rparr>]"

lemmas start_defs = Start_def cleanup_result Register_def connect_def Let_def waitForGrpcServer_trace

lemma sample_plugin_simps [simp]:
  "\<not> server sample_plugin" "term_buf sample_plugin = []"
  "socketPath sample_plugin = ''/var/lib/kubelet/device-plugins/sandbox-pgpu.sock''"
  by (simp_all add: sample_plugin_def NewGenericDevicePlugin_def DevicePluginPath_def)

lemma sample_start:
  "Start all_fine Global_stop (sample_plugin, []) = (None, sample_plugin\<lparr>stop_ch := Global_stop, server := True\<rparr>,
     serve_effects (socketPath sample_plugin) True @ register_effects sample_plugin @ [GoHealthCheck])"
  by (simp add: start_defs all_fine_def serve_effects_def register_effects_def)

lemma sample_start_no_kubelet:
  "Start no_kubelet Global_stop (sample_plugin, []) =
     (Some (ErrOS ''connection refused''), sample_plugin\<lparr>stop_ch := Global_stop, server := True\<rparr>,
      serve_effects (socketPath sample_plugin) True @ [DialUnix KubeletSocket])"
  by (simp add: start_defs no_kubelet_def serve_effects_def KubeletSocket_def DevicePluginPath_def)

section \<open>Properties\<close>

text \<open>C28. What a start of a stopped plugin needs. It succeeds exactly when the old socket is removed or
  was not there, the new one can be listened on, the kubelet can be dialled and accepts the
  registration; it then has done, in this order, that removal, the listening and serving, a dial
  of its own server, the dial of the kubelet, the registration, and the start of the health check.
  Whether the dial of its own server succeeds does not matter, though the comment on its error says
  that the error is returned. Without success no health check is started. The server pointer is set
  exactly when the socket is served, and but for it and the stop channel the plugin is unchanged.\<close>

theorem start_outcome:
  assumes "Start env ch (dpi, tr) = (r, dpi', tr')" and "\<not> server dpi"
  shows "let p = socketPath dpi; dialled = (env (tr @ [RemoveFile p, ListenUnix p, GoServe p]) (DialUnix p) = None) in
    (r = None \<longleftrightarrow> (case env tr (RemoveFile p) of None \<Rightarrow> True | Some err \<Rightarrow> is_not_exist err) \<and>
        env (tr @ [RemoveFile p]) (ListenUnix p) = None \<and>
        env (tr @ serve_effects p dialled) (DialUnix KubeletSocket) = None \<and>
        env (tr @ serve_effects p dialled @ [DialUnix KubeletSocket]) (CallRegister (register_request dpi)) = None) \<and>
    (r = None \<longleftrightarrow> drop (length tr) tr' = serve_effects p dialled @ register_effects dpi @ [GoHealthCheck]) \<and>
    (r \<noteq> None \<longrightarrow> GoHealthCheck \<notin> set (drop (length tr) tr')) \<and>
    (server dpi' \<longleftrightarrow> GoServe p \<in> set (drop (length tr) tr')) \<and>
    dpi' = dpi\<lparr>stop_ch := ch, server := server dpi'\<rparr>"
proof -
  let ?p = "socketPath dpi" let ?dialled = "env (tr @ [RemoveFile ?p, ListenUnix ?p, GoServe ?p]) (DialUnix ?p) = None"
  have "r = None \<longleftrightarrow> (case env tr (RemoveFile ?p) of None \<Rightarrow> True | Some err \<Rightarrow> is_not_exist err) \<and>
        env (tr @ [RemoveFile ?p]) (ListenUnix ?p) = None \<and>
        env (tr @ serve_effects ?p ?dialled) (DialUnix KubeletSocket) = None \<and>
        env (tr @ serve_effects ?p ?dialled @ [DialUnix KubeletSocket]) (CallRegister (register_request dpi)) = None"
    using assms
    by (auto simp: Start_def Register_def connect_def cleanup_result waitForGrpcServer_trace serve_effects_def Let_def
        split: option.splits if_splits)
  moreover have "(r = None \<longleftrightarrow> drop (length tr) tr' = serve_effects ?p ?dialled @ register_effects dpi @ [GoHealthCheck]) \<and>
    (r \<noteq> None \<longrightarrow> GoHealthCheck \<notin> set (drop (length tr) tr')) \<and>
    (server dpi' \<longleftrightarrow> GoServe ?p \<in> set (drop (length tr) tr')) \<and>
    dpi' = dpi\<lparr>stop_ch := ch, server := server dpi'\<rparr>"
    using assms by (rule Start_elim) (auto simp: serve_effects_def register_effects_def assms(2))
  ultimately show ?thesis unfolding Let_def by blast
qed

theorem start_outcome_witness:
  "fst (Start all_fine Global_stop (sample_plugin, [])) = None \<and>
   drop 0 (snd (snd (Start all_fine Global_stop (sample_plugin, [])))) =
     serve_effects (socketPath sample_plugin) True @ register_effects sample_plugin @ [GoHealthCheck]"
proof -
  have "\<not> server sample_plugin" by (simp add: sample_plugin_def NewGenericDevicePlugin_def)
  from start_outcome [OF sample_start this] show ?thesis by (simp add: sample_start all_fine_def Let_def)
qed

text \<open>A plugin made for a name without a slash asks the kubelet to register it only after its
  socket is served, and the request is right: the kubelet's directory joined with the endpoint
  is the path of that socket, and the resource is the name in the domain nvidia.com.\<close>

theorem registration_order:
  assumes "dpi = NewGenericDevicePlugin name path ds" and "CHR ''/'' \<notin> set name"
    and "Start env ch (dpi, tr) = (r, dpi', tr')"
    and "drop (length tr) tr' = xs @ CallRegister q # ys"
  shows "GoServe (socketPath dpi) \<in> set xs \<and> Join [DevicePluginPath, Endpoint q] = socketPath dpi \<and>
    ResourceName q = ''nvidia.com/'' @ name"
proof -
  have off: "\<not> server dpi" by (simp add: assms(1) NewGenericDevicePlugin_def)
  from assms(3) off have "\<exists>p ok. xs = serve_effects (socketPath dpi) ok @ [p] \<and> q = register_request dpi"
  proof (rule Start_elim)
    fix ok assume "tr' = tr @ serve_effects (socketPath dpi) ok @ register_effects dpi"
    then have "serve_effects (socketPath dpi) ok @ register_effects dpi @ [] = xs @ CallRegister q # ys"
      using assms(4) by simp
    from register_at [OF this] show ?thesis by auto
  next
    fix ok assume "tr' = tr @ serve_effects (socketPath dpi) ok @ register_effects dpi @ [GoHealthCheck]"
    then have "serve_effects (socketPath dpi) ok @ register_effects dpi @ [GoHealthCheck] = xs @ CallRegister q # ys"
      using assms(4) by simp
    from register_at [OF this] show ?thesis by auto
  qed (use assms(4) in \<open>auto simp: serve_effects_def Cons_eq_append_conv split: if_splits\<close>)
  then have "GoServe (socketPath dpi) \<in> set xs \<and> q = register_request dpi"
    by (auto simp: serve_effects_def)
  then show ?thesis using endpoint_path [OF assms(2), of path ds] by (simp add: assms(1) register_resource)
qed

theorem registration_order_witness:
  "Join [''/var/lib/kubelet/device-plugins/'', ''sandbox-pgpu.sock''] =
   ''/var/lib/kubelet/device-plugins/sandbox-pgpu.sock''"
proof -
  have "Endpoint (register_request sample_plugin) = ''sandbox-pgpu.sock''"
    by (simp add: register_request_def Base_def Let_def)
  moreover have "Join [DevicePluginPath, Endpoint (register_request sample_plugin)] = socketPath sample_plugin"
    using registration_order [OF sample_plugin_def _ sample_start, of
      "serve_effects (socketPath sample_plugin) True @ [DialUnix KubeletSocket]" "register_request sample_plugin"
      "[CloseConn KubeletSocket, GoHealthCheck]"]
    by (simp add: register_effects_def)
  ultimately show ?thesis by (simp add: DevicePluginPath_def)
qed

text \<open>Starting closes every connection it opens, to its own server and to the kubelet, on
  every path.\<close>

theorem start_closes_connections:
  assumes "Start env ch (dpi, tr) = (r, dpi', tr')"
  shows "open_conns env tr (drop (length tr) tr') = closed_conns (drop (length tr) tr')"
proof (cases "server dpi")
  case False
  from assms False show ?thesis
  proof (rule Start_elim)
    fix err ok
    assume "tr' = tr @ serve_effects (socketPath dpi) ok @ [DialUnix KubeletSocket]"
      and "ok \<longleftrightarrow> env (tr @ take 3 (serve_effects (socketPath dpi) True)) (DialUnix (socketPath dpi)) = None"
      and "env (tr @ serve_effects (socketPath dpi) ok) (DialUnix KubeletSocket) = Some err"
    then show ?thesis by (cases ok) (simp_all add: serve_effects_def del: not_None_eq)
  next
    fix err ok
    assume "tr' = tr @ serve_effects (socketPath dpi) ok @ register_effects dpi"
      and "ok \<longleftrightarrow> env (tr @ take 3 (serve_effects (socketPath dpi) True)) (DialUnix (socketPath dpi)) = None"
      and "env (tr @ serve_effects (socketPath dpi) ok) (DialUnix KubeletSocket) = None"
    then show ?thesis by (cases ok) (simp_all add: serve_effects_def register_effects_def del: not_None_eq)
  next
    fix ok
    assume "tr' = tr @ serve_effects (socketPath dpi) ok @ register_effects dpi @ [GoHealthCheck]"
      and "ok \<longleftrightarrow> env (tr @ take 3 (serve_effects (socketPath dpi) True)) (DialUnix (socketPath dpi)) = None"
      and "env (tr @ serve_effects (socketPath dpi) ok) (DialUnix KubeletSocket) = None"
    then show ?thesis by (cases ok) (simp_all add: serve_effects_def register_effects_def del: not_None_eq)
  qed simp_all
qed (use assms in \<open>simp add: Start_server\<close>)

theorem start_closes_connections_witness:
  "open_conns no_kubelet [] (serve_effects ''/var/lib/kubelet/device-plugins/sandbox-pgpu.sock'' True @ [DialUnix KubeletSocket]) =
   {#''/var/lib/kubelet/device-plugins/sandbox-pgpu.sock''#}"
  using start_closes_connections [OF sample_start_no_kubelet] by (simp add: serve_effects_def)

text \<open>Where the kubelet cannot be reached or refuses the registration, the server is left
  running and set, so every later \<^verbatim>\<open>Start\<close> of the plugin is refused and does nothing, until
  a \<^verbatim>\<open>Stop\<close>.\<close>

theorem failed_registration_blocks_start:
  assumes "Start env ch (dpi, tr) = (Some err, dpi', tr')" and "\<not> server dpi"
    and "DialUnix KubeletSocket \<in> set (drop (length tr) tr')" and "socketPath dpi \<noteq> KubeletSocket"
  shows "Start env' ch' (dpi', tr') = (Some (Errorf ''gRPC server already started''), dpi', tr') \<and>
    (term_buf dpi = [] \<longrightarrow> (\<exists>e dpi2 tr2. Stop env' (dpi', tr') = Some (e, dpi2, tr2) \<and> \<not> server dpi2))"
proof -
  from assms(1,2) have s: "server dpi'" "term_buf dpi' = term_buf dpi"
    by (rule Start_elim; use assms(3,4) in \<open>simp add: serve_effects_def register_effects_def\<close>)+
  then show ?thesis
    by (auto simp: Start_server Stop_def term_capacity_def Let_def cleanup_result)
qed

theorem failed_registration_blocks_start_witness:
  "fst (Start all_fine Global_stop (snd (Start no_kubelet Global_stop (sample_plugin, [])))) =
   Some (Errorf ''gRPC server already started'')"
  using failed_registration_blocks_start [OF sample_start_no_kubelet, of all_fine Global_stop]
  by (simp add: sample_start_no_kubelet KubeletSocket_def DevicePluginPath_def)

text \<open>\<^verbatim>\<open>Stop\<close> does not return exactly when the server runs and the token of an earlier
  \<^verbatim>\<open>Stop\<close> is still in the channel \<^verbatim>\<open>term\<close>. When it returns the server is off and a second
  \<^verbatim>\<open>Stop\<close> does nothing.\<close>

theorem stop_outcome:
  "(Stop env (dpi, tr) = None \<longleftrightarrow> server dpi \<and> term_buf dpi \<noteq> []) \<and>
   (\<forall>r dpi' tr'. Stop env (dpi, tr) = Some (r, dpi', tr') \<longrightarrow>
      \<not> server dpi' \<and> Stop env' (dpi', tr') = Some (None, dpi', tr') \<and>
      (server dpi \<longrightarrow> term_buf dpi' = [True] \<and> drop (length tr) tr' = [SendTerm, ServerStop, RemoveFile (socketPath dpi)]))"
proof (cases "server dpi")
  case True
  then show ?thesis using Stop_None [of env dpi tr] Stop_Some [OF _ True, of env tr] by (auto simp: Stop_off)
qed (simp add: Stop_off)

theorem stop_outcome_witness:
  "Stop all_fine (sample_plugin\<lparr>server := True\<rparr>, []) \<noteq> None \<and>
   Stop all_fine (sample_plugin\<lparr>server := True, term_buf := [True]\<rparr>, []) = None"
  using stop_outcome [of all_fine "sample_plugin\<lparr>server := True\<rparr>" "[]"]
    stop_outcome [of all_fine "sample_plugin\<lparr>server := True, term_buf := [True]\<rparr>" "[]"]
  by simp

text \<open>A restart of a running plugin whose token channel is empty returns. Its effects are
  those of a stop and of a start; a restart without error serves the same socket and
  registers the same resource again, but under a stop channel of its own: closing the
  program's channel \<^verbatim>\<open>stop\<close> no longer reaches the plugin. After a failure to listen the plugin
  is off, and no later restart can bring it back.\<close>

theorem restart_outcome:
  assumes "server dpi" and "term_buf dpi = []"
  shows "\<exists>r dpi' tr'. restart env (dpi, tr) = Some (r, dpi', tr') \<and> stop_ch dpi' \<noteq> Global_stop \<and>
    (r = None \<longrightarrow> server dpi' \<and> (\<exists>ok. drop (length tr) tr' =
        [SendTerm, ServerStop, RemoveFile (socketPath dpi)] @ serve_effects (socketPath dpi) ok @
        register_effects dpi @ [GoHealthCheck])) \<and>
    (\<not> server dpi' \<longrightarrow> r \<noteq> None \<and> (\<forall>env' tr''. \<exists>e. restart env' (dpi', tr'') = Some (Some e, dpi', tr'')))"
proof -
  have "Stop env (dpi, tr) \<noteq> None" using assms by (simp add: Stop_None)
  then obtain e dpi1 tr1 where s: "Stop env (dpi, tr) = Some (e, dpi1, tr1)" by auto
  note d = Stop_Some [OF s assms(1)]
  obtain r dpi' tr' where st: "Start env (Fresh_stop (length tr1)) (dpi1, tr1) = (r, dpi', tr')"
    by (metis prod_cases3)
  have off: "\<not> server dpi1" by (simp add: d)
  have "restart env (dpi, tr) = Some (r, dpi', tr')" using assms s st by (simp add: restart_def)
  moreover from st off have "stop_ch dpi' \<noteq> Global_stop \<and>
    (r = None \<longrightarrow> server dpi' \<and> (\<exists>ok. drop (length tr) tr' =
        [SendTerm, ServerStop, RemoveFile (socketPath dpi)] @ serve_effects (socketPath dpi) ok @
        register_effects dpi @ [GoHealthCheck])) \<and> (\<not> server dpi' \<longrightarrow> r \<noteq> None)"
    by (rule Start_elim) (auto simp: d register_effects_def)
  ultimately show ?thesis by (auto simp: restart_def)
qed

theorem restart_outcome_witness:
  "\<exists>r dpi' tr'. restart all_fine (sample_plugin\<lparr>server := True, stop_ch := Global_stop\<rparr>, []) = Some (r, dpi', tr') \<and>
     stop_ch dpi' \<noteq> Global_stop"
  using restart_outcome [of "sample_plugin\<lparr>server := True, stop_ch := Global_stop\<rparr>" all_fine "[]"]
  by (simp; blast)

text \<open>Every restart that serves leaves its token in the channel \<^verbatim>\<open>term\<close>; unless a
  \<^verbatim>\<open>ListAndWatch\<close> takes it, the next restart does not return.\<close>

theorem restart_leaves_token:
  assumes "restart env (dpi, tr) = Some (r, dpi', tr')" and "server dpi"
  shows "term_buf dpi' = [True] \<and> (server dpi' \<longrightarrow> restart env' (dpi', tr'') = None)"
proof -
  from assms obtain e dpi1 tr1 where s: "Stop env (dpi, tr) = Some (e, dpi1, tr1)"
    and st: "Start env (Fresh_stop (length tr1)) (dpi1, tr1) = (r, dpi', tr')"
    by (auto simp: restart_def split: option.splits)
  have b: "term_buf dpi' = [True]" using Start_frame(2) [OF st] Stop_Some(2) [OF s assms(2)] by simp
  then have "server dpi' \<Longrightarrow> Stop env' (dpi', tr'') = None" by (simp add: Stop_None)
  with b show ?thesis by (simp add: restart_def)
qed

theorem restart_leaves_token_witness:
  "\<exists>r dpi' tr'. restart all_fine (sample_plugin\<lparr>server := True\<rparr>, []) = Some (r, dpi', tr') \<and>
     server dpi' \<and> restart all_fine (dpi', tr') = None"
proof -
  have "restart all_fine (sample_plugin\<lparr>server := True\<rparr>, []) =
      Some (Start all_fine (Fresh_stop 3) (sample_plugin\<lparr>term_buf := [True], server := False\<rparr>,
        [SendTerm, ServerStop, RemoveFile (socketPath sample_plugin)]))"
    by (simp add: restart_def Stop_def term_capacity_def Let_def cleanup_result all_fine_def eval_nat_numeral)
  then obtain dpi' tr' where r: "restart all_fine (sample_plugin\<lparr>server := True\<rparr>, []) = Some (None, dpi', tr')"
      and "server dpi'"
    by (simp add: start_defs all_fine_def)
  then show ?thesis using restart_leaves_token [OF r, of all_fine tr'] by auto
qed

end
