(* ===== verification/Health.thy ===== *)
theory Health
  imports Plugin
begin

text \<open>
  The goroutines of one device plugin (pkg/device_plugin/generic_device_plugin.go):
  \<^verbatim>\<open>healthCheck\<close>, which turns file system events into health updates and restarts, and the
  \<^verbatim>\<open>ListAndWatch\<close> calls of the kubelet, which receive the updates and report the devices.
  They run interleaved, so they are a step relation on a state with all of them. A step is
  one \<^verbatim>\<open>select\<close> with the work up to the next, or one half of a restart; memory is
  sequentially consistent (the code does not lock \<^verbatim>\<open>devs\<close>).
\<close>

section \<open>Setting up a health check\<close>

record fs_event =
  ev_Name :: string
  ev_Op :: "32 word"

definition op_Create :: "32 word" where "op_Create = 1"
definition op_Remove :: "32 word" where "op_Remove = 4"
definition op_Rename :: "32 word" where "op_Rename = 8"

text \<open>What the host answers: \<^verbatim>\<open>os.Stat\<close>, the making of a watcher, and adding a path to it.\<close>

record watch_env =
  w_stat :: stat_fn
  w_new :: "go_error option"
  w_add :: "string \<Rightarrow> go_error option"

definition device_file :: "bool \<Rightarrow> string \<Rightarrow> plugin_device \<Rightarrow> string" where
  "device_file iommufdSupported path dev =
     (let devID = (if iommufdSupported then ''vfio'' @ ID dev else ID dev) in Join [path, devID])"

fun watch_devices ::
    "(string \<Rightarrow> go_error option) \<Rightarrow> bool \<Rightarrow> string \<Rightarrow> plugin_device list \<Rightarrow> (string, string) fmap \<Rightarrow>
       (string, string) fmap result" where
  "watch_devices add iommufdSupported path [] m = Inr m"
| "watch_devices add iommufdSupported path (dev # ds) m =
     (let f = device_file iommufdSupported path dev
      in (case add f of
            Some err \<Rightarrow> Inl err
          | None \<Rightarrow> watch_devices add iommufdSupported path ds (fmupd f (ID dev) m)))"

definition healthCheck_setup :: "watch_env \<Rightarrow> GenericDevicePlugin \<Rightarrow> (string, string) fmap result" where
  "healthCheck_setup h dpi = (case supportsIOMMUFD (w_stat h) of
      Inl err \<Rightarrow> Inl (Wrapf ''could not determine iommufd support'' err)
    | Inr iommufdSupported \<Rightarrow> (case w_new h of
        Some err \<Rightarrow> Inl err
      | None \<Rightarrow> (case w_add h (Dir (socketPath dpi)) of
          Some err \<Rightarrow> Inl err
        | None \<Rightarrow> (case w_stat h (devicePath dpi) of
            Some err \<Rightarrow> if \<not> is_not_exist err then Inl err
                else watch_devices (w_add h) iommufdSupported (devicePath dpi) (devs dpi) fmempty
          | None \<Rightarrow> watch_devices (w_add h) iommufdSupported (devicePath dpi) (devs dpi) fmempty))))"

section \<open>The body of the event loop\<close>

datatype health_chan = Healthy_chan | Unhealthy_chan

datatype action = Ignore | Send health_chan string | Restart

definition on_event :: "(string, string) fmap \<Rightarrow> string \<Rightarrow> fs_event \<Rightarrow> action" where
  "on_event pathDeviceMap sock ev = (case fmlookup pathDeviceMap (ev_Name ev) of
      Some v \<Rightarrow>
        if ev_Op ev = op_Create then Send Healthy_chan v
        else if ev_Op ev = op_Remove \<or> ev_Op ev = op_Rename then Send Unhealthy_chan v
        else Ignore
    | None \<Rightarrow> if ev_Name ev = sock \<and> ev_Op ev = op_Remove then Restart else Ignore)"

section \<open>The goroutines\<close>

text \<open>
  A health check is setting up, waits for an event, is blocked in a send, is in
  \<^verbatim>\<open>restart\<close> before its \<^verbatim>\<open>Stop\<close> or before its \<^verbatim>\<open>Start\<close>, or has returned.
\<close>

datatype checker =
    Setup
  | Watching "(string, string) fmap"
  | Sending "(string, string) fmap" health_chan string
  | Restarting
  | Restart_start
  | Ended

text \<open>A call of \<^verbatim>\<open>ListAndWatch\<close>: its reports, whether it has not returned, and the channel \<^verbatim>\<open>stop\<close>
  that it read when its \<^verbatim>\<open>select\<close> began. A restart gives the plugin another channel, but a
  blocked \<^verbatim>\<open>select\<close> keeps its own.\<close>

record stream =
  sent :: "plugin_device list list"
  running :: bool
  selected_stop :: stop_chan

text \<open>
  The state: the plugin and its effects, all \<^verbatim>\<open>ListAndWatch\<close> calls and health checks so far,
  and whether the program's channel \<^verbatim>\<open>stop\<close> is closed. The last field is history, read by no
  step: the updates the events called for, oldest first.
\<close>

record machine =
  m_dpi :: GenericDevicePlugin
  m_trace :: "effect list"
  m_streams :: "stream list"
  m_checkers :: "checker list"
  m_stopped :: bool
  m_updates :: "(health_chan \<times> string) list"

definition chan_value :: "health_chan \<Rightarrow> string" where
  "chan_value ch = (case ch of Healthy_chan \<Rightarrow> Healthy | Unhealthy_chan \<Rightarrow> Unhealthy)"

definition set_health :: "string \<Rightarrow> string \<Rightarrow> plugin_device list \<Rightarrow> plugin_device list" where
  "set_health v i ds = map (\<lambda>dev. if i = ID dev then dev\<lparr>Health := v\<rparr> else dev) ds"

definition stop_closed :: "machine \<Rightarrow> bool" where
  "stop_closed s \<longleftrightarrow> stop_ch (m_dpi s) = Global_stop \<and> m_stopped s"

definition open_stream :: "machine \<Rightarrow> machine" where
  "open_stream s = s\<lparr>m_streams := m_streams s @ [\<lparr>sent = [devs (m_dpi s)], running = True, selected_stop = stop_ch (m_dpi s)\<rparr>]\<rparr>"

definition end_stream :: "nat \<Rightarrow> machine \<Rightarrow> machine" where
  "end_stream j s = s\<lparr>m_streams := (m_streams s)[j := (m_streams s ! j)\<lparr>running := False\<rparr>]\<rparr>"

definition set_checker :: "nat \<Rightarrow> checker \<Rightarrow> machine \<Rightarrow> machine" where
  "set_checker i c s = s\<lparr>m_checkers := (m_checkers s)[i := c]\<rparr>"

text \<open>Stream \<open>j\<close> receives an update, changes the devices and sends them all.\<close>

definition receive_update :: "nat \<Rightarrow> health_chan \<Rightarrow> string \<Rightarrow> machine \<Rightarrow> machine" where
  "receive_update j ch i s =
     (let ds = set_health (chan_value ch) i (devs (m_dpi s))
      in s\<lparr>m_dpi := (m_dpi s)\<lparr>devs := ds\<rparr>,
           m_streams := (m_streams s)[j := (m_streams s ! j)\<lparr>sent := sent (m_streams s ! j) @ [ds],
             selected_stop := stop_ch (m_dpi s)\<rparr>]\<rparr>)"

definition after_event :: "nat \<Rightarrow> (string, string) fmap \<Rightarrow> action \<Rightarrow> machine \<Rightarrow> machine" where
  "after_event i m a s = (case a of
      Ignore \<Rightarrow> s
    | Send ch v \<Rightarrow> set_checker i (Sending m ch v) (s\<lparr>m_updates := m_updates s @ [(ch, v)]\<rparr>)
    | Restart \<Rightarrow> set_checker i Restarting s)"

definition checker_at :: "machine \<Rightarrow> nat \<Rightarrow> checker \<Rightarrow> bool" where
  "checker_at s i c \<longleftrightarrow> i < length (m_checkers s) \<and> m_checkers s ! i = c"

definition stream_runs :: "machine \<Rightarrow> nat \<Rightarrow> bool" where
  "stream_runs s j \<longleftrightarrow> j < length (m_streams s) \<and> running (m_streams s ! j)"

inductive health_step :: "machine \<Rightarrow> machine \<Rightarrow> bool" where
  ListAndWatch: "server (m_dpi s) \<Longrightarrow> health_step s (open_stream s)"
| receive: "stream_runs s j \<Longrightarrow> checker_at s i (Sending m ch v) \<Longrightarrow>
    health_step s (set_checker i (Watching m) (receive_update j ch v s))"
| stream_term: "stream_runs s j \<Longrightarrow> term_buf (m_dpi s) = b # bs \<Longrightarrow>
    health_step s (end_stream j (s\<lparr>m_dpi := (m_dpi s)\<lparr>term_buf := bs\<rparr>\<rparr>))"
| stream_stop: "stream_runs s j \<Longrightarrow> selected_stop (m_streams s ! j) = Global_stop \<Longrightarrow> m_stopped s \<Longrightarrow>
    health_step s (end_stream j s)"
| check_setup: "checker_at s i Setup \<Longrightarrow> healthCheck_setup h (m_dpi s) = Inr m \<Longrightarrow>
    health_step s (set_checker i (Watching m) s)"
| check_setup_error: "checker_at s i Setup \<Longrightarrow> healthCheck_setup h (m_dpi s) = Inl err \<Longrightarrow>
    health_step s (set_checker i Ended s)"
| check_stop: "checker_at s i (Watching m) \<Longrightarrow> stop_closed s \<Longrightarrow> health_step s (set_checker i Ended s)"
| check_event: "checker_at s i (Watching m) \<Longrightarrow>
    health_step s (after_event i m (on_event m (socketPath (m_dpi s)) ev) s)"
| restart_none: "checker_at s i Restarting \<Longrightarrow> \<not> server (m_dpi s) \<Longrightarrow> health_step s (set_checker i Ended s)"
| restart_stop: "checker_at s i Restarting \<Longrightarrow> server (m_dpi s) \<Longrightarrow>
    Stop env (m_dpi s, m_trace s) = Some (err, dpi, tr) \<Longrightarrow>
    health_step s (set_checker i Restart_start (s\<lparr>m_dpi := dpi, m_trace := tr\<rparr>))"
| restart_start: "checker_at s i Restart_start \<Longrightarrow>
    Start env (Fresh_stop (length (m_trace s))) (m_dpi s, m_trace s) = (Some err, dpi, tr) \<Longrightarrow>
    health_step s (set_checker i Ended (s\<lparr>m_dpi := dpi, m_trace := tr\<rparr>))"
| restart_started: "checker_at s i Restart_start \<Longrightarrow>
    Start env (Fresh_stop (length (m_trace s))) (m_dpi s, m_trace s) = (None, dpi, tr) \<Longrightarrow>
    health_step s (s\<lparr>m_dpi := dpi, m_trace := tr, m_checkers := (m_checkers s)[i := Ended] @ [Setup]\<rparr>)"
| close_stop: "health_step s (s\<lparr>m_stopped := True\<rparr>)"
| shutdown: "m_stopped s \<Longrightarrow> Stop env (m_dpi s, m_trace s) = Some (err, dpi, tr) \<Longrightarrow>
    health_step s (s\<lparr>m_dpi := dpi, m_trace := tr\<rparr>)"

text \<open>The state right after a successful \<^verbatim>\<open>Start\<close> of a new plugin, all devices healthy.\<close>

definition fresh_devices :: "string list \<Rightarrow> plugin_device list" where
  "fresh_devices ids = map (\<lambda>i. \<lparr>ID = i, Health = Healthy\<rparr>) ids"

definition health_init :: "string \<Rightarrow> string \<Rightarrow> string list \<Rightarrow> machine \<Rightarrow> bool" where
  "health_init name path ids s \<longleftrightarrow>
     (\<exists>env dpi tr. Start env Global_stop (NewGenericDevicePlugin name path (fresh_devices ids), []) = (None, dpi, tr) \<and>
        s = \<lparr>m_dpi = dpi, m_trace = tr, m_streams = [], m_checkers = [Setup], m_stopped = False, m_updates = []\<rparr>)"

inductive_cases health_stepE: "health_step s t"

section \<open>The invariant\<close>

text \<open>
  Every report lists the plugin's devices, each with one of the two health values. All
  health checks but the last have returned. The updates are those delivered, which made the
  devices what they are and were reported once each, and the one being sent.
\<close>

definition report_ok :: "string list \<Rightarrow> plugin_device list \<Rightarrow> bool" where
  "report_ok ids resp \<longleftrightarrow> map ID resp = ids \<and> list_all (\<lambda>d. Health d = Healthy \<or> Health d = Unhealthy) resp"

fun checker_ok :: "string list \<Rightarrow> checker \<Rightarrow> bool" where
  "checker_ok ids (Watching m) = (fmran' m \<subseteq> set ids)"
| "checker_ok ids (Sending m ch v) = (fmran' m \<subseteq> set ids \<and> v \<in> set ids)"
| "checker_ok ids _ = True"

fun pending :: "checker \<Rightarrow> (health_chan \<times> string) list" where
  "pending (Sending m ch v) = [(ch, v)]"
| "pending _ = []"

definition apply_updates :: "(health_chan \<times> string) list \<Rightarrow> plugin_device list \<Rightarrow> plugin_device list" where
  "apply_updates us = fold (\<lambda>(ch, v). set_health (chan_value ch) v) us"

definition reports :: "stream list \<Rightarrow> nat" where
  "reports sts = (\<Sum>st\<leftarrow>sts. length (sent st) - 1)"

definition stream_ok :: "string list \<Rightarrow> stream \<Rightarrow> bool" where
  "stream_ok ids st \<longleftrightarrow> sent st \<noteq> [] \<and> list_all (report_ok ids) (sent st)"

definition inv_at :: "string list \<Rightarrow> machine \<Rightarrow> nat \<Rightarrow> checker \<Rightarrow> (health_chan \<times> string) list \<Rightarrow> bool" where
  "inv_at ids s n c del \<longleftrightarrow>
     m_checkers s = replicate n Ended @ [c] \<and> checker_ok ids c \<and>
     m_updates s = del @ pending c \<and> devs (m_dpi s) = apply_updates del (fresh_devices ids) \<and>
     length del = reports (m_streams s) \<and>
     length (term_buf (m_dpi s)) \<le> term_capacity \<and> list_all (stream_ok ids) (m_streams s)"

definition machine_inv :: "string list \<Rightarrow> machine \<Rightarrow> bool" where
  "machine_inv ids s \<longleftrightarrow> (\<exists>n c del. inv_at ids s n c del)"

subsection \<open>Lemmas on the parts\<close>

lemma report_ok_fresh [simp]: "report_ok ids (fresh_devices ids)"
  by (simp add: report_ok_def fresh_devices_def comp_def list_all_iff)

lemma report_ok_set_health: "report_ok ids ds \<Longrightarrow> report_ok ids (set_health (chan_value ch) v ds)"
  by (auto simp: report_ok_def set_health_def list_all_iff chan_value_def comp_def split: health_chan.splits)

lemma report_ok_updates: "report_ok ids ds \<Longrightarrow> report_ok ids (apply_updates us ds)"
  unfolding apply_updates_def by (induction us arbitrary: ds) (auto simp: report_ok_set_health)

lemma report_ids: "report_ok ids ds \<Longrightarrow> ID ` set ds = set ids"
  by (metis report_ok_def list.set_map)

lemma apply_updates_snoc [simp]:
  "apply_updates (us @ [(ch, v)]) ds = set_health (chan_value ch) v (apply_updates us ds)"
  by (simp add: apply_updates_def)

lemma watch_devices_ran:
  "watch_devices add b path ds m = Inr m' \<Longrightarrow> fmran' m' \<subseteq> ID ` set ds \<union> fmran' m"
proof (induction ds arbitrary: m)
  case (Cons d ds)
  then have "fmran' m' \<subseteq> ID ` set ds \<union> fmran' (fmupd (device_file b path d) (ID d) m)"
    by (auto simp: Let_def split: option.splits)
  moreover have "fmran' (fmupd f x m) \<subseteq> insert x (fmran' m)" for f x
    by (auto simp: fmran'_alt_def fmlookup_ran_iff split: if_splits)
  ultimately show ?case by fastforce
qed simp

lemma healthCheck_setup_ran:
  "healthCheck_setup h dpi = Inr m \<Longrightarrow> fmran' m \<subseteq> ID ` set (devs dpi)"
proof -
  assume "healthCheck_setup h dpi = Inr m"
  then obtain b where "watch_devices (w_add h) b (devicePath dpi) (devs dpi) fmempty = Inr m"
    by (auto simp: healthCheck_setup_def split: sum.splits option.splits if_splits)
  then show ?thesis using watch_devices_ran by (fastforce simp: fmran'_alt_def)
qed

lemma on_event_Send: "on_event m sock ev = Send ch v \<Longrightarrow> v \<in> fmran' m"
  by (auto simp: on_event_def fmran'I split: option.splits if_splits)

lemma reports_open: "reports (sts @ [\<lparr>sent = [ds], running = b, selected_stop = ch\<rparr>]) = reports sts"
  by (simp add: reports_def)

lemma reports_update:
  "j < length sts \<Longrightarrow>
     reports (sts[j := st]) + (length (sent (sts ! j)) - 1) = reports sts + (length (sent st) - 1)"
  by (induction sts arbitrary: j) (auto simp: reports_def nth_Cons split: nat.splits)

lemma reports_end: "j < length sts \<Longrightarrow> reports (sts[j := (sts ! j)\<lparr>running := b\<rparr>]) = reports sts"
  using reports_update [of j sts "(sts ! j)\<lparr>running := b\<rparr>"] by simp

lemma reports_receive:
  assumes "j < length sts" and "sent (sts ! j) \<noteq> []"
  shows "reports (sts[j := (sts ! j)\<lparr>sent := sent (sts ! j) @ [ds], selected_stop := ch\<rparr>]) = Suc (reports sts)"
  using reports_update [OF assms(1), of "(sts ! j)\<lparr>sent := sent (sts ! j) @ [ds], selected_stop := ch\<rparr>"] assms(2)
  by (cases "sent (sts ! j)") simp_all

lemma stream_ok_update:
  assumes "list_all (stream_ok ids) sts" and "j < length sts" and "report_ok ids ds"
  shows "list_all (stream_ok ids) (sts[j := (sts ! j)\<lparr>sent := sent (sts ! j) @ [ds], selected_stop := ch\<rparr>])"
    and "list_all (stream_ok ids) (sts[j := (sts ! j)\<lparr>running := b\<rparr>])"
proof -
  have "stream_ok ids (sts ! j)" using assms by (simp add: list_all_iff)
  with assms show "list_all (stream_ok ids) (sts[j := (sts ! j)\<lparr>sent := sent (sts ! j) @ [ds], selected_stop := ch\<rparr>])"
    and "list_all (stream_ok ids) (sts[j := (sts ! j)\<lparr>running := b\<rparr>])"
    by (auto simp: list_all_iff stream_ok_def dest!: set_update_subset_insert [THEN subsetD])
qed

lemma inv_checker_at:
  "inv_at ids s n c del \<Longrightarrow> checker_at s i c' \<Longrightarrow> c' \<noteq> Ended \<Longrightarrow> i = n \<and> c' = c"
  by (auto simp: inv_at_def checker_at_def nth_append split: if_splits)

lemma set_checker_last [simp]:
  "(replicate n Ended @ [c])[n := c'] = replicate n Ended @ [c']"
  by (simp add: list_update_append)

lemma Stop_parts:
  assumes "Stop env (dpi, tr) = Some (err, dpi', tr')" and "length (term_buf dpi) \<le> term_capacity"
  shows "devs dpi' = devs dpi" and "length (term_buf dpi') \<le> term_capacity"
proof -
  have "devs dpi' = devs dpi \<and> length (term_buf dpi') \<le> term_capacity"
  proof (cases "server dpi")
    case True
    from Stop_Some [OF assms(1) True] show ?thesis by (simp add: term_capacity_def)
  next
    case False
    with assms show ?thesis by (simp add: Stop_off)
  qed
  then show "devs dpi' = devs dpi" and "length (term_buf dpi') \<le> term_capacity" by simp_all
qed

lemma inv_replace:
  assumes "inv_at ids s n c del" and "checker_ok ids c'" and "pending c' = pending c"
  shows "inv_at ids (set_checker n c' s) n c' del"
  using assms by (simp add: inv_at_def set_checker_def)

lemma inv_plugin:
  assumes "inv_at ids s n c del" and "devs dpi = devs (m_dpi s)" and "length (term_buf dpi) \<le> term_capacity"
  shows "inv_at ids (s\<lparr>m_dpi := dpi\<rparr>) n c del" and "inv_at ids (s\<lparr>m_dpi := dpi, m_trace := tr\<rparr>) n c del"
  using assms by (simp_all add: inv_at_def)

lemma inv_end_stream: "inv_at ids s n c del \<Longrightarrow> stream_runs s j \<Longrightarrow> inv_at ids (end_stream j s) n c del"
  by (simp add: inv_at_def end_stream_def stream_runs_def reports_end stream_ok_update(2) [OF _ _ report_ok_fresh])

lemma inv_open_stream: "inv_at ids s n c del \<Longrightarrow> inv_at ids (open_stream s) n c del"
  by (simp add: inv_at_def open_stream_def reports_open stream_ok_def report_ok_updates)

lemma inv_receive:
  assumes "inv_at ids s n (Sending m ch v) del" and "stream_runs s j"
  shows "inv_at ids (set_checker n (Watching m) (receive_update j ch v s)) n (Watching m) (del @ [(ch, v)])"
proof -
  have ds: "devs (m_dpi s) = apply_updates del (fresh_devices ids)" and sts: "list_all (stream_ok ids) (m_streams s)"
    using assms(1) by (simp_all add: inv_at_def)
  have "report_ok ids (set_health (chan_value ch) v (devs (m_dpi s)))"
    by (simp add: ds report_ok_set_health report_ok_updates)
  moreover have "j < length (m_streams s)" "sent (m_streams s ! j) \<noteq> []"
    using assms(2) sts by (auto simp: stream_runs_def stream_ok_def list_all_iff)
  ultimately show ?thesis
    using assms(1) stream_ok_update(1) [OF sts]
    by (simp add: inv_at_def set_checker_def receive_update_def Let_def reports_receive)
qed

lemma inv_event:
  assumes "inv_at ids s n (Watching m) del"
  shows "\<exists>c. inv_at ids (after_event n m (on_event m sock ev) s) n c del"
proof (cases "on_event m sock ev")
  case (Send ch v)
  then have "v \<in> set ids" using on_event_Send [OF Send] assms by (auto simp: inv_at_def)
  with Send assms show ?thesis
    by (intro exI [of _ "Sending m ch v"]) (simp add: after_event_def inv_at_def set_checker_def)
next
  case Restart
  with inv_replace [OF assms, of Restarting] show ?thesis by (auto simp: after_event_def)
qed (use assms in \<open>auto simp: after_event_def\<close>)

text \<open>Every step keeps the invariant.\<close>

lemma machine_inv_step:
  assumes "machine_inv ids s" and "health_step s t"
  shows "machine_inv ids t"
proof -
  obtain n c del where inv: "inv_at ids s n c del" using assms(1) by (auto simp: machine_inv_def)
  note at = inv_checker_at [OF inv]
  have tb: "length (term_buf (m_dpi s)) \<le> term_capacity" using inv by (simp add: inv_at_def)
  have ids: "ID ` set (devs (m_dpi s)) = set ids"
    using inv report_ids [OF report_ok_updates [OF report_ok_fresh, of ids del]] by (simp add: inv_at_def)
  have "\<exists>n c del. inv_at ids t n c del"
    using assms(2)
  proof (cases rule: health_step.cases)
    case ListAndWatch
    with inv inv_open_stream show ?thesis by blast
  next
    case (receive j i m ch v)
    with at [of i "Sending m ch v"] inv_receive [of ids s n m ch v del j] inv show ?thesis by blast
  next
    case (stream_term j b bs)
    have "inv_at ids (s\<lparr>m_dpi := (m_dpi s)\<lparr>term_buf := bs\<rparr>\<rparr>) n c del"
      by (rule inv_plugin(1) [OF inv]) (use tb stream_term in simp_all)
    with stream_term inv_end_stream show ?thesis by (fastforce simp: stream_runs_def)
  next
    case (stream_stop j)
    with inv inv_end_stream show ?thesis by blast
  next
    case (check_setup i h m)
    then have "fmran' m \<subseteq> set ids" using healthCheck_setup_ran [of h "m_dpi s" m] ids by simp
    with check_setup at [of i Setup] inv_replace [OF inv, of "Watching m"] show ?thesis by fastforce
  next
    case (check_setup_error i h err)
    with at [of i Setup] inv_replace [OF inv, of Ended] show ?thesis by fastforce
  next
    case (check_stop i m)
    with at [of i "Watching m"] inv_replace [OF inv, of Ended] show ?thesis by fastforce
  next
    case (check_event i m ev)
    with at [of i "Watching m"] inv_event [of ids s n m del] inv show ?thesis by blast
  next
    case (restart_none i)
    with at [of i Restarting] inv_replace [OF inv, of Ended] show ?thesis by fastforce
  next
    case (restart_stop i env err dpi tr)
    with inv_plugin(2) [OF inv Stop_parts [OF restart_stop(4) tb]] at [of i Restarting]
      inv_replace [of ids "s\<lparr>m_dpi := dpi, m_trace := tr\<rparr>" n c del Restart_start] show ?thesis by fastforce
  next
    case (restart_start i env err dpi tr)
    have "inv_at ids (s\<lparr>m_dpi := dpi, m_trace := tr\<rparr>) n c del"
      by (rule inv_plugin(2) [OF inv]) (use Start_frame [OF restart_start(3)] tb in simp_all)
    with restart_start at [of i Restart_start] inv_replace [of ids _ n c del Ended] show ?thesis by fastforce
  next
    case (restart_started i env dpi tr)
    have "inv_at ids (s\<lparr>m_dpi := dpi, m_trace := tr\<rparr>) n c del"
      by (rule inv_plugin(2) [OF inv]) (use Start_frame [OF restart_started(3)] tb in simp_all)
    with restart_started at [of i Restart_start] have "inv_at ids t (Suc n) Setup del"
      by (auto simp: inv_at_def replicate_app_Cons_same replicate_append_same simp flip: replicate_Suc)
    then show ?thesis by blast
  next
    case close_stop
    with inv show ?thesis by (auto simp: inv_at_def)
  next
    case (shutdown env err dpi tr)
    with inv_plugin(2) [OF inv Stop_parts [OF shutdown(3) tb]] show ?thesis by blast
  qed
  then show ?thesis by (simp add: machine_inv_def)
qed

lemma machine_inv_init: "health_init name path ids s \<Longrightarrow> machine_inv ids s"
proof -
  assume "health_init name path ids s"
  then obtain env dpi tr where st: "Start env Global_stop (NewGenericDevicePlugin name path (fresh_devices ids), []) = (None, dpi, tr)"
    and s: "s = \<lparr>m_dpi = dpi, m_trace = tr, m_streams = [], m_checkers = [Setup], m_stopped = False, m_updates = []\<rparr>"
    by (auto simp: health_init_def)
  have "inv_at ids s 0 Setup []"
    using Start_frame [OF st]
    by (simp add: s inv_at_def reports_def apply_updates_def NewGenericDevicePlugin_def term_capacity_def)
  then show ?thesis unfolding machine_inv_def by blast
qed

interpretation health: invariant_system "health_init name path ids" health_step "machine_inv ids"
  by unfold_locales (use machine_inv_init machine_inv_step in blast)+

section \<open>Blocked health checks\<close>

definition registrations :: "effect list \<Rightarrow> RegisterRequest list" where
  "registrations tr = List.map_filter (\<lambda>e. case e of CallRegister q \<Rightarrow> Some q | _ \<Rightarrow> None) tr"

lemma registrations_append [simp]: "registrations (tr @ tr') = registrations tr @ registrations tr'"
  by (simp add: registrations_def List.map_filter_def)

lemma Stop_registrations:
  assumes "Stop env (dpi, tr) = Some (err, dpi', tr')"
  shows "registrations tr' = registrations tr"
proof (cases "server dpi")
  case True
  from Stop_Some(3) [OF assms True] show ?thesis by (simp add: registrations_def List.map_filter_def)
qed (use assms in \<open>simp add: Stop_off\<close>)

text \<open>
  A health check that cannot go on by itself: it has returned, or it is in a send. No
  \<^verbatim>\<open>ListAndWatch\<close> runs.
\<close>

definition halted :: "machine \<Rightarrow> nat \<Rightarrow> checker \<Rightarrow> bool" where
  "halted s n c \<longleftrightarrow> m_checkers s = replicate n Ended @ [c] \<and>
     (c = Ended \<or> (\<exists>m ch v. c = Sending m ch v) \<and> (\<forall>j. \<not> stream_runs s j))"

lemma halted_at: "halted s n c \<Longrightarrow> checker_at s i c' \<Longrightarrow> c' \<noteq> Ended \<Longrightarrow> c' = c \<and> (\<exists>m ch v. c = Sending m ch v)"
  by (auto simp: halted_def checker_at_def nth_append split: if_splits)

lemma streams_step: "health_step s t \<Longrightarrow> length (m_streams s) \<le> length (m_streams t)"
proof (induction rule: health_step.induct)
  case (check_event s i m ev)
  then show ?case by (simp add: after_event_def set_checker_def split: action.splits)
qed (simp_all add: open_stream_def end_stream_def set_checker_def receive_update_def Let_def)

lemma stream_runs_end: "stream_runs (end_stream j s) k \<Longrightarrow> stream_runs s k"
  by (cases "j = k") (auto simp: end_stream_def stream_runs_def)

lemma end_stream_fields [simp]:
  "m_checkers (end_stream j s) = m_checkers s" "m_trace (end_stream j s) = m_trace s"
  "m_dpi (end_stream j s) = m_dpi s" "m_updates (end_stream j s) = m_updates s"
  "length (m_streams (end_stream j s)) = length (m_streams s)"
  by (simp_all add: end_stream_def)

lemma halted_end_stream: "halted s n c \<Longrightarrow> halted (end_stream j s) n c"
  unfolding halted_def by (auto dest: stream_runs_end)

lemma halted_update [simp]:
  "halted (s\<lparr>m_dpi := dpi\<rparr>) n c \<longleftrightarrow> halted s n c"
  "halted (s\<lparr>m_dpi := dpi, m_trace := tr\<rparr>) n c \<longleftrightarrow> halted s n c"
  "halted (s\<lparr>m_stopped := b\<rparr>) n c \<longleftrightarrow> halted s n c"
  by (simp_all add: halted_def stream_runs_def)

lemma halted_step:
  assumes "health_step s t" and "halted s n c" and "c = Ended \<or> length (m_streams t) = length (m_streams s)"
  shows "halted t n c \<and> registrations (m_trace t) = registrations (m_trace s)"
  using assms
proof (induction rule: health_step.induct)
  case (ListAndWatch s)
  then show ?case by (auto simp: open_stream_def halted_def)
next
  case (receive s j i m ch v)
  then show ?case using halted_at [OF receive(3,2)] by (auto simp: halted_def)
next
  case (stream_term s j b bs)
  then show ?case by (simp add: halted_end_stream)
next
  case (stream_stop s j)
  then show ?case by (simp add: halted_end_stream)
next
  case (shutdown s env err dpi tr)
  then show ?case using Stop_registrations by simp
qed (use halted_at in \<open>fastforce+\<close>)

lemma halted_star:
  assumes "health_step\<^sup>*\<^sup>* s t" and "halted s n c" and "c = Ended \<or> length (m_streams t) = length (m_streams s)"
  shows "halted t n c \<and> registrations (m_trace t) = registrations (m_trace s)"
  using assms
proof (induction rule: rtranclp_induct)
  case (step t u)
  have "length (m_streams s) \<le> length (m_streams t)"
    using step(1) by (induction rule: rtranclp_induct) (use streams_step le_trans in blast)+
  then have "c = Ended \<or> length (m_streams t) = length (m_streams s) \<and> length (m_streams u) = length (m_streams t)"
    using streams_step [OF step(2)] step(5) by auto
  then show ?case using step(3) [OF step(4)] halted_step [OF step(2)] by auto
qed simp

section \<open>Event paths\<close>

text \<open>The file name of a device.\<close>

definition file_name :: "bool \<Rightarrow> plugin_device \<Rightarrow> string" where
  "file_name b d = (if b then ''vfio'' @ ID d else ID d)"

lemma device_file_eq: "device_file b path d = Join [path, file_name b d]"
  by (simp add: device_file_def file_name_def Let_def)

lemma simple_file_name: "simple_name (ID d) \<Longrightarrow> simple_name (file_name b d)"
  using simple_prefix [of "ID d" "''vfio''"] by (simp add: file_name_def)

definition vfio_dir :: "string \<Rightarrow> bool" where
  "vfio_dir path \<longleftrightarrow> path = ''/dev/vfio/'' \<or> path = ''/dev/vfio/devices/''"

lemma vfio_dir_rooted:
  assumes "vfio_dir path"
  obtains ds where "path = rooted (''dev'' # ds) @ ''/''" "ds \<noteq> []" "\<forall>c \<in> set (''dev'' # ds). simple_name c"
proof (cases "path = ''/dev/vfio/''")
  case True
  then show thesis by (intro that [of "[''vfio'']"]) (simp_all add: rooted_def simple_name_def)
next
  case False
  with assms show thesis
    by (intro that [of "[''vfio'', ''devices'']"]) (simp_all add: vfio_dir_def rooted_def simple_name_def)
qed

lemma device_file_rooted:
  assumes "path = rooted (''dev'' # ds) @ ''/''" and "\<forall>c \<in> set (''dev'' # ds). simple_name c"
    and "simple_name (ID d)"
  shows "device_file b path d = rooted ((''dev'' # ds) @ [file_name b d])"
  unfolding device_file_eq assms(1)
  by (intro Join_dir_slash) (use assms(2) simple_file_name [OF assms(3)] in simp_all)

lemma device_file_inj:
  assumes "vfio_dir path" and "simple_name (ID d)" and "simple_name (ID d')"
    and "device_file b path d = device_file b path d'"
  shows "ID d = ID d'"
proof -
  obtain ds where ds: "path = rooted (''dev'' # ds) @ ''/''" "\<forall>c \<in> set (''dev'' # ds). simple_name c"
    using assms(1) by (rule vfio_dir_rooted)
  have "rooted ((''dev'' # ds) @ [file_name b d]) = rooted ((''dev'' # ds) @ [file_name b d'])"
    using assms(4) by (simp only: device_file_rooted [OF ds assms(2)] device_file_rooted [OF ds assms(3)])
  then have "(''dev'' # ds) @ [file_name b d] = (''dev'' # ds) @ [file_name b d']"
    by (subst (asm) rooted_inj) (use ds(2) simple_file_name assms(2,3) in auto)
  then show ?thesis by (simp add: file_name_def split: if_splits)
qed

lemma watch_devices_lookup:
  assumes "watch_devices add b path ds m = Inr m'"
    and "\<And>x y. x \<in> set ds \<Longrightarrow> y \<in> set ds \<Longrightarrow> device_file b path x = device_file b path y \<Longrightarrow> ID x = ID y"
  shows "(\<forall>d \<in> set ds. fmlookup m' (device_file b path d) = Some (ID d)) \<and>
    (\<forall>f. f \<notin> device_file b path ` set ds \<longrightarrow> fmlookup m' f = fmlookup m f)"
  using assms
proof (induction ds arbitrary: m)
  case (Cons d ds)
  have w: "watch_devices add b path ds (fmupd (device_file b path d) (ID d) m) = Inr m'"
    using Cons.prems(1) by (auto simp: Let_def split: option.splits)
  have ih: "(\<forall>x \<in> set ds. fmlookup m' (device_file b path x) = Some (ID x)) \<and>
    (\<forall>f. f \<notin> device_file b path ` set ds \<longrightarrow> fmlookup m' f = fmlookup (fmupd (device_file b path d) (ID d) m) f)"
    by (rule Cons.IH [OF w], rule Cons.prems(2)) (auto intro: list.set_intros)
  have "fmlookup m' (device_file b path d) = Some (ID d)"
  proof (cases "device_file b path d \<in> device_file b path ` set ds")
    case True
    then obtain e where e: "e \<in> set ds" "device_file b path d = device_file b path e" by auto
    then have "ID e = ID d" using Cons.prems(2) [of e d] by simp
    moreover have "fmlookup m' (device_file b path e) = Some (ID e)" using ih e(1) by blast
    ultimately show ?thesis using e(2) by simp
  next
    case False
    with ih show ?thesis by simp
  qed
  with ih show ?case by auto
qed simp

lemma setup_lookup:
  assumes "healthCheck_setup h dpi = Inr m" and "supportsIOMMUFD (w_stat h) = Inr b"
    and "vfio_dir (devicePath dpi)" and "\<forall>d \<in> set (devs dpi). simple_name (ID d)"
  shows "d \<in> set (devs dpi) \<Longrightarrow> fmlookup m (device_file b (devicePath dpi) d) = Some (ID d)"
    and "f \<notin> device_file b (devicePath dpi) ` set (devs dpi) \<Longrightarrow> fmlookup m f = None"
proof -
  have w: "watch_devices (w_add h) b (devicePath dpi) (devs dpi) fmempty = Inr m"
    using assms(1,2) by (auto simp: healthCheck_setup_def split: option.splits if_splits)
  have "(\<forall>d \<in> set (devs dpi). fmlookup m (device_file b (devicePath dpi) d) = Some (ID d)) \<and>
    (\<forall>f. f \<notin> device_file b (devicePath dpi) ` set (devs dpi) \<longrightarrow> fmlookup m f = fmlookup fmempty f)"
  proof (rule watch_devices_lookup [OF w])
    fix x y assume "x \<in> set (devs dpi)" "y \<in> set (devs dpi)"
      and "device_file b (devicePath dpi) x = device_file b (devicePath dpi) y"
    with assms(4) show "ID x = ID y" by (intro device_file_inj [OF assms(3)]) auto
  qed
  then show "d \<in> set (devs dpi) \<Longrightarrow> fmlookup m (device_file b (devicePath dpi) d) = Some (ID d)"
    and "f \<notin> device_file b (devicePath dpi) ` set (devs dpi) \<Longrightarrow> fmlookup m f = None" by simp_all
qed

lemma socket_not_device:
  assumes "vfio_dir path" and "simple_name (ID d)"
  shows "device_file b path d \<noteq> DevicePluginPath @ x"
proof -
  obtain ds where ds: "path = rooted (''dev'' # ds) @ ''/''" "\<forall>c \<in> set (''dev'' # ds). simple_name c"
    using assms(1) by (rule vfio_dir_rooted)
  have "device_file b path d = ''/dev/'' @ join_slash (ds @ [file_name b d])"
    unfolding device_file_rooted [OF ds assms(2)] by (cases ds) (simp_all add: rooted_def)
  then show ?thesis by (simp add: DevicePluginPath_def)
qed

end
