(* ===== verification/HealthAll.thy ===== *)
theory HealthAll
  imports Health
begin

text \<open>
  Properties of the health checks and of what the kubelet is told: soundness of the reports,
  accounting of the updates, the meaning of file system events, and the restarts.
\<close>

section \<open>The last update of a device\<close>

definition last_health :: "(health_chan \<times> string) list \<Rightarrow> string \<Rightarrow> string" where
  "last_health us i = (let xs = filter (\<lambda>u. snd u = i) us
     in if xs = [] then Healthy else chan_value (fst (last xs)))"

lemma last_health_snoc:
  "last_health (us @ [(ch, v)]) i = (if v = i then chan_value ch else last_health us i)"
  by (simp add: last_health_def Let_def)

lemma set_health_cases:
  "d \<in> set (set_health h v ds) \<Longrightarrow> \<exists>e \<in> set ds. ID d = ID e \<and> Health d = (if v = ID e then h else Health e)"
  by (auto simp: set_health_def)

lemma updates_last: "d \<in> set (apply_updates us (fresh_devices ids)) \<Longrightarrow> Health d = last_health us (ID d)"
proof (induction us arbitrary: d rule: rev_induct)
  case Nil
  then show ?case by (auto simp: apply_updates_def fresh_devices_def last_health_def)
next
  case (snoc u us)
  obtain ch v where u: "u = (ch, v)" by (cases u)
  obtain e where "e \<in> set (apply_updates us (fresh_devices ids))" "ID d = ID e"
      "Health d = (if v = ID e then chan_value ch else Health e)"
    using set_health_cases snoc.prems unfolding u apply_updates_snoc by blast
  with snoc.IH [of e] show ?case by (simp add: u last_health_snoc)
qed

section \<open>A single stream\<close>

definition current_inv :: "string list \<Rightarrow> machine \<Rightarrow> bool" where
  "current_inv ids s \<longleftrightarrow> machine_inv ids s \<and>
     (length (m_streams s) \<le> 1 \<longrightarrow> (\<forall>st \<in> set (m_streams s). last (sent st) = devs (m_dpi s)))"

lemma Stop_devs: "Stop env (dpi, tr) = Some (err, dpi', tr') \<Longrightarrow> devs dpi' = devs dpi"
  by (cases "server dpi") (auto simp: Stop_off dest: Stop_Some(2))

lemma set_checker_fields [simp]:
  "m_streams (set_checker i c s) = m_streams s" "m_dpi (set_checker i c s) = m_dpi s"
  "m_trace (set_checker i c s) = m_trace s" "m_stopped (set_checker i c s) = m_stopped s"
  by (simp_all add: set_checker_def)

lemma after_event_fields [simp]:
  "m_streams (after_event i m a s) = m_streams s" "m_dpi (after_event i m a s) = m_dpi s"
  "m_trace (after_event i m a s) = m_trace s"
  by (simp_all add: after_event_def split: action.splits)

lemma end_stream_last:
  "st \<in> set (m_streams (end_stream j s)) \<Longrightarrow> j < length (m_streams s) \<Longrightarrow> \<exists>st' \<in> set (m_streams s). sent st = sent st'"
  by (auto simp: end_stream_def dest!: set_update_subset_insert [THEN subsetD])

lemma current_step:
  assumes "health_step s t" and "length (m_streams t) \<le> 1"
    and "\<forall>st \<in> set (m_streams s). last (sent st) = devs (m_dpi s)"
  shows "\<forall>st \<in> set (m_streams t). last (sent st) = devs (m_dpi t)"
  using assms
proof (induction rule: health_step.induct)
  case (ListAndWatch s)
  then show ?case by (auto simp: open_stream_def)
next
  case (receive s j i m ch v)
  then have "length (m_streams s) \<le> 1" "j < length (m_streams s)"
    by (simp_all add: stream_runs_def receive_update_def Let_def)
  then obtain st where "m_streams s = [st]" "j = 0" by (cases "m_streams s") auto
  then show ?case by (simp add: receive_update_def Let_def)
next
  case (stream_term s j b bs)
  then show ?case
    using end_stream_last [of _ j "s\<lparr>m_dpi := (m_dpi s)\<lparr>term_buf := bs\<rparr>\<rparr>"] by (fastforce simp: stream_runs_def)
next
  case (stream_stop s j)
  then show ?case using end_stream_last [of _ j s] by (fastforce simp: stream_runs_def)
qed (auto simp: Stop_devs Start_frame(1))

interpretation current: invariant_system "health_init name path ids" health_step "current_inv ids"
proof
  fix s assume "health_init name path ids s"
  then show "current_inv ids s" using machine_inv_init by (auto simp: current_inv_def health_init_def)
next
  fix s t assume "current_inv ids s" "health_step s t"
  then show "current_inv ids t"
    using machine_inv_step streams_step [of s t] current_step [of s t] by (auto simp: current_inv_def)
qed

section \<open>Restarts\<close>

text \<open>Where every call of the host succeeds.\<close>

definition fine_watch :: watch_env where
  "fine_watch = \<lparr>w_stat = (\<lambda>_. None), w_new = None, w_add = (\<lambda>_. None)\<rparr>"

lemma Start_fine:
  "\<not> server dpi \<Longrightarrow> Start all_fine ch (dpi, tr) = (None, dpi\<lparr>stop_ch := ch, server := True\<rparr>,
     tr @ serve_effects (socketPath dpi) True @ register_effects dpi @ [GoHealthCheck])"
  by (simp add: start_defs all_fine_def serve_effects_def register_effects_def)

lemma Stop_fine:
  "server dpi \<Longrightarrow> term_buf dpi = [] \<Longrightarrow> Stop all_fine (dpi, tr) =
     Some (None, dpi\<lparr>term_buf := [True], server := False\<rparr>, tr @ [SendTerm, ServerStop, RemoveFile (socketPath dpi)])"
  by (simp add: Stop_def term_capacity_def Let_def cleanup_result all_fine_def)

lemma registrations_started:
  "registrations ([SendTerm, ServerStop, RemoveFile p] @ serve_effects p True @ register_effects dpi @ [GoHealthCheck]) =
     [register_request dpi]"
  "registrations (serve_effects p True @ register_effects dpi @ [GoHealthCheck]) = [register_request dpi]"
  by (simp_all add: registrations_def List.map_filter_def serve_effects_def register_effects_def)

text \<open>The three steps of a restart after the removal of the socket.\<close>

definition restarted :: "nat \<Rightarrow> machine \<Rightarrow> machine" where
  "restarted i s = (let tr = m_trace s @ [SendTerm, ServerStop, RemoveFile (socketPath (m_dpi s))] in
     s\<lparr>m_dpi := (m_dpi s)\<lparr>term_buf := [True], stop_ch := Fresh_stop (length tr), server := True\<rparr>,
       m_trace := tr @ serve_effects (socketPath (m_dpi s)) True @ register_effects (m_dpi s) @ [GoHealthCheck],
       m_checkers := (m_checkers s)[i := Ended] @ [Setup]\<rparr>)"

lemma restart_steps:
  assumes "checker_at s i (Watching m)" and "fmlookup m (socketPath (m_dpi s)) = None"
    and "server (m_dpi s)" and "term_buf (m_dpi s) = []"
  shows "health_step\<^sup>*\<^sup>* s (restarted i s)"
proof -
  let ?d = "m_dpi s" and ?p = "socketPath (m_dpi s)"
  let ?tr = "m_trace s @ [SendTerm, ServerStop, RemoveFile ?p]"
  let ?s1 = "set_checker i Restarting s"
  let ?d2 = "?d\<lparr>term_buf := [True], server := False\<rparr>"
  let ?s2 = "set_checker i Restart_start (?s1\<lparr>m_dpi := ?d2, m_trace := ?tr\<rparr>)"
  have i: "i < length (m_checkers s)" using assms(1) by (simp add: checker_at_def)
  have "on_event m ?p \<lparr>ev_Name = ?p, ev_Op = op_Remove\<rparr> = Restart" using assms(2) by (simp add: on_event_def)
  then have 1: "health_step s ?s1"
    using check_event [OF assms(1), of "\<lparr>ev_Name = ?p, ev_Op = op_Remove\<rparr>"] by (simp add: after_event_def)
  have 2: "health_step ?s1 ?s2"
    by (rule restart_stop [where env = all_fine and err = None]) (use i assms(3,4) in \<open>simp_all add: checker_at_def set_checker_def Stop_fine\<close>)
  have at: "checker_at ?s2 i Restart_start" using i by (simp add: checker_at_def set_checker_def)
  have st: "Start all_fine (Fresh_stop (length (m_trace ?s2))) (m_dpi ?s2, m_trace ?s2) =
      (None, ?d2\<lparr>stop_ch := Fresh_stop (length ?tr), server := True\<rparr>,
       ?tr @ serve_effects ?p True @ register_effects ?d2 @ [GoHealthCheck])"
    by (simp add: Start_fine)
  have 3: "health_step ?s2 (restarted i s)"
    using restart_started [OF at st] i assms(3)
    by (simp add: restarted_def Let_def set_checker_def register_effects_def)
  from 1 2 3 show ?thesis by (meson rtranclp.rtrancl_into_rtrancl rtranclp.rtrancl_refl)
qed

section \<open>Sample states\<close>

text \<open>The state after a start without errors, with the checks and streams given.\<close>

definition started :: "string \<Rightarrow> string \<Rightarrow> string list \<Rightarrow> stream list \<Rightarrow> checker \<Rightarrow> machine" where
  "started name path ids sts c = (let dpi = NewGenericDevicePlugin name path (fresh_devices ids) in
     \<lparr>m_dpi = dpi\<lparr>stop_ch := Global_stop, server := True\<rparr>,
      m_trace = serve_effects (socketPath dpi) True @ register_effects dpi @ [GoHealthCheck],
      m_streams = sts, m_checkers = [c], m_stopped = False, m_updates = []\<rparr>)"

lemma started_fields [simp]:
  "devs (m_dpi (started name path ids sts c)) = fresh_devices ids"
  "server (m_dpi (started name path ids sts c))" "term_buf (m_dpi (started name path ids sts c)) = []"
  "socketPath (m_dpi (started name path ids sts c)) = DevicePluginPath @ socket_name name"
  "devicePath (m_dpi (started name path ids sts c)) = path"
  "m_streams (started name path ids sts c) = sts" "m_checkers (started name path ids sts c) = [c]"
  "m_updates (started name path ids sts c) = []"
  by (simp_all add: started_def Let_def NewGenericDevicePlugin_def socket_name_def)

lemma started_registrations [simp]: "length (registrations (m_trace (started name path ids sts c))) = 1"
  by (simp add: started_def Let_def registrations_started(2) del: registrations_append)

lemma started_reach: "reach (health_init name path ids) health_step (started name path ids [] Setup)"
proof (rule reach_init)
  have "\<not> server (NewGenericDevicePlugin name path (fresh_devices ids))" by (simp add: NewGenericDevicePlugin_def)
  from Start_fine [OF this, of Global_stop "[]"] show "health_init name path ids (started name path ids [] Setup)"
    unfolding health_init_def started_def Let_def by auto
qed

lemma setup_fine: "\<exists>m. healthCheck_setup fine_watch dpi = Inr m"
proof -
  have "\<exists>m'. watch_devices (\<lambda>_. None) b path ds m = Inr m'" for b path ds m
    by (induction ds arbitrary: m) (simp_all add: Let_def)
  then show ?thesis by (simp add: healthCheck_setup_def fine_watch_def supportsIOMMUFD_def)
qed

lemma started_watching:
  assumes "vfio_dir path" and "\<forall>i \<in> set ids. simple_name i"
  obtains m where "reach (health_init name path ids) health_step (started name path ids [] (Watching m))"
    and "\<And>i. i \<in> set ids \<Longrightarrow> fmlookup m (Join [path, ''vfio'' @ i]) = Some i"
    and "fmlookup m (DevicePluginPath @ socket_name name) = None"
proof -
  let ?s = "started name path ids [] Setup"
  obtain m where m: "healthCheck_setup fine_watch (m_dpi ?s) = Inr m" using setup_fine by blast
  have p: "supportsIOMMUFD (w_stat fine_watch) = Inr True" by (simp add: fine_watch_def supportsIOMMUFD_def)
  have d: "vfio_dir (devicePath (m_dpi ?s))" "\<forall>d \<in> set (devs (m_dpi ?s)). simple_name (ID d)"
    using assms by (auto simp: fresh_devices_def)
  note lk = setup_lookup [OF m p d]
  have "health_step ?s (set_checker 0 (Watching m) ?s)"
    by (rule check_setup [OF _ m]) (simp add: checker_at_def)
  then have "reach (health_init name path ids) health_step (set_checker 0 (Watching m) ?s)"
    using started_reach reach_step by metis
  moreover have "set_checker 0 (Watching m) ?s = started name path ids [] (Watching m)"
    by (simp add: set_checker_def started_def Let_def)
  moreover have "fmlookup m (Join [path, ''vfio'' @ i]) = Some i" if "i \<in> set ids" for i
    using lk(1) [of "\<lparr>ID = i, Health = Healthy\<rparr>"] that
    by (force simp: device_file_def fresh_devices_def Let_def)
  moreover have "fmlookup m (DevicePluginPath @ socket_name name) = None"
  proof (rule lk(2))
    show "DevicePluginPath @ socket_name name \<notin> device_file True (devicePath (m_dpi ?s)) ` set (devs (m_dpi ?s))"
      using socket_not_device [OF d(1)] d(2) by (metis imageE)
  qed
  ultimately show thesis using that by simp
qed

lemma started_open:
  "open_stream (started name path ids [] c) =
     started name path ids [\<lparr>sent = [fresh_devices ids], running = True, selected_stop = Global_stop\<rparr>] c"
  by (simp add: open_stream_def started_def Let_def NewGenericDevicePlugin_def)

lemma started_streaming:
  assumes "reach (health_init name path ids) health_step (started name path ids [] c)"
  shows "reach (health_init name path ids) health_step
    (started name path ids [\<lparr>sent = [fresh_devices ids], running = True, selected_stop = Global_stop\<rparr>] c)"
  using reach_step [OF assms ListAndWatch] by (simp add: started_open)

lemma sample_names: "vfio_dir ''/dev/vfio/devices/''" "\<forall>i \<in> set [''1'']. simple_name i"
  by (simp_all add: vfio_dir_def simple_name_def)

text \<open>A plugin with IOMMUFD whose device file is removed, before and after the report of it.\<close>

abbreviation sample_reach :: "machine \<Rightarrow> bool" where
  "sample_reach \<equiv> reach (health_init ''pgpu'' ''/dev/vfio/devices/'' [''1'']) health_step"

abbreviation sample_started :: "stream list \<Rightarrow> checker \<Rightarrow> machine" where
  "sample_started \<equiv> started ''pgpu'' ''/dev/vfio/devices/'' [''1'']"

lemma sample_sending:
  assumes "sample_reach (sample_started sts (Watching m))"
    and "fmlookup m (Join [''/dev/vfio/devices/'', ''vfio'' @ ''1'']) = Some ''1''"
  shows "sample_reach ((sample_started sts (Sending m Unhealthy_chan ''1''))\<lparr>m_updates := [(Unhealthy_chan, ''1'')]\<rparr>)"
proof -
  let ?s = "sample_started sts (Watching m)"
  let ?e = "\<lparr>ev_Name = Join [''/dev/vfio/devices/'', ''vfio'' @ ''1''], ev_Op = op_Remove\<rparr>"
  have at: "checker_at ?s 0 (Watching m)" by (simp add: checker_at_def)
  have ev: "on_event m (socketPath (m_dpi ?s)) ?e = Send Unhealthy_chan ''1''"
    using assms(2) by (simp add: on_event_def op_Remove_def op_Create_def)
  have "health_step ?s (after_event 0 m (Send Unhealthy_chan ''1'') ?s)"
    using check_event [OF at, of ?e] unfolding ev .
  with assms(1) have "sample_reach (after_event 0 m (Send Unhealthy_chan ''1'') ?s)" by (rule reach_step)
  then show ?thesis by (simp add: after_event_def set_checker_def started_def Let_def)
qed

lemma sample_reported:
  "\<exists>s st. sample_reach s \<and> m_updates s = [(Unhealthy_chan, ''1'')] \<and> m_streams s = [st] \<and> length (sent st) = 2 \<and>
     devs (m_dpi s) = [\<lparr>ID = ''1'', Health = Unhealthy\<rparr>]"
proof -
  obtain m where r: "sample_reach (sample_started [] (Watching m))"
    and l: "\<And>i. i \<in> set [''1''] \<Longrightarrow> fmlookup m (Join [''/dev/vfio/devices/'', ''vfio'' @ i]) = Some i"
    using started_watching [OF sample_names] by metis
  let ?st = "\<lparr>sent = [fresh_devices [''1'']], running = True, selected_stop = Global_stop\<rparr>"
  let ?s = "(sample_started [?st] (Sending m Unhealthy_chan ''1''))\<lparr>m_updates := [(Unhealthy_chan, ''1'')]\<rparr>"
  let ?t = "set_checker 0 (Watching m) (receive_update 0 Unhealthy_chan ''1'' ?s)"
  have "sample_reach ?s" by (rule sample_sending [OF started_streaming [OF r] l]) simp
  moreover have "health_step ?s ?t" by (rule receive) (simp_all add: stream_runs_def checker_at_def)
  ultimately have "sample_reach ?t" by (rule reach_step)
  then show ?thesis
    by (intro exI [of _ ?t] exI [of _ "hd (m_streams ?t)"] conjI)
       (simp_all add: set_checker_def receive_update_def Let_def set_health_def chan_value_def fresh_devices_def)
qed

text \<open>What every reachable state has sent.\<close>

lemma reachable_reports:
  assumes "reach (health_init name path ids) health_step s"
  shows "st \<in> set (m_streams s) \<Longrightarrow> resp \<in> set (sent st) \<Longrightarrow> report_ok ids resp"
    and "report_ok ids (devs (m_dpi s))" and "length (term_buf (m_dpi s)) \<le> 1"
proof -
  obtain n c del where i: "inv_at ids s n c del" using health.inv_reach [OF assms] by (auto simp: machine_inv_def)
  then show "st \<in> set (m_streams s) \<Longrightarrow> resp \<in> set (sent st) \<Longrightarrow> report_ok ids resp"
    by (auto simp: inv_at_def stream_ok_def list_all_iff)
  from i show "report_ok ids (devs (m_dpi s))" and "length (term_buf (m_dpi s)) \<le> 1"
    using report_ok_updates [OF report_ok_fresh, of ids del] by (auto simp: inv_at_def term_capacity_def)
qed

section \<open>Properties\<close>

text \<open>C12. In every state that can be reached, each report a \<^verbatim>\<open>ListAndWatch\<close> has sent lists
  exactly the plugin's devices, in their order, each healthy or unhealthy; and the channel
  \<^verbatim>\<open>term\<close> never holds more than one token.\<close>

theorem reports_sound:
  assumes "reach (health_init name path ids) health_step s"
  shows "(\<forall>st \<in> set (m_streams s). \<forall>resp \<in> set (sent st). report_ok ids resp) \<and>
    report_ok ids (devs (m_dpi s)) \<and> length (term_buf (m_dpi s)) \<le> 1"
  using reachable_reports [OF assms] by blast

theorem reports_sound_witness:
  "\<exists>s st. sample_reach s \<and> m_streams s = [st] \<and> length (sent st) = 2 \<and> list_all (report_ok [''1'']) (sent st)"
proof -
  obtain s st where s: "sample_reach s" "m_streams s = [st]" "length (sent st) = 2" using sample_reported by blast
  with reports_sound [OF s(1)] show ?thesis by (auto simp: list_all_iff)
qed

text \<open>C15. No health update is lost or reported twice: the updates the events called for are those
  delivered, in order, each of which made one report on one stream, and at most one still
  being sent. When none is being sent, the health of every device is that of the last event
  on its file, and healthy where there was none.\<close>

theorem updates_reported_once:
  assumes "reach (health_init name path ids) health_step s"
  shows "\<exists>del snd. m_updates s = del @ snd \<and> length snd \<le> 1 \<and>
    length del = (\<Sum>st\<leftarrow>m_streams s. length (sent st) - 1) \<and>
    (snd = [] \<longrightarrow> (\<forall>d \<in> set (devs (m_dpi s)). Health d = last_health (m_updates s) (ID d)))"
proof -
  obtain n c del where i: "inv_at ids s n c del" using health.inv_reach [OF assms] by (auto simp: machine_inv_def)
  have "length (pending c) \<le> 1" by (cases c) simp_all
  moreover have "\<forall>d \<in> set (devs (m_dpi s)). Health d = last_health del (ID d)"
    using i updates_last by (auto simp: inv_at_def)
  ultimately show ?thesis
    using i by (intro exI [of _ del] exI [of _ "pending c"]) (auto simp: inv_at_def reports_def)
qed

theorem updates_reported_once_witness:
  "\<exists>s. sample_reach s \<and> m_updates s = [(Unhealthy_chan, ''1'')] \<and>
     list_all (\<lambda>d. Health d = last_health [(Unhealthy_chan, ''1'')] (ID d)) (devs (m_dpi s))"
proof -
  obtain s st where s: "sample_reach s" "m_updates s = [(Unhealthy_chan, ''1'')]" "m_streams s = [st]" "length (sent st) = 2"
    using sample_reported by blast
  obtain del snd where d: "m_updates s = del @ snd" "length del = (\<Sum>st\<leftarrow>m_streams s. length (sent st) - 1)"
    and h: "snd = [] \<longrightarrow> (\<forall>d \<in> set (devs (m_dpi s)). Health d = last_health (m_updates s) (ID d))"
    using updates_reported_once [OF s(1)] by blast
  have "length del + length snd = 1" using arg_cong [OF d(1), of length] s(2) by simp
  then have "snd = []" using d(2) s(3,4) by simp
  with h s(2) have "list_all (\<lambda>d. Health d = last_health [(Unhealthy_chan, ''1'')] (ID d)) (devs (m_dpi s))"
    by (simp only: list_all_iff simp_thms)
  with s(1,2) show ?thesis by blast
qed

text \<open>At most one health check of a plugin has not returned: a restart never leaves two
  goroutines that watch the same files.\<close>

theorem single_health_check:
  assumes "reach (health_init name path ids) health_step s"
    and "checker_at s i c" and "checker_at s j c'" and "c \<noteq> Ended" and "c' \<noteq> Ended"
  shows "i = j"
proof -
  obtain n d del where "inv_at ids s n d del" using health.inv_reach [OF assms(1)] by (auto simp: machine_inv_def)
  from inv_checker_at [OF this assms(2,4)] inv_checker_at [OF this assms(3,5)] show ?thesis by simp
qed

theorem single_health_check_witness:
  "{i. checker_at (sample_started [] Setup) i Setup} = {0}"
proof -
  have c: "checker_at (sample_started [] Setup) 0 Setup" by (simp add: checker_at_def)
  then show ?thesis using single_health_check [OF started_reach _ c] by blast
qed

text \<open>While the kubelet has opened only one \<^verbatim>\<open>ListAndWatch\<close>, the last report on it shows the
  devices as they are now.\<close>

theorem single_stream_current:
  assumes "reach (health_init name path ids) health_step s" and "m_streams s = [st]"
  shows "last (sent st) = devs (m_dpi s)"
  using current.inv_reach [OF assms(1)] assms(2) by (simp add: current_inv_def)

theorem single_stream_current_witness:
  "\<exists>s st. sample_reach s \<and> m_streams s = [st] \<and> last (sent st) = [\<lparr>ID = ''1'', Health = Unhealthy\<rparr>]"
proof -
  obtain s st where s: "sample_reach s" "m_streams s = [st]" "devs (m_dpi s) = [\<lparr>ID = ''1'', Health = Unhealthy\<rparr>]"
    using sample_reported by blast
  with single_stream_current [OF s(1,2)] show ?thesis by auto
qed

text \<open>The events a set-up health check reacts to: creation of the file of a device sends the
  device's ID as healthy, removal or renaming of it as unhealthy, removal of the plugin's
  socket restarts the plugin, and every other event does nothing.\<close>

theorem event_meaning:
  assumes "healthCheck_setup h dpi = Inr m" and "supportsIOMMUFD (w_stat h) = Inr b"
    and "vfio_dir (devicePath dpi)" and "\<forall>d \<in> set (devs dpi). simple_name (ID d)"
    and "socketPath dpi = DevicePluginPath @ x"
  shows "on_event m (socketPath dpi) ev =
    (if \<exists>d \<in> set (devs dpi). ev_Name ev = device_file b (devicePath dpi) d then
       (let d = hd (filter (\<lambda>d. ev_Name ev = device_file b (devicePath dpi) d) (devs dpi)) in
        if ev_Op ev = op_Create then Send Healthy_chan (ID d)
        else if ev_Op ev = op_Remove \<or> ev_Op ev = op_Rename then Send Unhealthy_chan (ID d)
        else Ignore)
     else if ev_Name ev = socketPath dpi \<and> ev_Op ev = op_Remove then Restart else Ignore)"
proof (cases "\<exists>d \<in> set (devs dpi). ev_Name ev = device_file b (devicePath dpi) d")
  case True
  let ?ds = "filter (\<lambda>d. ev_Name ev = device_file b (devicePath dpi) d) (devs dpi)"
  have "hd ?ds \<in> set ?ds" using True by (intro hd_in_set) (auto simp: filter_empty_conv)
  then have "fmlookup m (ev_Name ev) = Some (ID (hd ?ds))"
    using setup_lookup(1) [OF assms(1-4), of "hd ?ds"] by auto
  with True show ?thesis by (simp add: on_event_def Let_def)
next
  case False
  then have "fmlookup m (ev_Name ev) = None" by (intro setup_lookup(2) [OF assms(1-4)]) auto
  with False show ?thesis by (auto simp: on_event_def)
qed

theorem event_meaning_witness:
  "\<exists>m. healthCheck_setup fine_watch (m_dpi (sample_started [] Setup)) = Inr m \<and>
     on_event m (socketPath (m_dpi (sample_started [] Setup)))
       \<lparr>ev_Name = Join [''/dev/vfio/devices/'', ''vfio1''], ev_Op = op_Rename\<rparr> = Send Unhealthy_chan ''1''"
proof -
  let ?dpi = "m_dpi (sample_started [] Setup)"
  obtain m where m: "healthCheck_setup fine_watch ?dpi = Inr m" using setup_fine by blast
  have p: "supportsIOMMUFD (w_stat fine_watch) = Inr True" by (simp add: fine_watch_def supportsIOMMUFD_def)
  have "on_event m (socketPath ?dpi) \<lparr>ev_Name = Join [''/dev/vfio/devices/'', ''vfio1''], ev_Op = op_Rename\<rparr> =
      Send Unhealthy_chan ''1''"
    using event_meaning [OF m p, of "socket_name ''pgpu''"
        "\<lparr>ev_Name = Join [''/dev/vfio/devices/'', ''vfio1''], ev_Op = op_Rename\<rparr>"] sample_names
    by (simp add: fresh_devices_def device_file_def Let_def op_Rename_def op_Create_def op_Remove_def)
  with m show ?thesis by blast
qed

text \<open>C22. A kubelet restart is survived: when the socket file is removed while the health check
  waits for events, the token channel is empty and the host's calls succeed, the plugin goes
  on to a state where it serves again, has registered its resource again, has the same
  devices, and a new health check is on its way.\<close>

theorem kubelet_restart_recovery:
  assumes "reach (health_init name path ids) health_step s"
    and "checker_at s i (Watching m)" and "fmlookup m (socketPath (m_dpi s)) = None"
    and "server (m_dpi s)" and "term_buf (m_dpi s) = []"
  shows "\<exists>t. health_step\<^sup>*\<^sup>* s t \<and> server (m_dpi t) \<and> devs (m_dpi t) = devs (m_dpi s) \<and>
    registrations (m_trace t) = registrations (m_trace s) @ [register_request (m_dpi s)] \<and>
    checker_at t (Suc i) Setup"
proof -
  obtain n c del where "inv_at ids s n c del" using health.inv_reach [OF assms(1)] by (auto simp: machine_inv_def)
  with inv_checker_at [OF _ assms(2)] have "length (m_checkers s) = Suc i" by (auto simp: inv_at_def)
  then have "checker_at (restarted i s) (Suc i) Setup" by (simp add: checker_at_def restarted_def Let_def nth_append)
  moreover have "registrations (m_trace (restarted i s)) = registrations (m_trace s) @ [register_request (m_dpi s)]"
    using registrations_started(1) [of "socketPath (m_dpi s)" "m_dpi s"] by (simp add: restarted_def Let_def)
  ultimately show ?thesis
    using restart_steps [OF assms(2-5)] assms(4) by (intro exI [of _ "restarted i s"]) (simp add: restarted_def Let_def)
qed

theorem kubelet_restart_recovery_witness:
  "\<exists>m t. health_step\<^sup>*\<^sup>* (sample_started [] (Watching m)) t \<and> length (registrations (m_trace t)) = 2"
proof -
  obtain m where r: "sample_reach (sample_started [] (Watching m))"
    and n: "fmlookup m (DevicePluginPath @ socket_name ''pgpu'') = None"
    using started_watching [OF sample_names] by metis
  have "checker_at (sample_started [] (Watching m)) 0 (Watching m)" by (simp add: checker_at_def)
  from kubelet_restart_recovery [OF r this] n obtain t
    where "health_step\<^sup>*\<^sup>* (sample_started [] (Watching m)) t"
      and "registrations (m_trace t) = registrations (m_trace (sample_started [] (Watching m))) @
        [register_request (m_dpi (sample_started [] (Watching m)))]" by auto
  then show ?thesis by (intro exI [of _ m] exI [of _ t]) simp
qed

text \<open>C38. A health check that has an update to send while no \<^verbatim>\<open>ListAndWatch\<close> runs is stuck in the
  unbuffered channel: until the kubelet opens a stream, it takes no event, and so the removal
  of the socket is not seen and the plugin does not register again.\<close>

theorem blocked_check_misses_restart:
  assumes "reach (health_init name path ids) health_step s"
    and "checker_at s i (Sending m ch v)" and "\<forall>j. \<not> stream_runs s j"
    and "health_step\<^sup>*\<^sup>* s t" and "length (m_streams t) = length (m_streams s)"
  shows "checker_at t i (Sending m ch v) \<and> registrations (m_trace t) = registrations (m_trace s)"
proof -
  obtain n c del where "inv_at ids s n c del" using health.inv_reach [OF assms(1)] by (auto simp: machine_inv_def)
  with inv_checker_at [OF _ assms(2)] have i: "halted s i (Sending m ch v)"
    using assms(3) by (auto simp: inv_at_def halted_def)
  from halted_star [OF assms(4) i] assms(5) show ?thesis
    by (auto simp: halted_def checker_at_def nth_append)
qed

theorem blocked_check_misses_restart_witness:
  "\<exists>s t m. sample_reach s \<and> health_step\<^sup>*\<^sup>* s t \<and> m_stopped t \<and>
     checker_at t 0 (Sending m Unhealthy_chan ''1'') \<and> registrations (m_trace t) = registrations (m_trace s)"
proof -
  obtain m where r: "sample_reach (sample_started [] (Watching m))"
    and l: "\<And>i. i \<in> set [''1''] \<Longrightarrow> fmlookup m (Join [''/dev/vfio/devices/'', ''vfio'' @ i]) = Some i"
    using started_watching [OF sample_names] by metis
  let ?s = "(sample_started [] (Sending m Unhealthy_chan ''1''))\<lparr>m_updates := [(Unhealthy_chan, ''1'')]\<rparr>"
  let ?t = "?s\<lparr>m_stopped := True\<rparr>"
  have s: "sample_reach ?s" by (rule sample_sending [OF r l]) simp
  have st: "health_step\<^sup>*\<^sup>* ?s ?t" by (intro r_into_rtranclp close_stop)
  have c: "checker_at ?s 0 (Sending m Unhealthy_chan ''1'')" "\<forall>j. \<not> stream_runs ?s j"
    by (simp_all add: checker_at_def stream_runs_def)
  have "length (m_streams ?t) = length (m_streams ?s)" "m_stopped ?t" by simp_all
  with blocked_check_misses_restart [OF s c st] s st show ?thesis by blast
qed

text \<open>When the last health check has returned (a failed set-up, a failed restart), the plugin
  never registers again, whatever happens.\<close>

theorem ended_check_is_final:
  assumes "reach (health_init name path ids) health_step s"
    and "\<forall>c \<in> set (m_checkers s). c = Ended" and "health_step\<^sup>*\<^sup>* s t"
  shows "m_checkers t = m_checkers s \<and> registrations (m_trace t) = registrations (m_trace s)"
proof -
  obtain n c del where "inv_at ids s n c del" using health.inv_reach [OF assms(1)] by (auto simp: machine_inv_def)
  with assms(2) have h: "halted s n Ended" by (auto simp: inv_at_def halted_def)
  with halted_star [OF assms(3) h] show ?thesis by (simp add: halted_def)
qed

theorem ended_check_is_final_witness:
  "\<exists>t. health_step\<^sup>*\<^sup>* (sample_started [] Ended) t \<and> m_stopped t \<and> length (registrations (m_trace t)) = 1"
proof -
  let ?h = "fine_watch\<lparr>w_new := Some (ErrOS ''too many open files'')\<rparr>"
  have "healthCheck_setup ?h (m_dpi (sample_started [] Setup)) = Inl (ErrOS ''too many open files'')"
    by (simp add: healthCheck_setup_def fine_watch_def supportsIOMMUFD_def)
  then have "health_step (sample_started [] Setup) (set_checker 0 Ended (sample_started [] Setup))"
    by (rule check_setup_error [rotated]) (simp add: checker_at_def)
  then have "sample_reach (set_checker 0 Ended (sample_started [] Setup))" by (rule reach_step [OF started_reach])
  moreover have "set_checker 0 Ended (sample_started [] Setup) = sample_started [] Ended"
    by (simp add: set_checker_def started_def Let_def)
  ultimately have r: "sample_reach (sample_started [] Ended)" by (simp only:)
  have e: "\<forall>c \<in> set (m_checkers (sample_started [] Ended)). c = Ended" by simp
  let ?t = "(sample_started [] Ended)\<lparr>m_stopped := True\<rparr>"
  have st: "health_step\<^sup>*\<^sup>* (sample_started [] Ended) ?t" by (intro r_into_rtranclp close_stop)
  have "registrations (m_trace ?t) = registrations (m_trace (sample_started [] Ended))"
    using ended_check_is_final [OF r e st] by (rule conjunct2)
  then have "length (registrations (m_trace ?t)) = 1" by (simp only: started_registrations)
  moreover have "m_stopped ?t" by simp
  ultimately show ?thesis using st by blast
qed

text \<open>C39. The token a restart leaves for the old stream can end the stream of the new server: a
  state can be reached from one with a single registration and a single stream in which the
  plugin has registered again, the stream opened after that has ended, and the old stream
  still runs.\<close>

theorem stale_token_ends_new_stream:
  assumes "vfio_dir path" and "\<forall>i \<in> set ids. simple_name i"
  shows "\<exists>s t. reach (health_init name path ids) health_step s \<and> health_step\<^sup>*\<^sup>* s t \<and>
    length (registrations (m_trace s)) = 1 \<and> length (m_streams s) = 1 \<and>
    length (registrations (m_trace t)) = 2 \<and> map running (m_streams t) = [True, False] \<and>
    server (m_dpi t) \<and> term_buf (m_dpi t) = []"
proof -
  obtain m where r: "reach (health_init name path ids) health_step (started name path ids [] (Watching m))"
    and n: "fmlookup m (DevicePluginPath @ socket_name name) = None"
    using started_watching [OF assms] by metis
  let ?s = "started name path ids [\<lparr>sent = [fresh_devices ids], running = True, selected_stop = Global_stop\<rparr>] (Watching m)"
  let ?u = "open_stream (restarted 0 ?s)"
  let ?t = "end_stream 1 (?u\<lparr>m_dpi := (m_dpi ?u)\<lparr>term_buf := []\<rparr>\<rparr>)"
  have 1: "health_step\<^sup>*\<^sup>* ?s (restarted 0 ?s)"
    by (rule restart_steps) (use n in \<open>simp_all add: checker_at_def\<close>)
  have 2: "health_step (restarted 0 ?s) ?u" by (rule ListAndWatch) (simp add: restarted_def Let_def)
  have 3: "health_step ?u ?t"
    by (rule stream_term [where b = True])
       (simp_all add: stream_runs_def open_stream_def restarted_def Let_def)
  have "health_step\<^sup>*\<^sup>* ?s ?t" using 1 2 3 by (meson rtranclp.rtrancl_into_rtrancl)
  moreover have "length (registrations (m_trace ?t)) = 2"
    using started_registrations [of name path ids "[\<lparr>sent = [fresh_devices ids], running = True, selected_stop = Global_stop\<rparr>]" "Watching m"]
      registrations_started(1) [of "socketPath (m_dpi ?s)" "m_dpi ?s"]
    by (simp add: open_stream_def restarted_def Let_def)
  moreover have "map running (m_streams ?t) = [True, False] \<and> server (m_dpi ?t) \<and> term_buf (m_dpi ?t) = []"
    by (simp add: end_stream_def open_stream_def restarted_def Let_def)
  ultimately show ?thesis using started_streaming [OF r] by (intro exI [of _ ?s] exI [of _ ?t]) simp
qed

theorem stale_token_ends_new_stream_witness:
  "\<exists>t. sample_reach t \<and> map running (m_streams t) = [True, False] \<and> length (registrations (m_trace t)) = 2"
proof -
  from stale_token_ends_new_stream [OF sample_names, of "''pgpu''"]
  show ?thesis by (elim exE conjE) (intro exI conjI, rule reach_star)
qed

end
