(* ===== verification/Controller.thy ===== *)
theory Controller
  imports CdiAll Allocate HealthAll Gfd
begin

text \<open>
  The controller (\<^verbatim>\<open>createDevicePlugins\<close> and \<^verbatim>\<open>InitiateDevicePlugin\<close> of
  pkg/device_plugin/device_plugin.go) and the program's entry (cmd/main.go): one plugin per
  device ID, started in the order of the \<^verbatim>\<open>range\<close> loop, up to the receive from \<^verbatim>\<open>stop\<close>,
  and the stopping of the plugins after it. The plugins' own goroutines are not part of it.
\<close>

section \<open>Making the plugins\<close>

definition plugin_devices :: "globals \<Rightarrow> string \<Rightarrow> plugin_device list" where
  "plugin_devices g deviceID =
     fold (\<lambda>iommuKey devs. devs @ [\<lparr>ID = iommuKey, Health = Healthy\<rparr>]) (get_slice (deviceMap g) deviceID) []"

text \<open>\<open>names\<close> gives the order of the \<^verbatim>\<open>range\<close> loop of \<^verbatim>\<open>getDeviceNameForID\<close> for a device ID.\<close>

definition plugin_name :: "globals \<Rightarrow> (string \<Rightarrow> string list) \<Rightarrow> string \<Rightarrow> string" where
  "plugin_name g names deviceID =
     (let name =
        (if isNVSwitchDeviceID g deviceID then
           (if NVSwitchAlias g \<noteq> [] then NVSwitchAlias g else getDeviceNameForID g (names deviceID) deviceID)
         else if PGPUAlias g \<noteq> [] then PGPUAlias g
         else getDeviceNameForID g (names deviceID) deviceID)
      in if name = [] then deviceID else name)"

definition new_plugin :: "globals \<Rightarrow> bool \<Rightarrow> (string \<Rightarrow> string list) \<Rightarrow> string \<Rightarrow> GenericDevicePlugin" where
  "new_plugin g iommufdSupported names deviceID =
     NewGenericDevicePlugin (plugin_name g names deviceID)
       (if iommufdSupported then ''/dev/vfio/devices/'' else ''/dev/vfio/'') (plugin_devices g deviceID)"

text \<open>The loop: every plugin made, with the error of its start if that failed.\<close>

fun start_plugins ::
    "environment \<Rightarrow> globals \<Rightarrow> bool \<Rightarrow> (string \<Rightarrow> string list) \<Rightarrow> string list \<Rightarrow> effect list \<Rightarrow>
       (GenericDevicePlugin \<times> go_error option) list \<times> effect list" where
  "start_plugins env g iommufdSupported names [] tr = ([], tr)"
| "start_plugins env g iommufdSupported names (deviceID # ks) tr =
     (case Start env Global_stop (new_plugin g iommufdSupported names deviceID, tr) of (err, dp, tr1) \<Rightarrow>
        (case start_plugins env g iommufdSupported names ks tr1 of (ps, tr2) \<Rightarrow> ((dp, err) # ps, tr2)))"

text \<open>
  The controller up to the receive from \<^verbatim>\<open>stop\<close>; \<open>None\<close> when it returns because the probe
  failed. The result says whether the discovery run was launched.
\<close>

record controller =
  started_plugins :: "(GenericDevicePlugin \<times> go_error option) list"
  gfd_launched :: bool
  effects :: "effect list"

definition createDevicePlugins ::
    "stat_fn \<Rightarrow> environment \<Rightarrow> (string \<Rightarrow> string list) \<Rightarrow> string list \<Rightarrow> globals \<Rightarrow> effect list \<Rightarrow> controller option" where
  "createDevicePlugins stat env names ks g tr = (case supportsIOMMUFD stat of
      Inl err \<Rightarrow> None
    | Inr iommufdSupported \<Rightarrow>
        (case start_plugins env g iommufdSupported names ks tr of (ps, tr1) \<Rightarrow>
           Some \<lparr>started_plugins = ps, gfd_launched = EnableGFD g, effects = tr1\<rparr>))"

text \<open>\<^verbatim>\<open>devicePlugins\<close>: the plugins whose start gave no error.\<close>

definition device_plugins :: "controller \<Rightarrow> GenericDevicePlugin list" where
  "device_plugins c = map fst (filter (\<lambda>p. snd p = None) (started_plugins c))"

text \<open>After the receive: the plugins as they are then are stopped in turn; \<open>None\<close> when a
  \<^verbatim>\<open>Stop\<close> does not return.\<close>

fun stop_plugins :: "environment \<Rightarrow> GenericDevicePlugin list \<Rightarrow> effect list \<Rightarrow> effect list option" where
  "stop_plugins env [] tr = Some tr"
| "stop_plugins env (dp # dps) tr = (case Stop env (dp, tr) of
      None \<Rightarrow> None
    | Some (err, dp1, tr1) \<Rightarrow> stop_plugins env dps tr1)"

section \<open>The program\<close>

text \<open>What the host and the scheduler decide: the orders of the loops depend on the maps.\<close>

record surroundings =
  s_stat :: stat_fn
  s_devices :: "pci_device list result"
  s_host :: host
  s_orders :: "globals \<Rightarrow> range_orders"
  s_stat' :: stat_fn
  s_env :: environment
  s_names :: "globals \<Rightarrow> string \<Rightarrow> string list"
  s_ids :: "globals \<Rightarrow> string list"

text \<open>The error of \<^verbatim>\<open>GenerateCDISpec\<close> is dropped.\<close>

definition InitiateDevicePlugin ::
    "surroundings \<Rightarrow> globals \<Rightarrow> cdi_dir \<Rightarrow> globals \<times> cdi_dir \<times> controller option" where
  "InitiateDevicePlugin w g files =
     (let g1 = createIommuDeviceMap (s_stat w) (s_devices w) g;
          files1 = snd (GenerateCDISpec (s_host w) (s_orders w g1) g1 files)
      in (g1, files1, createDevicePlugins (s_stat' w) (s_env w) (s_names w g1) (s_ids w g1) g1 []))"

definition configure :: "(string \<Rightarrow> string option) \<Rightarrow> globals \<Rightarrow> globals" where
  "configure LookupEnv g =
     g\<lparr>PGPUAlias := (case LookupEnv ''P_GPU_ALIAS'' of None \<Rightarrow> ''pgpu'' | Some v \<Rightarrow> v),
       NVSwitchAlias := (case LookupEnv ''NVSWITCH_ALIAS'' of None \<Rightarrow> ''nvswitch'' | Some v \<Rightarrow> v),
       EnableGFD := (case LookupEnv ''ENABLE_GFD'' of None \<Rightarrow> EnableGFD g
         | Some v \<Rightarrow> (case ParseBool v of None \<Rightarrow> False | Some b \<Rightarrow> b))\<rparr>"

definition main :: "(string \<Rightarrow> string option) \<Rightarrow> surroundings \<Rightarrow> cdi_dir \<Rightarrow> globals \<times> cdi_dir \<times> controller option" where
  "main LookupEnv w files = InitiateDevicePlugin w (configure LookupEnv init_globals) files"

section \<open>Lemmas\<close>

lemma plugin_devices_eq: "plugin_devices g d = fresh_devices (get_slice (deviceMap g) d)"
  by (simp add: plugin_devices_def fresh_devices_def fold_snoc)

lemma new_plugin_fields [simp]:
  "devs (new_plugin g b names d) = plugin_devices g d" "\<not> server (new_plugin g b names d)"
  "socketPath (new_plugin g b names d) = DevicePluginPath @ socket_name (plugin_name g names d)"
  "deviceName (new_plugin g b names d) = plugin_name g names d"
  "devicePath (new_plugin g b names d) = (if b then ''/dev/vfio/devices/'' else ''/dev/vfio/'')"
  by (simp_all add: new_plugin_def NewGenericDevicePlugin_def socket_name_def)

lemma start_plugins_frame:
  assumes "start_plugins env g b names ks tr = (ps, tr')"
  shows "map (devs \<circ> fst) ps = map (plugin_devices g) ks"
    and "map (socketPath \<circ> fst) ps = map (\<lambda>d. DevicePluginPath @ socket_name (plugin_name g names d)) ks"
    and "map (deviceName \<circ> fst) ps = map (plugin_name g names) ks"
    and "map (devicePath \<circ> fst) ps = map (\<lambda>d. if b then ''/dev/vfio/devices/'' else ''/dev/vfio/'') ks"
proof -
  have "map (devs \<circ> fst) ps = map (plugin_devices g) ks \<and>
      map (socketPath \<circ> fst) ps = map (\<lambda>d. DevicePluginPath @ socket_name (plugin_name g names d)) ks \<and>
      map (deviceName \<circ> fst) ps = map (plugin_name g names) ks \<and>
      map (devicePath \<circ> fst) ps = map (\<lambda>d. if b then ''/dev/vfio/devices/'' else ''/dev/vfio/'') ks"
    using assms
  proof (induction ks arbitrary: tr ps tr')
    case (Cons d ks)
    obtain err dp tr1 where s: "Start env Global_stop (new_plugin g b names d, tr) = (err, dp, tr1)" by (metis prod_cases3)
    obtain ps' tr2 where r: "start_plugins env g b names ks tr1 = (ps', tr2)" by fastforce
    with Cons.prems s have "ps = (dp, err) # ps'" by simp
    with Cons.IH [OF r] Start_frame [OF s] show ?case by simp
  qed simp
  then show "map (devs \<circ> fst) ps = map (plugin_devices g) ks"
    and "map (socketPath \<circ> fst) ps = map (\<lambda>d. DevicePluginPath @ socket_name (plugin_name g names d)) ks"
    and "map (deviceName \<circ> fst) ps = map (plugin_name g names) ks"
    and "map (devicePath \<circ> fst) ps = map (\<lambda>d. if b then ''/dev/vfio/devices/'' else ''/dev/vfio/'') ks" by simp_all
qed

lemma map_comp_length: "map (f \<circ> fst) ps = map h ks \<Longrightarrow> length ps = length ks"
  by (drule arg_cong [of _ _ length]) simp

text \<open>The keys of all device types, one after the other, are the keys of the IOMMU map.\<close>

lemma type_keys_partition:
  assumes "wf_maps g" and "range_order (deviceMap g) ks"
  shows "distinct (concat (map (get_slice (deviceMap g)) ks))"
    and "set (concat (map (get_slice (deviceMap g)) ks)) = fmdom' (iommuMap g)"
proof -
  note ks = range_orderD [OF assms(2)]
  have look: "\<exists>xs. fmlookup (deviceMap g) d = Some xs \<and> get_slice (deviceMap g) d = xs" if "d \<in> set ks" for d
    using that range_order_mem [OF assms(2)] by (auto simp: get_slice_def)
  have dist: "distinct (concat (map (get_slice (deviceMap g)) ds))" if "set ds \<subseteq> set ks" "distinct ds" for ds
    using that
  proof (induction ds)
    case (Cons d ds)
    have "d \<in> set ks" using Cons.prems(1) by simp
    from look [OF this] obtain xs where xs: "fmlookup (deviceMap g) d = Some xs" "get_slice (deviceMap g) d = xs"
      by blast
    have "x \<notin> set (get_slice (deviceMap g) d')" if "x \<in> set xs" "d' \<in> set ds" for x d'
    proof
      assume x: "x \<in> set (get_slice (deviceMap g) d')"
      have "d' \<in> set ks" using \<open>d' \<in> set ds\<close> Cons.prems(1) by auto
      from look [OF this] obtain ys where ys: "fmlookup (deviceMap g) d' = Some ys" "get_slice (deviceMap g) d' = ys"
        by blast
      with wf_type_unique [OF assms(1) xs(1) \<open>x \<in> set xs\<close> ys(1)] x Cons.prems(2) \<open>d' \<in> set ds\<close> show False by auto
    qed
    moreover have "distinct (concat (map (get_slice (deviceMap g)) ds))" using Cons by simp
    ultimately show ?case using xs(2) wf_mapsD(3) [OF assms(1) xs(1)] by auto
  qed simp
  then show "distinct (concat (map (get_slice (deviceMap g)) ks))" using ks(1) by simp
  show "set (concat (map (get_slice (deviceMap g)) ks)) = fmdom' (iommuMap g)"
  proof (intro set_eqI iffI)
    fix k assume "k \<in> set (concat (map (get_slice (deviceMap g)) ks))"
    then obtain d where d: "d \<in> set ks" "k \<in> set (get_slice (deviceMap g) d)" by auto
    from look [OF d(1)] obtain xs where "fmlookup (deviceMap g) d = Some xs" "k \<in> set xs" using d(2) by blast
    from wf_mapsD(4) [OF assms(1) this] show "k \<in> fmdom' (iommuMap g)" by auto
  next
    fix k assume "k \<in> fmdom' (iommuMap g)"
    from wf_mapsD(5) [OF assms(1) this] obtain d xs where d: "fmlookup (deviceMap g) d = Some xs" "k \<in> set xs" by auto
    then have "d \<in> set ks" by (simp add: range_order_mem [OF assms(2)])
    moreover have "k \<in> set (get_slice (deviceMap g) d)" using d by (simp add: get_slice_def)
    ultimately show "k \<in> set (concat (map (get_slice (deviceMap g)) ks))"
      unfolding set_concat set_map by blast
  qed
qed

text \<open>What a controller has started, from its maps.\<close>

lemma createDevicePlugins_Some:
  assumes "createDevicePlugins stat env names ks g tr = Some c"
  obtains b where "supportsIOMMUFD stat = Inr b"
    and "start_plugins env g b names ks tr = (started_plugins c, effects c)" and "gfd_launched c = EnableGFD g"
  using assms by (auto simp: createDevicePlugins_def split: sum.splits prod.splits)

lemma InitiateDevicePlugin_parts:
  assumes "InitiateDevicePlugin w g0 files = (g, files', Some c)"
  shows "g = createIommuDeviceMap (s_stat w) (s_devices w) g0"
    and "createDevicePlugins (s_stat' w) (s_env w) (s_names w g) (s_ids w g) g [] = Some c"
  using assms by (auto simp: InitiateDevicePlugin_def Let_def)

lemma started_plugin_of:
  assumes "createDevicePlugins stat env names ks g tr = Some c" and "(dp, err) \<in> set (started_plugins c)"
  obtains d b where "d \<in> set ks" "supportsIOMMUFD stat = Inr b" "devs dp = plugin_devices g d"
    "deviceName dp = plugin_name g names d"
    "socketPath dp = DevicePluginPath @ socket_name (plugin_name g names d)"
    "devicePath dp = (if b then ''/dev/vfio/devices/'' else ''/dev/vfio/'')"
proof -
  obtain b where b: "supportsIOMMUFD stat = Inr b" "start_plugins env g b names ks tr = (started_plugins c, effects c)"
    using assms(1) by (rule createDevicePlugins_Some)
  let ?ps = "started_plugins c"
  note f = start_plugins_frame [OF b(2)]
  obtain i where i: "i < length ?ps" "?ps ! i = (dp, err)" using assms(2) by (auto simp: in_set_conv_nth)
  have len: "length ?ps = length ks" by (rule map_comp_length [OF f(1)])
  have at: "h dp = k (ks ! i)" if "map (h \<circ> fst) ?ps = map k ks" for h :: "GenericDevicePlugin \<Rightarrow> 'b" and k
    using arg_cong [OF that, of "\<lambda>xs. xs ! i"] i len by simp
  show thesis
    by (rule that [of "ks ! i" b]) (use i len b at [OF f(1)] at [OF f(2)] at [OF f(3)] at [OF f(4)] in simp_all)
qed

text \<open>Effects are only added.\<close>

lemma start_plugins_trace: "start_plugins env g b names ks tr = (ps, tr') \<Longrightarrow> \<exists>es. tr' = tr @ es"
proof (induction ks arbitrary: tr ps tr')
  case (Cons d ks)
  obtain err dp tr1 where s: "Start env Global_stop (new_plugin g b names d, tr) = (err, dp, tr1)" by (metis prod_cases3)
  obtain ps' tr2 where r: "start_plugins env g b names ks tr1 = (ps', tr2)" by fastforce
  with Cons.prems s have "tr' = tr2" by simp
  with Cons.IH [OF r] Start_frame(6) [OF s] show ?case by auto
qed simp

lemma start_plugins_append:
  "start_plugins env g b names (xs @ ys) tr =
     (case start_plugins env g b names xs tr of (ps, tr1) \<Rightarrow>
        (case start_plugins env g b names ys tr1 of (qs, tr2) \<Rightarrow> (ps @ qs, tr2)))"
  by (induction xs arbitrary: tr) (auto split: prod.splits)

text \<open>Every start begins with the removal of the socket; a start without error served it.\<close>

lemma Start_first:
  assumes "Start env ch (dpi, tr) = (r, dpi', tr')" and "\<not> server dpi"
  shows "\<exists>es. tr' = tr @ RemoveFile (socketPath dpi) # es"
  using assms by (rule Start_elim) (auto simp: serve_effects_def)

lemma Start_served:
  assumes "Start env ch (dpi, tr) = (None, dpi', tr')" and "\<not> server dpi"
  shows "\<exists>es es'. tr' = tr @ es @ GoServe (socketPath dpi) # es'"
  using assms
proof (rule Start_elim)
  fix ok assume "tr' = tr @ serve_effects (socketPath dpi) ok @ register_effects dpi @ [GoHealthCheck]"
  then show ?thesis
    by (intro exI [of _ "[RemoveFile (socketPath dpi), ListenUnix (socketPath dpi)]"]
        exI [of _ "drop 3 (serve_effects (socketPath dpi) ok) @ register_effects dpi @ [GoHealthCheck]"])
       (simp add: serve_effects_def)
qed simp_all

text \<open>The device a plugin advertises, and the watch of its file.\<close>

lemma plugin_key:
  assumes "createDevicePlugins stat env names ks g tr = Some c" and "(dp, err) \<in> set (started_plugins c)"
    and "d \<in> set (devs dp)" and "wf_maps g"
  shows "ID d \<in> fmdom' (iommuMap g)"
proof -
  obtain t where "devs dp = plugin_devices g t" using assms(1,2) by (rule started_plugin_of)
  with assms(3) have k: "ID d \<in> set (get_slice (deviceMap g) t)" by (auto simp: plugin_devices_eq fresh_devices_def)
  then show ?thesis using wf_slice(1) [OF assms(4) k] by (auto simp: get_slice_def split: option.splits)
qed

lemma key_offered:
  assumes "createDevicePlugins stat env names ks g tr = Some c" and "wf_maps g" and "range_order (deviceMap g) ks"
    and "k \<in> fmdom' (iommuMap g)"
  shows "\<exists>dp err d. (dp, err) \<in> set (started_plugins c) \<and> d \<in> set (devs dp) \<and> ID d = k"
proof -
  obtain b where sp: "start_plugins env g b names ks tr = (started_plugins c, effects c)"
    using assms(1) by (rule createDevicePlugins_Some)
  have "k \<in> set (concat (map (get_slice (deviceMap g)) ks))" using type_keys_partition(2) [OF assms(2,3)] assms(4) by simp
  then obtain t where t: "t \<in> set ks" "k \<in> set (get_slice (deviceMap g) t)" by auto
  have "plugin_devices g t \<in> set (map (devs \<circ> fst) (started_plugins c))"
    unfolding start_plugins_frame(1) [OF sp] using t(1) by simp
  then obtain dp err where "(dp, err) \<in> set (started_plugins c)" "devs dp = plugin_devices g t" by auto
  then show ?thesis using t(2) by (force simp: plugin_devices_eq fresh_devices_def)
qed

lemma vfio_devices_rooted: "''/dev/vfio/devices/'' = rooted [''dev'', ''vfio'', ''devices''] @ ''/''"
  and vfio_slash_rooted: "''/dev/vfio/'' = rooted [''dev'', ''vfio''] @ ''/''"
  by (simp_all add: rooted_def)

lemma device_file_legacy:
  assumes "simple_name (ID d)"
  shows "device_file False ''/dev/vfio/'' d = ''/dev/vfio/'' @ ID d"
proof -
  have "device_file False ''/dev/vfio/'' d = rooted ([''dev'', ''vfio''] @ [ID d])"
    unfolding device_file_def Let_def vfio_slash_rooted if_False
    by (rule Join_dir_slash) (use assms in \<open>simp_all add: simple_name_def\<close>)
  then show ?thesis by (simp add: rooted_def)
qed

lemma device_file_fd:
  assumes "simple_name (''vfio'' @ ID d)"
  shows "device_file True ''/dev/vfio/devices/'' d = ''/dev/vfio/devices/vfio'' @ ID d"
proof -
  have "device_file True ''/dev/vfio/devices/'' d = rooted ([''dev'', ''vfio'', ''devices''] @ [''vfio'' @ ID d])"
    unfolding device_file_def Let_def vfio_devices_rooted if_True
    by (rule Join_dir_slash) (use assms in \<open>simp_all add: simple_name_def\<close>)
  then show ?thesis by (simp add: rooted_def)
qed

lemma HostPath_response: "HostPath ` set (response b m ids) = set (concat (map (key_nodes b m) ids))"
  by (force simp: response_def node_spec_def)

text \<open>Two plugins of one socket: the start of the second removes what the first serves.\<close>

lemma start_plugins_pair:
  assumes "start_plugins env g b names (xs @ d # ys @ d' # zs) tr = (ps, tr')"
    and "plugin_name g names d = plugin_name g names d'" and "snd (ps ! length xs) = None"
  shows "\<exists>us vs ws. tr' = us @ GoServe (DevicePluginPath @ socket_name (plugin_name g names d)) # vs @
    RemoveFile (DevicePluginPath @ socket_name (plugin_name g names d)) # ws"
proof -
  let ?p = "DevicePluginPath @ socket_name (plugin_name g names d)"
  obtain ps1 t1 where 1: "start_plugins env g b names xs tr = (ps1, t1)" by fastforce
  obtain e2 p2 t2 where 2: "Start env Global_stop (new_plugin g b names d, t1) = (e2, p2, t2)" by (metis prod_cases3)
  obtain ps3 t3 where 3: "start_plugins env g b names ys t2 = (ps3, t3)" by fastforce
  obtain e4 p4 t4 where 4: "Start env Global_stop (new_plugin g b names d', t3) = (e4, p4, t4)" by (metis prod_cases3)
  obtain ps5 t5 where 5: "start_plugins env g b names zs t4 = (ps5, t5)" by fastforce
  have r: "ps = ps1 @ (p2, e2) # ps3 @ (p4, e4) # ps5" "tr' = t5"
    using assms(1) 1 2 3 4 5 by (simp_all add: start_plugins_append)
  have "length ps1 = length xs" by (rule map_comp_length [OF start_plugins_frame(1) [OF 1]])
  then have "e2 = None" using assms(3) by (simp add: r(1) nth_append)
  with Start_served [of env Global_stop "new_plugin g b names d" t1 p2 t2] 2
  obtain a a' where t2: "t2 = t1 @ a @ GoServe ?p # a'" by auto
  from Start_first [OF 4] assms(2) obtain c where t4: "t4 = t3 @ RemoveFile ?p # c" by auto
  from start_plugins_trace [OF 3] obtain bs where t3: "t3 = t2 @ bs" by blast
  from start_plugins_trace [OF 5] obtain cs where t5: "t5 = t4 @ cs" by blast
  have "tr' = (t1 @ a) @ GoServe ?p # (a' @ bs) @ RemoveFile ?p # (c @ cs)"
    unfolding r(2) t5 t4 t3 t2 by simp
  then show ?thesis by blast
qed

section \<open>Names\<close>

text \<open>A name that is fit for a resource and for a file.\<close>

definition fit_name :: "string \<Rightarrow> bool" where
  "fit_name s \<longleftrightarrow> s \<noteq> [] \<and> list_all allowed_char s"

lemma fit_no_slash: "fit_name s \<Longrightarrow> CHR ''/'' \<notin> set s"
  by (auto simp: fit_name_def list_all_iff allowed_char_def is_alnum_def is_letter_def is_upper_def is_lower_def is_digit_def)

lemma hex_char_allowed: "n < 16 \<Longrightarrow> allowed_char (hex_char n)"
  by (auto simp: hex_char_def allowed_char_def is_alnum_def is_letter_def is_lower_def is_digit_def)

lemma hex4_fit [simp]: "fit_name (hex4 w)"
proof -
  have "unat w div 4096 < 16" using unsigned_less [of w, where ?'a = nat] by simp
  then show ?thesis by (simp add: fit_name_def hex4_def Let_def hex_char_allowed)
qed

lemma getDeviceNameForID_allowed: "list_all allowed_char (getDeviceNameForID g ks d)"
proof (induction ks)
  case (Cons k ks)
  show ?case
  proof (cases "name_in_devices (get_slice (iommuMap g) k) d")
    case (Some n)
    from name_in_devices_Some [OF this] obtain s where "n = formatDeviceName s" by blast
    with Some formatDeviceName_chars name_char_plain show ?thesis by (auto simp: list_all_iff)
  qed (use Cons in simp)
qed simp

lemma plugin_name_fit:
  assumes "fit_name d" and "list_all allowed_char (PGPUAlias g)" and "list_all allowed_char (NVSwitchAlias g)"
  shows "fit_name (plugin_name g names d)"
  using assms getDeviceNameForID_allowed [of g "names d" d] by (auto simp: plugin_name_def Let_def fit_name_def)

lemma deviceMap_key_fit:
  assumes "wf_maps g" and "d \<in> fmdom' (deviceMap g)"
  shows "fit_name d"
proof -
  from assms(2) obtain ks where ks: "fmlookup (deviceMap g) d = Some ks" by (auto simp: fmlookup_dom'_iff)
  then obtain k where "k \<in> set ks" using wf_mapsD(2) [OF assms(1)] by (cases ks) auto
  from wf_mapsD(4) [OF assms(1) ks this] show ?thesis by auto
qed

section \<open>Stopping\<close>

definition stop_effects :: "GenericDevicePlugin \<Rightarrow> effect list" where
  "stop_effects dp = [SendTerm, ServerStop, RemoveFile (socketPath dp)]"

lemma stop_plugins_None: "stop_plugins env dps tr = None \<longleftrightarrow> list_ex (\<lambda>dp. server dp \<and> term_buf dp \<noteq> []) dps"
proof (induction dps arbitrary: tr)
  case (Cons dp dps)
  then show ?case using Stop_None [of env dp tr] by (auto split: option.splits)
qed simp

lemma stop_plugins_effects:
  assumes "list_all (\<lambda>dp. server dp \<and> term_buf dp = []) dps"
  shows "stop_plugins env dps tr = Some (tr @ concat (map stop_effects dps))"
  using assms
proof (induction dps arbitrary: tr)
  case (Cons dp dps)
  then have "Stop env (dp, tr) \<noteq> None" using Stop_None [of env dp tr] by simp
  then obtain e dp' tr' where s: "Stop env (dp, tr) = Some (e, dp', tr')" by auto
  have "tr' = tr @ stop_effects dp" using Stop_Some(3) [OF s] Cons.prems by (simp add: stop_effects_def)
  with s Cons show ?case by simp
qed simp

lemma start_plugins_running:
  assumes "start_plugins env g b names ks tr = (ps, tr')"
  shows "list_all (\<lambda>(dp, err). term_buf dp = [] \<and> (err = None \<longrightarrow> server dp)) ps"
  using assms
proof (induction ks arbitrary: tr ps tr')
  case (Cons d ks)
  obtain err dp tr1 where s: "Start env Global_stop (new_plugin g b names d, tr) = (err, dp, tr1)" by (metis prod_cases3)
  obtain ps' tr2 where r: "start_plugins env g b names ks tr1 = (ps', tr2)" by fastforce
  with Cons.prems s have "ps = (dp, err) # ps'" by simp
  moreover have "term_buf dp = []" using Start_frame(2) [OF s] by (simp add: new_plugin_def NewGenericDevicePlugin_def)
  moreover have "err = None \<Longrightarrow> server dp" using Start_None(2) [of env Global_stop "new_plugin g b names d" tr dp tr1] s by simp
  ultimately show ?case using Cons.IH [OF r] by simp
qed simp

section \<open>The name the discovery run asks for\<close>

lemma getGPUDeviceName_first:
  assumes "d \<in> set ks" and "\<not> isNVSwitchDeviceID g d"
  shows "\<exists>d' \<in> set ks. \<not> isNVSwitchDeviceID g d' \<and> getGPUDeviceName g names ks = plugin_name g names d'"
  using assms
proof (induction ks)
  case (Cons k ks)
  show ?case
  proof (cases "isNVSwitchDeviceID g k")
    case True
    with Cons show ?thesis by auto
  qed (simp add: plugin_name_def Let_def)
qed simp

lemma plugin_name_order_free:
  assumes "\<not> isNVSwitchDeviceID g d"
    and "PGPUAlias g = [] \<Longrightarrow> range_order (iommuMap g) (names d) \<and> range_order (iommuMap g) (names' d)"
    and "\<And>x y. PGPUAlias g = [] \<Longrightarrow> has_ID g d x \<Longrightarrow> has_ID g d y \<Longrightarrow> DeviceName x = DeviceName y"
  shows "plugin_name g names d = plugin_name g names' d"
proof (cases "PGPUAlias g = []")
  case True
  with assms(2) have o: "range_order (iommuMap g) (names d)" "range_order (iommuMap g) (names' d)" by simp_all
  have "getDeviceNameForID g (names d) d = getDeviceNameForID g (names' d) d"
    using getDeviceNameForID_range [OF o(1), of d] getDeviceNameForID_range [OF o(2), of d] assms(3) [OF True] by metis
  with assms(1) True show ?thesis by (simp add: plugin_name_def)
qed (simp add: plugin_name_def assms(1))

section \<open>The goroutines of a started plugin\<close>

text \<open>
  The state of a plugin's goroutines right after its start: no call of \<^verbatim>\<open>ListAndWatch\<close>, the
  health check about to run. \<open>ok\<close> says whether its own server answered.
\<close>

definition plugin_machine :: "GenericDevicePlugin \<Rightarrow> bool \<Rightarrow> machine" where
  "plugin_machine dp ok = \<lparr>m_dpi = dp,
     m_trace = serve_effects (socketPath dp) ok @ register_effects dp @ [GoHealthCheck],
     m_streams = [], m_checkers = [Setup], m_stopped = False, m_updates = []\<rparr>"

lemma started_without_error:
  assumes "start_plugins env g b names ks tr = (ps, tr')" and "(dp, None) \<in> set ps"
  shows "\<exists>d \<in> set ks. dp = (new_plugin g b names d)\<lparr>stop_ch := Global_stop, server := True\<rparr>"
  using assms
proof (induction ks arbitrary: tr ps tr')
  case (Cons d ks)
  obtain err dp1 tr1 where s: "Start env Global_stop (new_plugin g b names d, tr) = (err, dp1, tr1)" by (metis prod_cases3)
  obtain ps' tr2 where r: "start_plugins env g b names ks tr1 = (ps', tr2)" by fastforce
  with Cons.prems s have ps: "ps = (dp1, err) # ps'" by simp
  show ?case
  proof (cases "(dp, None) \<in> set ps'")
    case True
    with Cons.IH [OF r] show ?thesis by auto
  next
    case False
    then have "dp1 = dp" "err = None" using Cons.prems(2) ps by auto
    with Start_None(2) s show ?thesis by auto
  qed
qed simp

text \<open>An environment in which the plugin's own server answers or not, and all else goes well.\<close>

definition own_server :: "string \<Rightarrow> bool \<Rightarrow> environment" where
  "own_server p ok tr e = (if e = DialUnix p \<and> \<not> ok then Some (ErrOS ''connection refused'') else None)"

lemma Start_own_server:
  assumes "\<not> server dpi" and "socketPath dpi \<noteq> KubeletSocket"
  shows "Start (own_server (socketPath dpi) ok) ch (dpi, []) = (None, dpi\<lparr>stop_ch := ch, server := True\<rparr>,
    serve_effects (socketPath dpi) ok @ register_effects dpi @ [GoHealthCheck])"
  using assms by (simp add: start_defs own_server_def serve_effects_def register_effects_def)

lemma socket_not_kubelet: "DevicePluginPath @ socket_name name \<noteq> KubeletSocket"
  by (simp add: KubeletSocket_def socket_name_def)

lemma started_is_initial:
  assumes "createDevicePlugins stat env names ks g tr = Some c" and "(dp, None) \<in> set (started_plugins c)"
  obtains d b where "d \<in> set ks" "supportsIOMMUFD stat = Inr b"
    "health_init (plugin_name g names d) (if b then ''/dev/vfio/devices/'' else ''/dev/vfio/'')
       (get_slice (deviceMap g) d) (plugin_machine dp ok)"
proof -
  obtain b where b: "supportsIOMMUFD stat = Inr b" "start_plugins env g b names ks tr = (started_plugins c, effects c)"
    using assms(1) by (rule createDevicePlugins_Some)
  from started_without_error [OF b(2) assms(2)] obtain d
    where d: "d \<in> set ks" "dp = (new_plugin g b names d)\<lparr>stop_ch := Global_stop, server := True\<rparr>" by blast
  let ?n = "new_plugin g b names d"
  have "socketPath ?n \<noteq> KubeletSocket" by (simp add: socket_not_kubelet)
  then have "Start (own_server (socketPath ?n) ok) Global_stop (?n, []) =
      (None, dp, serve_effects (socketPath dp) ok @ register_effects dp @ [GoHealthCheck])"
    by (subst Start_own_server) (simp_all add: d(2) register_effects_def)
  then have "health_init (plugin_name g names d) (if b then ''/dev/vfio/devices/'' else ''/dev/vfio/'')
      (get_slice (deviceMap g) d) (plugin_machine dp ok)"
    unfolding health_init_def plugin_machine_def new_plugin_def plugin_devices_eq by blast
  with d(1) b(1) show thesis by (rule that)
qed

end
