(* ===== verification/Inotify.thy ===== *)
theory Inotify
  imports Health
begin

unbundle bit_operations_syntax

text \<open>
  The vendored file watcher of fsnotify on Linux (backend_inotify.go), as the health check
  uses it: non-recursive watches with the default operations. What the kernel answers and
  reports is an argument. The pairing of the two halves of a rename (the cookies) only fills a
  field the program does not read and is left out.
\<close>

section \<open>Watches\<close>

definition IN_ACCESS :: "32 word" where "IN_ACCESS = 0x1"
definition IN_CLOSE_WRITE :: "32 word" where "IN_CLOSE_WRITE = 0x8"
definition IN_CLOSE_NOWRITE :: "32 word" where "IN_CLOSE_NOWRITE = 0x10"
definition IN_OPEN :: "32 word" where "IN_OPEN = 0x20"
definition IN_MODIFY :: "32 word" where "IN_MODIFY = 0x2"
definition IN_ATTRIB :: "32 word" where "IN_ATTRIB = 0x4"
definition IN_MOVED_FROM :: "32 word" where "IN_MOVED_FROM = 0x40"
definition IN_MOVED_TO :: "32 word" where "IN_MOVED_TO = 0x80"
definition IN_CREATE :: "32 word" where "IN_CREATE = 0x100"
definition IN_DELETE :: "32 word" where "IN_DELETE = 0x200"
definition IN_DELETE_SELF :: "32 word" where "IN_DELETE_SELF = 0x400"
definition IN_MOVE_SELF :: "32 word" where "IN_MOVE_SELF = 0x800"
definition IN_UNMOUNT :: "32 word" where "IN_UNMOUNT = 0x2000"
definition IN_Q_OVERFLOW :: "32 word" where "IN_Q_OVERFLOW = 0x4000"
definition IN_IGNORED :: "32 word" where "IN_IGNORED = 0x8000"
definition IN_MASK_ADD :: "32 word" where "IN_MASK_ADD = 0x20000000"

lemmas in_defs = IN_ACCESS_def IN_CLOSE_WRITE_def IN_CLOSE_NOWRITE_def IN_OPEN_def IN_MODIFY_def IN_ATTRIB_def IN_MOVED_FROM_def IN_MOVED_TO_def IN_CREATE_def IN_DELETE_def
  IN_DELETE_SELF_def IN_MOVE_SELF_def IN_UNMOUNT_def IN_Q_OVERFLOW_def IN_IGNORED_def IN_MASK_ADD_def

definition op_Write :: "32 word" where "op_Write = 2"
definition op_Chmod :: "32 word" where "op_Chmod = 16"
definition op_Open :: "32 word" where "op_Open = 32"
definition op_Read :: "32 word" where "op_Read = 64"
definition op_CloseWrite :: "32 word" where "op_CloseWrite = 128"
definition op_CloseRead :: "32 word" where "op_CloseRead = 256"

lemmas op_defs = op_Create_def op_Write_def op_Remove_def op_Rename_def op_Chmod_def op_Open_def op_Read_def
  op_CloseWrite_def op_CloseRead_def

definition has :: "32 word \<Rightarrow> 32 word \<Rightarrow> bool" where
  "has msk flag \<longleftrightarrow> msk AND flag = flag"

record watch =
  w_wd :: "32 word"
  w_flags :: "32 word"
  w_path :: string

record watches =
  by_wd :: "(32 word, watch) fmap"
  by_path :: "(string, 32 word) fmap"

definition newWatches :: watches where
  "newWatches = \<lparr>by_wd = fmempty, by_path = fmempty\<rparr>"

definition remove_watch :: "watch \<Rightarrow> watches \<Rightarrow> watches" where
  "remove_watch w ws = ws\<lparr>by_path := fmdrop (w_path w) (by_path ws), by_wd := fmdrop (w_wd w) (by_wd ws)\<rparr>"

text \<open>\<^verbatim>\<open>removePath\<close>: the descriptor, or that there is no such watch. The paths are clean.\<close>

definition removePath :: "string \<Rightarrow> watches \<Rightarrow> 32 word option \<times> watches" where
  "removePath path ws = (case fmlookup (by_path ws) path of
      None \<Rightarrow> (None, ws)
    | Some wd \<Rightarrow> (Some wd, ws\<lparr>by_path := fmdrop path (by_path ws), by_wd := fmdrop wd (by_wd ws)\<rparr>))"

definition updatePath :: "string \<Rightarrow> (watch option \<Rightarrow> watch result) \<Rightarrow> watches \<Rightarrow> go_error option \<times> watches" where
  "updatePath path f ws =
     (let wd = (case fmlookup (by_path ws) path of None \<Rightarrow> 0 | Some wd \<Rightarrow> wd);
          existing = (case fmlookup (by_path ws) path of None \<Rightarrow> None | Some wd \<Rightarrow> fmlookup (by_wd ws) wd)
      in (case f existing of
            Inl err \<Rightarrow> (Some err, ws)
          | Inr upd \<Rightarrow>
              let ws1 = ws\<lparr>by_wd := fmupd (w_wd upd) upd (by_wd ws), by_path := fmupd (w_path upd) (w_wd upd) (by_path ws)\<rparr>
              in (None, if w_wd upd \<noteq> wd then ws1\<lparr>by_wd := fmdrop wd (by_wd ws1)\<rparr> else ws1)))"

text \<open>\<open>add_watch\<close> is \<^verbatim>\<open>inotify_add_watch\<close>: a watch descriptor, or an error.\<close>

definition register :: "(string \<Rightarrow> 32 word \<Rightarrow> 32 word result) \<Rightarrow> string \<Rightarrow> 32 word \<Rightarrow> watches \<Rightarrow> go_error option \<times> watches" where
  "register add_watch path flags ws = updatePath path (\<lambda>existing.
     let flags1 = (case existing of Some e \<Rightarrow> flags OR w_flags e OR IN_MASK_ADD | None \<Rightarrow> flags)
     in (case add_watch path flags1 of
           Inl err \<Rightarrow> Inl err
         | Inr wd \<Rightarrow> (case fmlookup (by_wd ws) wd of
             Some e \<Rightarrow> Inr e
           | None \<Rightarrow> (case existing of
               None \<Rightarrow> Inr \<lparr>w_wd = wd, w_flags = flags1, w_path = path\<rparr>
             | Some e \<Rightarrow> Inr (e\<lparr>w_wd := wd, w_flags := flags1\<rparr>))))) ws"

definition default_flags :: "32 word" where
  "default_flags = IN_CREATE OR IN_MODIFY OR IN_DELETE OR IN_DELETE_SELF OR
     IN_MOVED_TO OR IN_MOVED_FROM OR IN_MOVE_SELF OR IN_ATTRIB"

definition Add :: "(string \<Rightarrow> 32 word \<Rightarrow> 32 word result) \<Rightarrow> string \<Rightarrow> watches \<Rightarrow> go_error option \<times> watches" where
  "Add add_watch path ws = register add_watch (Clean path) default_flags ws"

section \<open>Events\<close>

text \<open>An event of the kernel; \<open>None\<close> is an event of the watched path itself.\<close>

record raw_event =
  Wd :: "32 word"
  Mask :: "32 word"
  Name :: "string option"

definition newEvent :: "string \<Rightarrow> 32 word \<Rightarrow> fs_event" where
  "newEvent name msk = \<lparr>ev_Name = name, ev_Op =
     (if has msk IN_CREATE \<or> has msk IN_MOVED_TO then op_Create else 0) OR
     (if has msk IN_DELETE_SELF \<or> has msk IN_DELETE then op_Remove else 0) OR
     (if has msk IN_MODIFY then op_Write else 0) OR
     (if has msk IN_OPEN then op_Open else 0) OR
     (if has msk IN_ACCESS then op_Read else 0) OR
     (if has msk IN_CLOSE_WRITE then op_CloseWrite else 0) OR
     (if has msk IN_CLOSE_NOWRITE then op_CloseRead else 0) OR
     (if has msk IN_MOVE_SELF \<or> has msk IN_MOVED_FROM then op_Rename else 0) OR
     (if has msk IN_ATTRIB then op_Chmod else 0)\<rparr>"

text \<open>
  \<^verbatim>\<open>handleEvent\<close>, with \<open>rm_watch\<close> for \<^verbatim>\<open>inotify_rm_watch\<close>. The event is \<open>None\<close> where the code gives
  the zero event, which is not sent. The result is \<open>None\<close> where the code sends an error.
\<close>

definition event_name :: "watch \<Rightarrow> raw_event \<Rightarrow> string" where
  "event_name w r = (case Name r of None \<Rightarrow> w_path w | Some n \<Rightarrow> w_path w @ ''/'' @ n)"

definition handleEvent :: "(32 word \<Rightarrow> go_error option) \<Rightarrow> raw_event \<Rightarrow> watches \<Rightarrow> (fs_event option \<times> watches) option" where
  "handleEvent rm_watch r ws = (case fmlookup (by_wd ws) (Wd r) of
      None \<Rightarrow> Some (None, ws)
    | Some w \<Rightarrow>
        if Mask r AND IN_IGNORED \<noteq> 0 \<or> Mask r AND IN_UNMOUNT \<noteq> 0 then Some (None, remove_watch w ws)
        else
          let ws1 = (if has (Mask r) IN_DELETE_SELF then remove_watch w ws else ws);
              moved = has (Mask r) IN_MOVE_SELF;
              (wd, ws2) = (if moved then removePath (w_path w) ws1 else (None, ws1))
          in if moved \<and> (\<exists>d. wd = Some d \<and> rm_watch d \<noteq> None) then None
             else if Mask r AND IN_DELETE_SELF \<noteq> 0 \<and> fmlookup (by_path ws2) (Dir (w_path w)) \<noteq> None
             then Some (None, ws2)
             else Some (Some (newEvent (event_name w r) (Mask r)), ws2))"

text \<open>
  One event read: what is sent to the health check, if anything. \<open>None\<close>: the reader sends an
  error. The health check never receives from \<^verbatim>\<open>Errors\<close>, so that send blocks for ever.
\<close>

definition read_event :: "(32 word \<Rightarrow> go_error option) \<Rightarrow> raw_event \<Rightarrow> watches \<Rightarrow> (fs_event option \<times> watches) option" where
  "read_event rm_watch r ws =
     (if Mask r AND IN_Q_OVERFLOW \<noteq> 0 then None
      else (case handleEvent rm_watch r ws of
              None \<Rightarrow> None
            | Some (None, ws1) \<Rightarrow> Some (None, ws1)
            | Some (Some ev, ws1) \<Rightarrow> Some (if ev_Op ev = 0 then None else Some ev, ws1)))"

section \<open>Lemmas\<close>

lemma newEvent_Create:
  assumes "ev_Op (newEvent name msk) = op_Create"
  shows "has msk IN_CREATE \<or> has msk IN_MOVED_TO"
proof (rule ccontr)
  assume n: "\<not> ?thesis"
  have "\<not> bit (ev_Op (newEvent name msk)) 0"
    using n by (auto simp: newEvent_def op_defs bit_or_iff)
  with assms show False by (simp add: op_Create_def)
qed

lemma newEvent_Remove:
  assumes "ev_Op (newEvent name msk) = op_Remove"
  shows "has msk IN_DELETE_SELF \<or> has msk IN_DELETE"
proof (rule ccontr)
  assume n: "\<not> ?thesis"
  have "\<not> bit (ev_Op (newEvent name msk)) 2"
    using n by (auto simp: newEvent_def op_defs bit_or_iff)
  with assms show False by (simp add: op_Remove_def)
qed

lemma ev_Name_newEvent [simp]: "ev_Name (newEvent name msk) = name"
  by (simp add: newEvent_def)

text \<open>An event that is sent comes from a watch; the tables only shrink.\<close>

lemma fmdrop_Some: "fmlookup (fmdrop k m) x = Some y \<Longrightarrow> fmlookup m x = Some y"
  by (simp split: if_splits)

lemma removePath_by_wd: "removePath p ws = (r, ws') \<Longrightarrow> fmlookup (by_wd ws') wd = Some w \<Longrightarrow> fmlookup (by_wd ws) wd = Some w"
  by (auto simp: removePath_def split: option.splits if_splits)

lemma handleEvent_by_wd:
  assumes "handleEvent rm r ws = Some (ev, ws')" and "fmlookup (by_wd ws') wd = Some w"
  shows "fmlookup (by_wd ws) wd = Some w"
  using assms
  by (auto simp: handleEvent_def Let_def remove_watch_def removePath_by_wd dest!: removePath_by_wd
      split: option.splits if_splits prod.splits)

lemma handleEvent_Some:
  assumes "handleEvent rm r ws = Some (Some ev, ws')"
  shows "\<exists>w. fmlookup (by_wd ws) (Wd r) = Some w \<and> ev = newEvent (event_name w r) (Mask r)"
  using assms by (auto simp: handleEvent_def Let_def split: option.splits if_splits prod.splits)

lemma read_event_Some:
  assumes "read_event rm r ws = Some (Some ev, ws')"
  shows "\<exists>w. fmlookup (by_wd ws) (Wd r) = Some w \<and> ev = newEvent (event_name w r) (Mask r)"
  using assms handleEvent_Some by (auto simp: read_event_def split: option.splits if_splits)

lemma read_event_by_wd:
  assumes "read_event rm r ws = Some (ev, ws')" and "fmlookup (by_wd ws') wd = Some w"
  shows "fmlookup (by_wd ws) wd = Some w"
  using assms handleEvent_by_wd by (auto simp: read_event_def split: option.splits if_splits)

end
