(* ===== verification/Node.thy ===== *)
theory Node
  imports Inotify
begin

text \<open>
  All plugins of a host at once: the goroutines of each (Health), its file watcher (Inotify),
  the files of the host, and what the kernel reports of them. The plugins meet in the file
  system only: a start or stop changes the socket files, and every watcher of their directory
  is told.

  A start or a stop of a server is one step. Reports are queued per watcher, in order. The
  host may create and remove files at any time, and the kernel may lose reports, which it
  tells by an overflow. A file that is removed is not held open and has no other link.
\<close>

section \<open>Files and the kernel's reports\<close>

datatype fs_op = Created string | Removed string

definition apply_op :: "fs_op \<Rightarrow> string set \<Rightarrow> string set" where
  "apply_op x files = (case x of Created p \<Rightarrow> insert p files | Removed p \<Rightarrow> files - {p})"

text \<open>One inotify instance, as in the manual page inotify(7): its watches, the next descriptor, and
  the reports not yet read.\<close>

record inotify =
  k_watches :: "(32 word \<times> string) list"
  k_next :: "32 word"
  k_queue :: "raw_event list"

definition new_inotify :: inotify where
  "new_inotify = \<lparr>k_watches = [], k_next = 1, k_queue = []\<rparr>"

text \<open>\<open>lim\<close> is the error for a path that exists, such as a limit of the system.\<close>

definition add_watch ::
    "string set \<Rightarrow> (string \<Rightarrow> go_error option) \<Rightarrow> string \<Rightarrow> inotify \<Rightarrow> 32 word result \<times> inotify" where
  "add_watch files lim path k =
     (if path \<notin> files then (Inl ErrNotExist, k)
      else (case lim path of
          Some err \<Rightarrow> (Inl err, k)
        | None \<Rightarrow> (case find (\<lambda>(wd, p). p = path) (k_watches k) of
            Some (wd, _) \<Rightarrow> (Inr wd, k)
          | None \<Rightarrow> (Inr (k_next k), k\<lparr>k_watches := k_watches k @ [(k_next k, path)], k_next := k_next k + 1\<rparr>))))"

text \<open>
  A watched directory reports its entries by name; a watched file reports its own removal, with
  a change of its link count before, and its watch ends.
\<close>

definition reports_of :: "fs_op \<Rightarrow> 32 word \<times> string \<Rightarrow> raw_event list" where
  "reports_of x = (\<lambda>(wd, d). case x of
       Created p \<Rightarrow> if Dir p = d then [\<lparr>Wd = wd, Mask = IN_CREATE, Name = Some (Base p)\<rparr>] else []
     | Removed p \<Rightarrow>
         (if Dir p = d then [\<lparr>Wd = wd, Mask = IN_DELETE, Name = Some (Base p)\<rparr>] else []) @
         (if p = d then [\<lparr>Wd = wd, Mask = IN_ATTRIB, Name = None\<rparr>, \<lparr>Wd = wd, Mask = IN_DELETE_SELF, Name = None\<rparr>,
            \<lparr>Wd = wd, Mask = IN_IGNORED, Name = None\<rparr>] else []))"

definition notify :: "fs_op \<Rightarrow> inotify \<Rightarrow> inotify" where
  "notify x k = k\<lparr>k_queue := k_queue k @ concat (map (reports_of x) (k_watches k)),
     k_watches := filter (\<lambda>(wd, d). x \<noteq> Removed d) (k_watches k)\<rparr>"

definition overflow_report :: raw_event where
  "overflow_report = \<lparr>Wd = - 1, Mask = IN_Q_OVERFLOW, Name = None\<rparr>"

section \<open>The state\<close>

text \<open>\<open>n_stuck\<close>: the watcher's reader waits in \<^verbatim>\<open>sendError\<close> for a receiver of its channel \<^verbatim>\<open>Errors\<close>,
  which has no buffer.\<close>

record plugin_node =
  n_machine :: machine
  n_watches :: watches
  n_inotify :: inotify
  n_stuck :: bool

text \<open>\<open>n_todo\<close>: the plugins the controller has not started yet; \<open>n_ops\<close>: all changes of files so far.\<close>

record node =
  n_files :: "string set"
  n_plugins :: "plugin_node list"
  n_todo :: "GenericDevicePlugin list"
  n_ops :: "fs_op list"

definition machine_of :: "node \<Rightarrow> nat \<Rightarrow> machine" where
  "machine_of N i = n_machine (n_plugins N ! i)"

definition put :: "nat \<Rightarrow> machine \<Rightarrow> node \<Rightarrow> node" where
  "put i s N = N\<lparr>n_plugins := (n_plugins N)[i := (n_plugins N ! i)\<lparr>n_machine := s\<rparr>]\<rparr>"

definition perform :: "fs_op \<Rightarrow> node \<Rightarrow> node" where
  "perform x N = N\<lparr>n_files := apply_op x (n_files N),
     n_plugins := map (\<lambda>P. P\<lparr>n_inotify := notify x (n_inotify P)\<rparr>) (n_plugins N), n_ops := n_ops N @ [x]\<rparr>"

text \<open>
  The answers to a plugin's effects: a socket file that is not there cannot be removed; the
  rest is up to \<open>answer\<close>. The changes of files are those of the effects that succeeded. The
  close of a listener removes its socket as \<^verbatim>\<open>cleanup\<close> does right after, so it is not
  counted apart.
\<close>

definition file_env :: "string set \<Rightarrow> environment \<Rightarrow> environment" where
  "file_env files answer tr e = (case e of
     RemoveFile p \<Rightarrow> if p \<in> files then answer tr e else Some ErrNotExist | _ \<Rightarrow> answer tr e)"

fun file_ops :: "environment \<Rightarrow> effect list \<Rightarrow> effect list \<Rightarrow> fs_op list" where
  "file_ops env tr [] = []"
| "file_ops env tr (e # es) = (case e of
      RemoveFile p \<Rightarrow> if env tr e = None then [Removed p] else []
    | ListenUnix p \<Rightarrow> if env tr e = None then [Created p] else []
    | _ \<Rightarrow> []) @ file_ops env (tr @ [e]) es"

definition new_ops :: "environment \<Rightarrow> effect list \<Rightarrow> effect list \<Rightarrow> fs_op list" where
  "new_ops env tr tr' = file_ops env tr (drop (length tr) tr')"

section \<open>Setting up a watcher\<close>

definition watch_host :: "string set \<Rightarrow> (string \<Rightarrow> go_error option) \<Rightarrow> go_error option \<Rightarrow> watch_env" where
  "watch_host files lim new = \<lparr>w_stat = (\<lambda>p. if Clean p \<in> files then None else Some ErrNotExist), w_new = new,
     w_add = (\<lambda>p. if Clean p \<in> files then lim (Clean p) else Some ErrNotExist)\<rparr>"

definition iommufd_on :: "string set \<Rightarrow> bool" where
  "iommufd_on files \<longleftrightarrow> Clean (Join [rootPath, iommuDevicePath]) \<in> files"

definition watch_paths :: "bool \<Rightarrow> GenericDevicePlugin \<Rightarrow> string list" where
  "watch_paths b dpi = Dir (socketPath dpi) # map (device_file b (devicePath dpi)) (devs dpi)"

fun add_watches ::
    "string set \<Rightarrow> (string \<Rightarrow> go_error option) \<Rightarrow> string list \<Rightarrow> watches \<times> inotify \<Rightarrow> (watches \<times> inotify) result" where
  "add_watches files lim [] st = Inr st"
| "add_watches files lim (p # ps) (ws, k) =
     (case Add (\<lambda>path flags. fst (add_watch files lim path k)) p ws of
        (Some err, _) \<Rightarrow> Inl err
      | (None, ws1) \<Rightarrow> add_watches files lim ps (ws1, snd (add_watch files lim (Clean p) k)))"

section \<open>The steps\<close>

text \<open>A step of a plugin's goroutines that concerns no files: no effects, and a health check
  that sets up or waits goes on to, unless the program stops it.\<close>

definition quiet_step :: "machine \<Rightarrow> machine \<Rightarrow> bool" where
  "quiet_step s t \<longleftrightarrow> health_step s t \<and> m_trace t = m_trace s \<and>
     (\<forall>i. checker_at s i Setup \<longrightarrow> checker_at t i Setup) \<and>
     (\<forall>i m. checker_at s i (Watching m) \<longrightarrow> checker_at t i (Watching m) \<or> stop_closed s \<and> checker_at t i Ended)"

definition fresh_node :: "GenericDevicePlugin \<Rightarrow> effect list \<Rightarrow> plugin_node" where
  "fresh_node dpi tr = \<lparr>n_machine = \<lparr>m_dpi = dpi, m_trace = tr, m_streams = [], m_checkers = [Setup],
     m_stopped = False, m_updates = []\<rparr>, n_watches = newWatches, n_inotify = new_inotify, n_stuck = False\<rparr>"

text \<open>The channels of the watcher that the \<^verbatim>\<open>select\<close> of a health check receives from.\<close>

datatype watcher_chan = Events_chan | Errors_chan

definition healthCheck_selects :: "watcher_chan set" where
  "healthCheck_selects = {Events_chan}"

text \<open>A path in a directory, of plain names.\<close>

definition plain_path :: "string \<Rightarrow> bool" where
  "plain_path p \<longleftrightarrow> (\<exists>ds c. p = rooted (ds @ [c]) \<and> ds \<noteq> [] \<and> (\<forall>d \<in> set ds. simple_name d) \<and> simple_name c)"

inductive plugin_step :: "node \<Rightarrow> node \<Rightarrow> bool" where
  quiet: "i < length (n_plugins N) \<Longrightarrow> quiet_step (machine_of N i) t \<Longrightarrow> plugin_step N (put i t N)"
| set_up: "i < length (n_plugins N) \<Longrightarrow> checker_at (machine_of N i) c Setup \<Longrightarrow>
    healthCheck_setup (watch_host (n_files N) lim new) (m_dpi (machine_of N i)) = Inr m \<Longrightarrow>
    add_watches (n_files N) lim (watch_paths (iommufd_on (n_files N)) (m_dpi (machine_of N i))) (newWatches, new_inotify) = Inr (ws, k) \<Longrightarrow>
    plugin_step N (N\<lparr>n_plugins := (n_plugins N)[i := \<lparr>n_machine = set_checker c (Watching m) (machine_of N i),
      n_watches = ws, n_inotify = k, n_stuck = False\<rparr>]\<rparr>)"
| set_up_error: "i < length (n_plugins N) \<Longrightarrow> checker_at (machine_of N i) c Setup \<Longrightarrow>
    healthCheck_setup (watch_host (n_files N) lim new) (m_dpi (machine_of N i)) = Inl err \<Longrightarrow>
    plugin_step N (put i (set_checker c Ended (machine_of N i)) N)"
| read: "i < length (n_plugins N) \<Longrightarrow> P = n_plugins N ! i \<Longrightarrow> s = n_machine P \<Longrightarrow> checker_at s c (Watching m) \<Longrightarrow>
    \<not> n_stuck P \<Longrightarrow> k_queue (n_inotify P) = r # rs \<Longrightarrow> read_event rm r (n_watches P) = Some (eo, ws) \<Longrightarrow>
    t = (case eo of None \<Rightarrow> s | Some ev \<Rightarrow> after_event c m (on_event m (socketPath (m_dpi s)) ev) s) \<Longrightarrow>
    eo = None \<or> Events_chan \<in> healthCheck_selects \<Longrightarrow>
    plugin_step N (N\<lparr>n_plugins := (n_plugins N)[i := P\<lparr>n_machine := t, n_watches := ws,
      n_inotify := (n_inotify P)\<lparr>k_queue := rs\<rparr>\<rparr>]\<rparr>)"
| read_error: "i < length (n_plugins N) \<Longrightarrow> P = n_plugins N ! i \<Longrightarrow> checker_at (n_machine P) c (Watching m) \<Longrightarrow>
    \<not> n_stuck P \<Longrightarrow> k_queue (n_inotify P) = r # rs \<Longrightarrow> read_event rm r (n_watches P) = None \<Longrightarrow>
    plugin_step N (N\<lparr>n_plugins := (n_plugins N)[i := P\<lparr>n_stuck := True, n_inotify := (n_inotify P)\<lparr>k_queue := rs\<rparr>\<rparr>]\<rparr>)"
| error_taken: "i < length (n_plugins N) \<Longrightarrow> P = n_plugins N ! i \<Longrightarrow> checker_at (n_machine P) c (Watching m) \<Longrightarrow>
    n_stuck P \<Longrightarrow> Errors_chan \<in> healthCheck_selects \<Longrightarrow>
    plugin_step N (N\<lparr>n_plugins := (n_plugins N)[i := P\<lparr>n_stuck := False\<rparr>]\<rparr>)"
| overflow: "i < length (n_plugins N) \<Longrightarrow> P = n_plugins N ! i \<Longrightarrow>
    plugin_step N (N\<lparr>n_plugins := (n_plugins N)[i := P\<lparr>n_inotify := (n_inotify P)\<lparr>k_queue := k_queue (n_inotify P) @ [overflow_report]\<rparr>\<rparr>]\<rparr>)"
| stop: "i < length (n_plugins N) \<Longrightarrow> s = machine_of N i \<Longrightarrow> checker_at s c Restarting \<Longrightarrow> server (m_dpi s) \<Longrightarrow>
    env = file_env (n_files N) answer \<Longrightarrow> Stop env (m_dpi s, m_trace s) = Some (err, dpi, tr) \<Longrightarrow>
    plugin_step N (fold perform (new_ops env (m_trace s) tr) (put i (set_checker c Restart_start (s\<lparr>m_dpi := dpi, m_trace := tr\<rparr>)) N))"
| start_error: "i < length (n_plugins N) \<Longrightarrow> s = machine_of N i \<Longrightarrow> checker_at s c Restart_start \<Longrightarrow>
    env = file_env (n_files N) answer \<Longrightarrow>
    Start env (Fresh_stop (length (m_trace s))) (m_dpi s, m_trace s) = (Some err, dpi, tr) \<Longrightarrow>
    plugin_step N (fold perform (new_ops env (m_trace s) tr) (put i (set_checker c Ended (s\<lparr>m_dpi := dpi, m_trace := tr\<rparr>)) N))"
| started: "i < length (n_plugins N) \<Longrightarrow> s = machine_of N i \<Longrightarrow> checker_at s c Restart_start \<Longrightarrow>
    env = file_env (n_files N) answer \<Longrightarrow>
    Start env (Fresh_stop (length (m_trace s))) (m_dpi s, m_trace s) = (None, dpi, tr) \<Longrightarrow>
    plugin_step N (fold perform (new_ops env (m_trace s) tr)
      (put i (s\<lparr>m_dpi := dpi, m_trace := tr, m_checkers := (m_checkers s)[c := Ended] @ [Setup]\<rparr>) N))"
| shutdown: "i < length (n_plugins N) \<Longrightarrow> s = machine_of N i \<Longrightarrow> m_stopped s \<Longrightarrow>
    env = file_env (n_files N) answer \<Longrightarrow> Stop env (m_dpi s, m_trace s) = Some (err, dpi, tr) \<Longrightarrow>
    plugin_step N (fold perform (new_ops env (m_trace s) tr) (put i (s\<lparr>m_dpi := dpi, m_trace := tr\<rparr>) N))"
| launch: "n_todo N = dp # dps \<Longrightarrow> env = file_env (n_files N) answer \<Longrightarrow>
    Start env Global_stop (dp, []) = (r, dpi, tr) \<Longrightarrow>
    plugin_step N (fold perform (new_ops env [] tr)
      (N\<lparr>n_todo := dps, n_plugins := n_plugins N @ (if r = None then [fresh_node dpi tr] else [])\<rparr>))"

text \<open>With the host: other programs, and the kernel's device files.\<close>

inductive node_step :: "node \<Rightarrow> node \<Rightarrow> bool" where
  plugin: "plugin_step N N' \<Longrightarrow> node_step N N'"
| create: "plain_path p \<Longrightarrow> p \<notin> n_files N \<Longrightarrow> node_step N (perform (Created p) N)"
| remove: "plain_path p \<Longrightarrow> p \<in> n_files N \<Longrightarrow> node_step N (perform (Removed p) N)"

text \<open>What the controller is about to start: names, directories and devices.\<close>

definition todo_of :: "(string \<times> string \<times> string list) list \<Rightarrow> GenericDevicePlugin list" where
  "todo_of specs = map (\<lambda>(name, path, ids). NewGenericDevicePlugin name path (fresh_devices ids)) specs"

definition node_init :: "(string \<times> string \<times> string list) list \<Rightarrow> node \<Rightarrow> bool" where
  "node_init specs N \<longleftrightarrow> n_plugins N = [] \<and> n_todo N = todo_of specs \<and> n_ops N = []"

end
