(* ===== verification/NodeAll.thy ===== *)
theory NodeAll
  imports Node
begin

text \<open>
  Lemmas and properties of the host with all its plugins: every plugin's share of a run is a
  run of its own goroutines, and what a plugin's watcher can be told.
\<close>

section \<open>Parts of a step\<close>

lemma selects_simps [simp]: "Events_chan \<in> healthCheck_selects" "Errors_chan \<notin> healthCheck_selects"
  by (simp_all add: healthCheck_selects_def)

lemma perform_simps [simp]:
  "length (n_plugins (perform x N)) = length (n_plugins N)" "n_todo (perform x N) = n_todo N"
  "n_files (perform x N) = apply_op x (n_files N)" "n_ops (perform x N) = n_ops N @ [x]"
  by (simp_all add: perform_def)

lemma machine_of_perform [simp]: "i < length (n_plugins N) \<Longrightarrow> machine_of (perform x N) i = machine_of N i"
  by (simp add: perform_def machine_of_def)

lemma nth_perform: "i < length (n_plugins N) \<Longrightarrow>
    n_plugins (perform x N) ! i = (n_plugins N ! i)\<lparr>n_inotify := notify x (n_inotify (n_plugins N ! i))\<rparr>"
  by (simp add: perform_def)

lemma fold_perform_simps [simp]:
  "length (n_plugins (fold perform xs N)) = length (n_plugins N)" "n_todo (fold perform xs N) = n_todo N"
  "n_ops (fold perform xs N) = n_ops N @ xs" "n_files (fold perform xs N) = fold apply_op xs (n_files N)"
  by (induction xs arbitrary: N) simp_all

lemma machine_of_fold_perform [simp]:
  "i < length (n_plugins N) \<Longrightarrow> machine_of (fold perform xs N) i = machine_of N i"
  by (induction xs arbitrary: N) simp_all

lemma put_simps [simp]:
  "length (n_plugins (put i s N)) = length (n_plugins N)" "n_todo (put i s N) = n_todo N"
  "n_files (put i s N) = n_files N" "n_ops (put i s N) = n_ops N"
  by (simp_all add: put_def)

lemma machine_of_put [simp]:
  "i < length (n_plugins N) \<Longrightarrow> machine_of (put i s N) j = (if j = i then s else machine_of N j)"
  by (simp add: put_def machine_of_def nth_list_update)

lemma machine_of_update [simp]:
  "i < length (n_plugins N) \<Longrightarrow> machine_of (N\<lparr>n_plugins := (n_plugins N)[i := P]\<rparr>) j =
     (if j = i then n_machine P else machine_of N j)"
  by (simp add: machine_of_def nth_list_update)

lemma machine_of_launch [simp]:
  "machine_of (N\<lparr>n_todo := dps, n_plugins := n_plugins N @ Ps\<rparr>) j =
     (if j < length (n_plugins N) then machine_of N j else n_machine (Ps ! (j - length (n_plugins N))))"
  by (simp add: machine_of_def nth_append)

section \<open>Every plugin on its own\<close>

lemma quiet_health: "quiet_step s t \<Longrightarrow> health_step s t"
  by (simp add: quiet_step_def)

text \<open>A step of the host is, for each plugin, nothing or one step of its goroutines.\<close>

lemma plugin_step_machine:
  assumes "plugin_step N N'" and "j < length (n_plugins N)"
  shows "machine_of N' j = machine_of N j \<or> health_step (machine_of N j) (machine_of N' j)"
  using assms(1)
proof cases
  case (read i P s c m r rs rm eo ws t)
  show ?thesis
  proof (cases eo)
    case None
    with read assms(2) show ?thesis by (auto simp: machine_of_def nth_list_update)
  next
    case (Some ev)
    have "health_step s (after_event c m (on_event m (socketPath (m_dpi s)) ev) s)"
      by (rule check_event) (rule read)
    with read assms(2) Some show ?thesis by (auto simp: machine_of_def nth_list_update)
  qed
next
  case (launch dp dps env answer r dpi tr)
  then show ?thesis using assms(2) by simp
next
  case (read_error i P c m r rs rm)
  with assms(2) show ?thesis by (auto simp: machine_of_def nth_list_update)
next
  case (overflow i P)
  with assms(2) show ?thesis by (auto simp: machine_of_def nth_list_update)
qed (use assms(2) quiet_health health_step.intros in \<open>auto simp del: not_None_eq\<close>)

lemma plugin_step_length: "plugin_step N N' \<Longrightarrow> length (n_plugins N) \<le> length (n_plugins N')"
  by (cases rule: plugin_step.cases) auto

text \<open>A plugin that is new after a step was launched by it.\<close>

lemma plugin_step_new:
  assumes "plugin_step N N'" and "length (n_plugins N) \<le> j" and "j < length (n_plugins N')"
  obtains dp dps env dpi tr where "n_todo N = dp # dps" "Start env Global_stop (dp, []) = (None, dpi, tr)"
    "machine_of N' j = n_machine (fresh_node dpi tr)"
  using assms
proof (cases rule: plugin_step.cases)
  case (launch dp dps env answer r dpi tr)
  with assms(2,3) have "r = None" "j = length (n_plugins N)" by (auto split: if_splits)
  with launch that [of dp dps env dpi tr] show thesis by simp
qed auto

lemma plugin_step_todo: "plugin_step N N' \<Longrightarrow> set (n_todo N') \<subseteq> set (n_todo N)"
  by (cases rule: plugin_step.cases) auto

lemma node_step_machine:
  assumes "node_step N N'" and "j < length (n_plugins N)"
  shows "machine_of N' j = machine_of N j \<or> health_step (machine_of N j) (machine_of N' j)"
  using assms by (cases rule: node_step.cases) (simp_all add: plugin_step_machine)

definition node_inv :: "(string \<times> string \<times> string list) list \<Rightarrow> node \<Rightarrow> bool" where
  "node_inv specs N \<longleftrightarrow> set (n_todo N) \<subseteq> set (todo_of specs) \<and>
     (\<forall>i < length (n_plugins N). \<exists>(name, path, ids) \<in> set specs. reach (health_init name path ids) health_step (machine_of N i))"

lemma fresh_reach:
  assumes "dp \<in> set (todo_of specs)" and "Start env Global_stop (dp, []) = (None, dpi, tr)"
  shows "\<exists>(name, path, ids) \<in> set specs. reach (health_init name path ids) health_step (n_machine (fresh_node dpi tr))"
proof -
  obtain name path ids where s: "(name, path, ids) \<in> set specs" "dp = NewGenericDevicePlugin name path (fresh_devices ids)"
    using assms(1) by (auto simp: todo_of_def)
  have "health_init name path ids (n_machine (fresh_node dpi tr))"
    using assms(2) unfolding health_init_def fresh_node_def s(2) by auto
  from reach_init [of "health_init name path ids", OF this] s(1) show ?thesis by blast
qed

lemma node_inv_plugin:
  assumes "node_inv specs N" and "plugin_step N N'"
  shows "node_inv specs N'"
  unfolding node_inv_def
proof (intro conjI allI impI)
  show "set (n_todo N') \<subseteq> set (todo_of specs)" using assms plugin_step_todo by (auto simp: node_inv_def)
  fix i assume i: "i < length (n_plugins N')"
  show "\<exists>(name, path, ids) \<in> set specs. reach (health_init name path ids) health_step (machine_of N' i)"
  proof (cases "i < length (n_plugins N)")
    case True
    then obtain name path ids where s: "(name, path, ids) \<in> set specs"
      and r: "reach (health_init name path ids) health_step (machine_of N i)" using assms(1) by (auto simp: node_inv_def)
    have "reach (health_init name path ids) health_step (machine_of N' i)"
      using plugin_step_machine [OF assms(2) True] reach_step [OF r, of "machine_of N' i"] r by auto
    with s show ?thesis by blast
  next
    case False
    obtain dp dps env dpi tr where l: "n_todo N = dp # dps" "Start env Global_stop (dp, []) = (None, dpi, tr)"
      "machine_of N' i = n_machine (fresh_node dpi tr)"
      by (rule plugin_step_new [OF assms(2) _ i]) (use False in auto)
    then have "dp \<in> set (todo_of specs)" using assms(1) by (simp add: node_inv_def)
    from fresh_reach [OF this l(2)] show ?thesis by (simp add: l(3))
  qed
qed

lemma node_inv_step: "node_inv specs N \<Longrightarrow> node_step N N' \<Longrightarrow> node_inv specs N'"
  by (cases rule: node_step.cases) (auto simp: node_inv_plugin, auto simp: node_inv_def)

lemma node_inv_init: "node_init specs N \<Longrightarrow> node_inv specs N"
  by (simp add: node_inv_def node_init_def)

interpretation plugins: invariant_system "node_init specs" node_step "node_inv specs"
  by unfold_locales (use node_inv_init node_inv_step in blast)+

section \<open>Paths\<close>

lemma rooted_snoc: "ds \<noteq> [] \<Longrightarrow> rooted (ds @ [c]) = rooted ds @ ''/'' @ c"
  by (simp add: rooted_append)

lemma Clean_dir_slash:
  assumes "ds \<noteq> []" and "\<forall>d \<in> set ds. simple_name d"
  shows "Clean (rooted ds @ ''/'') = rooted ds"
proof -
  have "split_slash (rooted ds @ ''/'') = [] # ds @ [[]]"
    using split_slash_join [of ds "[]"] assms by (simp add: rooted_def simple_name_def)
  moreover have "fold (clean_step True) ([] # ds @ [[]]) [] = rev ds"
    using assms by (simp add: fold_clean_simple) (simp add: clean_step_def fold_clean_simple assms(2))
  ultimately show ?thesis by (simp add: Clean_def Let_def rooted_def)
qed

lemma Dir_rooted:
  assumes "ds \<noteq> []" and "\<forall>d \<in> set ds. simple_name d" and "simple_name c"
  shows "Dir (rooted (ds @ [c])) = rooted ds"
proof -
  have "dropWhile (\<lambda>x. x \<noteq> CHR ''/'') (rev c @ CHR ''/'' # rev (rooted ds)) = CHR ''/'' # rev (rooted ds)"
    using assms(3) by (subst dropWhile_append2) (auto simp: simple_name_def)
  then have "rev (dropWhile (\<lambda>x. x \<noteq> CHR ''/'') (rev (rooted (ds @ [c])))) = rooted ds @ ''/''"
    by (simp add: rooted_snoc [OF assms(1)])
  then show ?thesis using Clean_dir_slash [OF assms(1,2)] by (simp add: Dir_def)
qed

lemma Base_rooted: "ds \<noteq> [] \<Longrightarrow> simple_name c \<Longrightarrow> Base (rooted (ds @ [c])) = c"
  by (simp add: rooted_snoc Base_join_dir)

definition socket_dir :: "string list" where
  "socket_dir = [''var'', ''lib'', ''kubelet'', ''device-plugins'']"

lemma socket_dir_simple [simp]: "socket_dir \<noteq> []" "\<forall>d \<in> set socket_dir. simple_name d"
  by (simp_all add: socket_dir_def simple_name_def)

lemma socket_rooted: "DevicePluginPath @ c = rooted (socket_dir @ [c])"
  by (simp add: socket_dir_def DevicePluginPath_def rooted_def)

section \<open>What the goroutines keep\<close>

lemma Stop_frame:
  assumes "Stop env (dpi, tr) = Some (err, dpi', tr')"
  shows "devs dpi' = devs dpi" and "socketPath dpi' = socketPath dpi" and "devicePath dpi' = devicePath dpi"
proof -
  have "devs dpi' = devs dpi \<and> socketPath dpi' = socketPath dpi \<and> devicePath dpi' = devicePath dpi"
    using Stop_Some(2) [OF assms] Stop_off [of dpi env tr] assms by (cases "server dpi") auto
  then show "devs dpi' = devs dpi" and "socketPath dpi' = socketPath dpi" and "devicePath dpi' = devicePath dpi" by simp_all
qed

lemma set_health_ID [simp]: "map ID (set_health v i ds) = map ID ds"
  by (simp add: set_health_def comp_def)

lemma fields_simps [simp]:
  "m_dpi (open_stream s) = m_dpi s" "m_dpi (set_checker i c s) = m_dpi s" "m_dpi (after_event i m a s) = m_dpi s"
  by (simp_all add: open_stream_def set_checker_def after_event_def split: action.splits)

lemma m_dpi_receive [simp]:
  "m_dpi (receive_update j ch i s) = (m_dpi s)\<lparr>devs := set_health (chan_value ch) i (devs (m_dpi s))\<rparr>"
  by (simp add: receive_update_def Let_def)

lemma health_step_frame:
  assumes "health_step s t"
  shows "map ID (devs (m_dpi t)) = map ID (devs (m_dpi s))" and "socketPath (m_dpi t) = socketPath (m_dpi s)"
    and "devicePath (m_dpi t) = devicePath (m_dpi s)"
proof -
  have "map ID (devs (m_dpi t)) = map ID (devs (m_dpi s)) \<and> socketPath (m_dpi t) = socketPath (m_dpi s) \<and>
      devicePath (m_dpi t) = devicePath (m_dpi s)"
    using assms by (cases rule: health_step.cases) (auto simp: Stop_frame dest: Start_frame)
  then show "map ID (devs (m_dpi t)) = map ID (devs (m_dpi s))" and "socketPath (m_dpi t) = socketPath (m_dpi s)"
    and "devicePath (m_dpi t) = devicePath (m_dpi s)" by simp_all
qed

text \<open>A plugin for the devices of the directory \<open>ds\<close>, apart from the directory of the sockets.\<close>

definition setting :: "string list \<Rightarrow> GenericDevicePlugin \<Rightarrow> bool" where
  "setting ds dpi \<longleftrightarrow> ds \<noteq> [] \<and> (\<forall>d \<in> set ds. simple_name d) \<and> ds \<noteq> socket_dir \<and> ds \<noteq> butlast socket_dir \<and>
     devicePath dpi = rooted ds @ ''/'' \<and> list_all simple_name (map ID (devs dpi)) \<and>
     (\<exists>c. simple_name c \<and> socketPath dpi = rooted (socket_dir @ [c]))"

lemma setting_step: "setting ds (m_dpi s) \<Longrightarrow> health_step s t \<Longrightarrow> setting ds (m_dpi t)"
  using health_step_frame [of s t] by (simp add: setting_def)

definition dev_files :: "string list \<Rightarrow> string set" where
  "dev_files ds = {rooted (ds @ [c]) | c. simple_name c}"

lemma device_file_in:
  assumes "setting ds dpi" and "d \<in> set (devs dpi)"
  shows "device_file b (devicePath dpi) d \<in> dev_files ds"
proof -
  have "simple_name (ID d)" using assms by (auto simp: setting_def list_all_iff)
  then have "simple_name (if b then ''vfio'' @ ID d else ID d)" using simple_prefix [of "ID d" "''vfio''"] by simp
  moreover from this have "device_file b (devicePath dpi) d = rooted (ds @ [if b then ''vfio'' @ ID d else ID d])"
    using assms Join_dir_slash [of ds] by (simp add: setting_def device_file_def Let_def)
  ultimately show ?thesis unfolding dev_files_def by blast
qed

lemma watch_devices_dom:
  "watch_devices add b path ds m = Inr m' \<Longrightarrow> fmdom' m' = device_file b path ` set ds \<union> fmdom' m"
  by (induction ds arbitrary: m) (auto simp: Let_def split: option.splits)

lemma healthCheck_setup_dom:
  assumes "healthCheck_setup h dpi = Inr m"
  shows "\<exists>b. supportsIOMMUFD (w_stat h) = Inr b \<and> fmdom' m = device_file b (devicePath dpi) ` set (devs dpi)"
proof -
  obtain b where "supportsIOMMUFD (w_stat h) = Inr b"
    and "watch_devices (w_add h) b (devicePath dpi) (devs dpi) fmempty = Inr m"
    using assms by (auto simp: healthCheck_setup_def split: sum.splits option.splits if_splits)
  with watch_devices_dom show ?thesis by fastforce
qed

section \<open>What a watcher is told\<close>

text \<open>A report names an entry when it tells of a creation.\<close>

definition report_names :: "raw_event \<Rightarrow> bool" where
  "report_names r \<longleftrightarrow> (has (Mask r) IN_CREATE \<or> has (Mask r) IN_MOVED_TO \<longrightarrow> (\<exists>n. Name r = Some n \<and> simple_name n))"

definition watch_dirs :: "string list \<Rightarrow> string set" where
  "watch_dirs ds = insert (rooted socket_dir) (dev_files ds)"

definition watches_ok :: "string list \<Rightarrow> watches \<Rightarrow> bool" where
  "watches_ok ds ws \<longleftrightarrow> (\<forall>wd w. fmlookup (by_wd ws) wd = Some w \<longrightarrow> w_path w \<in> watch_dirs ds)"

lemma watches_ok_read: "watches_ok ds ws \<Longrightarrow> read_event rm r ws = Some (eo, ws') \<Longrightarrow> watches_ok ds ws'"
  using read_event_by_wd by (fastforce simp: watches_ok_def)

lemma watches_ok_new [simp]: "watches_ok ds newWatches"
  by (simp add: watches_ok_def newWatches_def)

text \<open>No watch reports the creation of a device file: only its directory would.\<close>

lemma created_elsewhere:
  assumes "watches_ok ds ws" and "ds \<noteq> []" "ds \<noteq> socket_dir" "\<forall>d \<in> set ds. simple_name d"
    and "report_names r" and "read_event rm r ws = Some (Some ev, ws')" and "ev_Op ev = op_Create"
  shows "ev_Name ev \<notin> dev_files ds"
proof
  assume dev: "ev_Name ev \<in> dev_files ds"
  obtain w where w: "fmlookup (by_wd ws) (Wd r) = Some w" "ev = newEvent (event_name w r) (Mask r)"
    using read_event_Some [OF assms(6)] by blast
  then have "has (Mask r) IN_CREATE \<or> has (Mask r) IN_MOVED_TO" using newEvent_Create assms(7) by metis
  then obtain n where n: "Name r = Some n" "simple_name n" using assms(5) by (auto simp: report_names_def)
  obtain c' where c': "simple_name c'" "w_path w @ ''/'' @ n = rooted (ds @ [c'])"
    using dev n w(2) by (auto simp: dev_files_def event_name_def)
  have "w_path w \<in> watch_dirs ds" using assms(1) w(1) by (simp add: watches_ok_def)
  then consider "w_path w = rooted socket_dir" | c where "w_path w = rooted (ds @ [c])" "simple_name c"
    by (auto simp: watch_dirs_def dev_files_def)
  then show False
  proof cases
    case 1
    then have "rooted (socket_dir @ [n]) = rooted (ds @ [c'])" using c' by (simp add: rooted_snoc)
    then have "socket_dir @ [n] = ds @ [c']" using assms(2-4) n c' by (subst (asm) rooted_inj) auto
    then show False using assms(3) by simp
  next
    case (2 c)
    then have "rooted ((ds @ [c]) @ [n]) = rooted (ds @ [c'])" using c' by (simp add: rooted_snoc del: append_assoc)
    then have "(ds @ [c]) @ [n] = ds @ [c']" using assms(2-4) n c' 2 by (subst (asm) rooted_inj) auto
    then show False by simp
  qed
qed

lemma event_not_healthy:
  assumes "watches_ok ds ws" and "setting ds dpi" and "report_names r" and "read_event rm r ws = Some (Some ev, ws')"
    and "fmdom' m \<subseteq> dev_files ds" and "on_event m sock ev = Send ch v"
  shows "ch = Unhealthy_chan"
proof (rule ccontr)
  assume "ch \<noteq> Unhealthy_chan"
  with assms(6) have "ev_Op ev = op_Create" "ev_Name ev \<in> dev_files ds"
    using assms(5) by (auto simp: on_event_def fmlookup_dom'_iff split: option.splits if_splits)
  with created_elsewhere [OF assms(1) _ _ _ assms(3,4)] assms(2) show False by (simp add: setting_def)
qed

text \<open>Changes of plain paths are reported by name.\<close>

definition op_path :: "fs_op \<Rightarrow> string" where
  "op_path x = (case x of Created p \<Rightarrow> p | Removed p \<Rightarrow> p)"

lemma report_masks [simp]:
  "\<not> has IN_DELETE IN_CREATE" "\<not> has IN_DELETE IN_MOVED_TO" "\<not> has IN_ATTRIB IN_CREATE" "\<not> has IN_ATTRIB IN_MOVED_TO"
  "\<not> has IN_DELETE_SELF IN_CREATE" "\<not> has IN_DELETE_SELF IN_MOVED_TO" "\<not> has IN_IGNORED IN_CREATE"
  "\<not> has IN_IGNORED IN_MOVED_TO" "\<not> has IN_Q_OVERFLOW IN_CREATE" "\<not> has IN_Q_OVERFLOW IN_MOVED_TO"
  by (simp_all add: has_def in_defs)

lemma reports_named:
  assumes "plain_path (op_path x)" and "r \<in> set (reports_of x w)"
  shows "report_names r"
proof -
  obtain ds c where "op_path x = rooted (ds @ [c])" "ds \<noteq> []" "simple_name c"
    using assms(1) by (auto simp: plain_path_def)
  then have "simple_name (Base (op_path x))" by (simp add: Base_rooted)
  then show ?thesis
    using assms(2) by (auto simp: reports_of_def report_names_def op_path_def split: fs_op.splits if_splits)
qed

lemma overflow_named [simp]: "report_names overflow_report"
  by (simp add: report_names_def overflow_report_def)

lemma notify_named:
  assumes "list_all report_names (k_queue k)" and "plain_path (op_path x)"
  shows "list_all report_names (k_queue (notify x k))"
  using assms reports_named [OF assms(2)] by (auto simp: notify_def list_all_iff)

text \<open>The plugins change no files but their sockets.\<close>

lemma file_ops_effect:
  "x \<in> set (file_ops env tr es) \<Longrightarrow>
     (\<exists>p. x = Removed p \<and> RemoveFile p \<in> set es) \<or> (\<exists>p. x = Created p \<and> ListenUnix p \<in> set es)"
  by (induction env tr es rule: file_ops.induct) (auto split: effect.splits if_splits)

lemma Start_ops:
  assumes "Start env ch (dpi, tr) = (r, dpi', tr')" and "x \<in> set (new_ops env' tr tr')"
  shows "op_path x = socketPath dpi"
proof (cases "server dpi")
  case True
  with assms show ?thesis by (simp add: Start_server new_ops_def)
next
  case False
  from file_ops_effect [OF assms(2) [unfolded new_ops_def]]
  have "\<exists>p. op_path x = p \<and> (RemoveFile p \<in> set (drop (length tr) tr') \<or> ListenUnix p \<in> set (drop (length tr) tr'))"
    by (auto simp: op_path_def)
  with assms(1) False show ?thesis
    by (elim Start_elim) (auto simp: serve_effects_def register_effects_def split: if_splits)
qed

lemma Stop_ops:
  assumes "Stop env (dpi, tr) = Some (err, dpi', tr')" and "x \<in> set (new_ops env' tr tr')"
  shows "op_path x = socketPath dpi"
proof (cases "server dpi")
  case True
  from file_ops_effect [OF assms(2) [unfolded new_ops_def]] Stop_Some(3) [OF assms(1) True]
  show ?thesis by (auto simp: op_path_def)
next
  case False
  with assms show ?thesis by (simp add: Stop_off new_ops_def)
qed

lemma setting_plain: "setting ds dpi \<Longrightarrow> plain_path (socketPath dpi)"
  unfolding plain_path_def setting_def using socket_dir_simple by metis

text \<open>The watches of a health check.\<close>

lemma Add_paths:
  assumes "Add aw p ws = (None, ws')" and "fmlookup (by_wd ws') wd = Some w"
  shows "w_path w = Clean p \<or> (\<exists>wd'. \<exists>w'. fmlookup (by_wd ws) wd' = Some w' \<and> w_path w' = w_path w)"
  using assms
  by (auto simp: Add_def register_def updatePath_def Let_def split: option.splits sum.splits if_splits; blast)

lemma add_watches_ok:
  "add_watches files lim ps (ws, k) = Inr (ws', k') \<Longrightarrow> watches_ok ds ws \<Longrightarrow>
     \<forall>p \<in> set ps. Clean p \<in> watch_dirs ds \<Longrightarrow> watches_ok ds ws'"
proof (induction ps arbitrary: ws k)
  case (Cons p ps)
  obtain ws1 where a: "Add (\<lambda>path flags. fst (add_watch files lim path k)) p ws = (None, ws1)"
    and r: "add_watches files lim ps (ws1, snd (add_watch files lim (Clean p) k)) = Inr (ws', k')"
    using Cons.prems(1) by (auto split: prod.splits option.splits)
  have "watches_ok ds ws1"
    using Add_paths [OF a] Cons.prems(2,3) by (fastforce simp: watches_ok_def)
  with Cons.IH [OF r] Cons.prems(3) show ?case by simp
qed simp

lemma add_watches_queue: "add_watches files lim ps (ws, k) = Inr (ws', k') \<Longrightarrow> k_queue k' = k_queue k"
proof (induction ps arbitrary: ws k)
  case (Cons p ps)
  have q: "k_queue (snd (add_watch files lim path k)) = k_queue k" for path
    by (simp add: add_watch_def split: option.splits)
  from Cons.prems show ?case by (auto simp: q split: prod.splits option.splits dest!: Cons.IH)
qed simp

lemma watch_paths_ok:
  assumes "setting ds dpi" and "p \<in> set (watch_paths b dpi)"
  shows "Clean p \<in> watch_dirs ds"
proof -
  have "Clean (Dir (socketPath dpi)) = rooted socket_dir"
    using assms(1) by (auto simp: setting_def Dir_rooted Clean_rooted)
  moreover have "Clean q = q" if "q \<in> dev_files ds" for q
    using that assms(1) by (auto simp: dev_files_def setting_def intro!: Clean_rooted)
  ultimately show ?thesis
    using assms device_file_in [OF assms(1)] by (fastforce simp: watch_paths_def watch_dirs_def)
qed

section \<open>Devices only get worse\<close>

definition worse :: "plugin_device \<Rightarrow> plugin_device \<Rightarrow> bool" where
  "worse d d' \<longleftrightarrow> ID d = ID d' \<and> (Health d = Unhealthy \<longrightarrow> Health d' = Unhealthy)"

definition degraded :: "plugin_device list \<Rightarrow> plugin_device list \<Rightarrow> bool" where
  "degraded = list_all2 worse"

lemma degraded_refl [simp]: "degraded ds ds"
  by (simp add: degraded_def list_all2_refl worse_def)

lemma degraded_trans: "degraded a b \<Longrightarrow> degraded b c \<Longrightarrow> degraded a c"
  unfolding degraded_def by (rule list_all2_trans [of worse worse worse]) (auto simp: worse_def)

lemma degraded_unhealthy: "degraded ds (set_health Unhealthy i ds)"
  by (simp add: degraded_def set_health_def list_all2_map2 list_all2_same worse_def)

lemma degraded_snoc:
  assumes "sorted_wrt degraded (xs @ [d])" and "degraded d d'"
  shows "sorted_wrt degraded (xs @ [d'])"
  using assms by (auto simp: sorted_wrt_append intro: degraded_trans)

abbreviation unhealthy_updates :: "(health_chan \<times> string) list \<Rightarrow> bool" where
  "unhealthy_updates \<equiv> list_all (\<lambda>(ch, v). ch = Unhealthy_chan)"

fun checker_calm :: "string list \<Rightarrow> checker \<Rightarrow> bool" where
  "checker_calm ds (Watching m) = (fmdom' m \<subseteq> dev_files ds)"
| "checker_calm ds (Sending m ch v) = (fmdom' m \<subseteq> dev_files ds \<and> ch = Unhealthy_chan)"
| "checker_calm ds _ = True"

definition calm :: "string list \<Rightarrow> machine \<Rightarrow> bool" where
  "calm ds s \<longleftrightarrow> unhealthy_updates (m_updates s) \<and> list_all (checker_calm ds) (m_checkers s) \<and>
     (\<forall>st \<in> set (m_streams s). sorted_wrt degraded (sent st @ [devs (m_dpi s)]))"

lemma checker_at_calm: "calm ds s \<Longrightarrow> checker_at s i c \<Longrightarrow> checker_calm ds c"
  by (auto simp: calm_def checker_at_def list_all_iff)

lemma list_all_update: "list_all P xs \<Longrightarrow> P x \<Longrightarrow> list_all P (xs[i := x])"
  by (auto simp: list_all_iff dest!: set_update_subset_insert [THEN subsetD])

lemma calm_checker: "calm ds s \<Longrightarrow> checker_calm ds c \<Longrightarrow> calm ds (set_checker i c s)"
  by (simp add: calm_def set_checker_def list_all_update)

lemma calm_dpi: "calm ds s \<Longrightarrow> devs dpi = devs (m_dpi s) \<Longrightarrow> calm ds (s\<lparr>m_dpi := dpi\<rparr>) \<and> calm ds (s\<lparr>m_dpi := dpi, m_trace := tr\<rparr>)"
  by (simp add: calm_def)

lemma calm_end_stream: "calm ds s \<Longrightarrow> j < length (m_streams s) \<Longrightarrow> calm ds (end_stream j s)"
  by (auto simp: calm_def end_stream_def dest!: set_update_subset_insert [THEN subsetD])

lemma calm_receive:
  assumes "calm ds s" and "j < length (m_streams s)"
  shows "calm ds (receive_update j Unhealthy_chan v s)"
proof -
  let ?ds = "set_health Unhealthy v (devs (m_dpi s))"
  have "sorted_wrt degraded (sent st @ [?ds])" if "st \<in> set (m_streams s)" for st
    using assms(1) that degraded_snoc [OF _ degraded_unhealthy] by (auto simp: calm_def)
  moreover have "sorted_wrt degraded ((sent (m_streams s ! j) @ [?ds]) @ [?ds])"
  proof -
    have "sorted_wrt degraded (sent (m_streams s ! j) @ [?ds])" using assms(2) by (intro calculation) simp
    then show ?thesis by (auto simp: sorted_wrt_append)
  qed
  ultimately show ?thesis
    using assms(1)
    by (auto simp: calm_def receive_update_def Let_def chan_value_def dest!: set_update_subset_insert [THEN subsetD])
qed

lemma setup_calm:
  assumes "setting ds dpi" and "healthCheck_setup h dpi = Inr m"
  shows "checker_calm ds (Watching m)"
  using healthCheck_setup_dom [OF assms(2)] device_file_in [OF assms(1)] by auto

lemma calm_step:
  assumes "calm ds s" and "setting ds (m_dpi s)" and "health_step s t" and "unhealthy_updates (m_updates t)"
  shows "calm ds t"
  using assms(3)
proof (cases rule: health_step.cases)
  case ListAndWatch
  with assms(1) show ?thesis by (auto simp: calm_def open_stream_def)
next
  case (receive j i m ch v)
  from checker_at_calm [OF assms(1) receive(3)] have "ch = Unhealthy_chan" "checker_calm ds (Watching m)" by simp_all
  with receive calm_receive [OF assms(1)] calm_checker show ?thesis by (simp add: stream_runs_def)
next
  case (stream_term j b bs)
  have "calm ds (s\<lparr>m_dpi := (m_dpi s)\<lparr>term_buf := bs\<rparr>\<rparr>)" using calm_dpi [OF assms(1)] by simp
  with stream_term calm_end_stream show ?thesis by (simp add: stream_runs_def)
next
  case (stream_stop j)
  with assms(1) calm_end_stream show ?thesis by (simp add: stream_runs_def)
next
  case (check_setup i h m)
  with assms(1) setup_calm [OF assms(2)] calm_checker show ?thesis by blast
next
  case (check_event i m ev)
  from checker_at_calm [OF assms(1) check_event(2)] have m: "fmdom' m \<subseteq> dev_files ds" by simp
  show ?thesis
  proof (cases "on_event m (socketPath (m_dpi s)) ev")
    case (Send ch v)
    with assms(4) check_event have "ch = Unhealthy_chan" by (simp add: after_event_def set_checker_def)
    with Send check_event assms(1,4) m show ?thesis
      by (simp add: after_event_def set_checker_def calm_def list_all_update)
  qed (use check_event assms(1) calm_checker in \<open>simp_all add: after_event_def\<close>)
next
  case (restart_stop i env err dpi tr)
  have "calm ds (s\<lparr>m_dpi := dpi, m_trace := tr\<rparr>)" using calm_dpi [OF assms(1)] Stop_frame [OF restart_stop(4)] by simp
  with restart_stop calm_checker show ?thesis by simp
next
  case (restart_start i env err dpi tr)
  have "calm ds (s\<lparr>m_dpi := dpi, m_trace := tr\<rparr>)" using calm_dpi [OF assms(1)] Start_frame [OF restart_start(3)] by simp
  with restart_start calm_checker show ?thesis by simp
next
  case (restart_started i env dpi tr)
  have "calm ds (s\<lparr>m_dpi := dpi, m_trace := tr\<rparr>)" using calm_dpi [OF assms(1)] Start_frame [OF restart_started(3)] by simp
  with restart_started show ?thesis by (simp add: calm_def list_all_update)
next
  case (shutdown env err dpi tr)
  with calm_dpi [OF assms(1)] Stop_frame [OF shutdown(3)] show ?thesis by simp
next
  case close_stop
  with assms(1) show ?thesis by (simp add: calm_def)
qed (use assms(1) in \<open>simp_all add: calm_checker\<close>)

lemma quiet_updates:
  assumes "quiet_step s t"
  shows "m_updates t = m_updates s"
proof -
  from assms have "health_step s t" by (rule quiet_health)
  then show ?thesis
  proof (cases rule: health_step.cases)
    case (check_event i m ev)
    show ?thesis
    proof (cases "on_event m (socketPath (m_dpi s)) ev")
      case (Send ch v)
      with check_event have "checker_at t i (Sending m ch v)"
        by (simp add: after_event_def set_checker_def checker_at_def)
      moreover have "checker_at t i (Watching m) \<or> checker_at t i Ended"
        using assms check_event(2) by (auto simp: quiet_step_def)
      ultimately show ?thesis by (auto simp: checker_at_def)
    qed (use check_event in \<open>simp_all add: after_event_def set_checker_def\<close>)
  qed (simp_all add: open_stream_def end_stream_def set_checker_def receive_update_def Let_def)
qed

section \<open>The invariant of the host\<close>

definition plugin_calm :: "plugin_node \<Rightarrow> bool" where
  "plugin_calm P \<longleftrightarrow> (\<exists>ds. setting ds (m_dpi (n_machine P)) \<and> calm ds (n_machine P) \<and> watches_ok ds (n_watches P) \<and>
     list_all report_names (k_queue (n_inotify P)))"

definition node_calm :: "node \<Rightarrow> bool" where
  "node_calm N \<longleftrightarrow> list_all plugin_calm (n_plugins N) \<and> list_all (\<lambda>dp. \<exists>ds. setting ds dp) (n_todo N)"

lemma node_calm_perform: "node_calm N \<Longrightarrow> plain_path (op_path x) \<Longrightarrow> node_calm (perform x N)"
  using notify_named by (fastforce simp: node_calm_def perform_def list_all_iff plugin_calm_def)

lemma node_calm_fold: "node_calm N \<Longrightarrow> \<forall>x \<in> set xs. plain_path (op_path x) \<Longrightarrow> node_calm (fold perform xs N)"
  by (induction xs arbitrary: N) (simp_all add: node_calm_perform)

lemma node_calm_update:
  assumes "node_calm N" and "plugin_calm P"
  shows "node_calm (N\<lparr>n_plugins := (n_plugins N)[i := P]\<rparr>)"
  using assms by (simp add: node_calm_def list_all_update)

lemma node_calmD: "node_calm N \<Longrightarrow> i < length (n_plugins N) \<Longrightarrow> plugin_calm (n_plugins N ! i)"
  by (simp add: node_calm_def list_all_iff)

lemma calm_machine:
  assumes "plugin_calm P" and "health_step (n_machine P) t" and "unhealthy_updates (m_updates t)"
  shows "plugin_calm (P\<lparr>n_machine := t\<rparr>)"
  using assms(1) calm_step [OF _ _ assms(2,3)] setting_step [OF _ assms(2)] by (auto simp: plugin_calm_def)

lemma calm_updates: "plugin_calm P \<Longrightarrow> unhealthy_updates (m_updates (n_machine P))"
  by (auto simp: plugin_calm_def calm_def)

lemma node_calm_put:
  assumes "node_calm N" and "i < length (n_plugins N)" and "health_step (machine_of N i) t"
    and "m_updates t = m_updates (machine_of N i)"
  shows "node_calm (put i t N)"
  unfolding put_def
proof (rule node_calm_update [OF assms(1)])
  have P: "plugin_calm (n_plugins N ! i)" by (rule node_calmD [OF assms(1,2)])
  show "plugin_calm ((n_plugins N ! i)\<lparr>n_machine := t\<rparr>)"
    using calm_machine [OF P] calm_updates [OF P] assms(3,4) by (simp add: machine_of_def)
qed

lemma node_calm_setting: "node_calm N \<Longrightarrow> i < length (n_plugins N) \<Longrightarrow> \<exists>ds. setting ds (m_dpi (machine_of N i))"
  using node_calmD by (auto simp: plugin_calm_def machine_of_def)

lemma node_calm_socket: "node_calm N \<Longrightarrow> i < length (n_plugins N) \<Longrightarrow> plain_path (socketPath (m_dpi (machine_of N i)))"
  using node_calm_setting setting_plain by blast

lemma set_checker_history [simp]:
  "m_updates (set_checker i c s) = m_updates s" "m_trace (set_checker i c s) = m_trace s"
  by (simp_all add: set_checker_def)

lemma node_calm_plugin:
  assumes "node_calm N" and "plugin_step N N'"
  shows "node_calm N'"
  using assms(2)
proof (cases rule: plugin_step.cases)
  case (quiet i t)
  with node_calm_put [OF assms(1), of i t] quiet_health quiet_updates show ?thesis by simp
next
  case (set_up i c lim new m ws k)
  obtain ds where ds: "setting ds (m_dpi (machine_of N i))" "calm ds (machine_of N i)"
    using node_calmD [OF assms(1) set_up(2)] by (auto simp: plugin_calm_def machine_of_def)
  have "watches_ok ds ws"
    using add_watches_ok [OF set_up(5) watches_ok_new] watch_paths_ok [OF ds(1)] by blast
  moreover have "k_queue k = []" using add_watches_queue [OF set_up(5)] by (simp add: new_inotify_def)
  moreover have "calm ds (set_checker c (Watching m) (machine_of N i))"
    by (rule calm_checker [OF ds(2) setup_calm [OF ds(1) set_up(4)]])
  ultimately have "plugin_calm \<lparr>n_machine = set_checker c (Watching m) (machine_of N i), n_watches = ws,
      n_inotify = k, n_stuck = False\<rparr>"
    unfolding plugin_calm_def using ds(1) by (intro exI [of _ ds]) simp
  from node_calm_update [OF assms(1) this] set_up(1) show ?thesis by simp
next
  case (set_up_error i c lim new err)
  have "health_step (machine_of N i) (set_checker c Ended (machine_of N i))"
    using set_up_error(3,4) by (rule check_setup_error)
  with node_calm_put [OF assms(1)] set_up_error show ?thesis by simp
next
  case (read i P s c m r rs rm eo ws t)
  have calm: "plugin_calm P" using node_calmD [OF assms(1) read(2)] read(3) by simp
  then obtain ds where ds: "setting ds (m_dpi s)" "calm ds s" "watches_ok ds (n_watches P)" "report_names r"
    "list_all report_names rs" using read(4,7) by (auto simp: plugin_calm_def)
  have ok: "watches_ok ds ws" by (rule watches_ok_read [OF ds(3) read(8)])
  have "calm ds t \<and> setting ds (m_dpi t)"
  proof (cases eo)
    case (Some ev)
    have st: "health_step s t" unfolding read(9) Some option.case by (rule check_event [OF read(5)])
    have m: "fmdom' m \<subseteq> dev_files ds" using checker_at_calm [OF ds(2) read(5)] by simp
    have "ch = Unhealthy_chan" if "on_event m (socketPath (m_dpi s)) ev = Send ch v" for ch v
      using event_not_healthy [OF ds(3,1,4) read(8) [unfolded Some] m that] .
    then have "unhealthy_updates (m_updates t)"
      using ds(2) by (auto simp: read(9) Some after_event_def calm_def set_checker_def split: action.splits)
    from calm_step [OF ds(2,1) st this] setting_step [OF ds(1) st] show ?thesis by simp
  qed (use ds read(9) in simp)
  then have "plugin_calm (P\<lparr>n_machine := t, n_watches := ws, n_inotify := (n_inotify P)\<lparr>k_queue := rs\<rparr>\<rparr>)"
    unfolding plugin_calm_def using ok ds(5) by (intro exI [of _ ds]) simp
  from node_calm_update [OF assms(1) this] read(1) show ?thesis by simp
next
  case (read_error i P c m r rs rm)
  have "plugin_calm (P\<lparr>n_stuck := True, n_inotify := (n_inotify P)\<lparr>k_queue := rs\<rparr>\<rparr>)"
    using node_calmD [OF assms(1) read_error(2)] read_error(3,6) by (auto simp: plugin_calm_def)
  from node_calm_update [OF assms(1) this] read_error(1) show ?thesis by simp
next
  case (error_taken i P c m)
  then show ?thesis by simp
next
  case (overflow i P)
  have "plugin_calm (P\<lparr>n_inotify := (n_inotify P)\<lparr>k_queue := k_queue (n_inotify P) @ [overflow_report]\<rparr>\<rparr>)"
    using node_calmD [OF assms(1) overflow(2)] overflow(3) by (auto simp: plugin_calm_def)
  from node_calm_update [OF assms(1) this] overflow(1) show ?thesis by simp
next
  case (stop i s c env answer err dpi tr)
  have "health_step s (set_checker c Restart_start (s\<lparr>m_dpi := dpi, m_trace := tr\<rparr>))"
    using stop(4,5,7) by (rule restart_stop)
  then have "node_calm (put i (set_checker c Restart_start (s\<lparr>m_dpi := dpi, m_trace := tr\<rparr>)) N)"
    using stop(2,3) by (intro node_calm_put [OF assms(1)]) simp_all
  then show ?thesis
    using Stop_ops [OF stop(7)] node_calm_socket [OF assms(1) stop(2)] stop(1,3) by (auto intro: node_calm_fold)
next
  case (start_error i s c env answer err dpi tr)
  have "health_step s (set_checker c Ended (s\<lparr>m_dpi := dpi, m_trace := tr\<rparr>))"
    using start_error(4,6) by (rule restart_start)
  then have "node_calm (put i (set_checker c Ended (s\<lparr>m_dpi := dpi, m_trace := tr\<rparr>)) N)"
    using start_error(2,3) by (intro node_calm_put [OF assms(1)]) simp_all
  then show ?thesis
    using Start_ops [OF start_error(6)] node_calm_socket [OF assms(1) start_error(2)] start_error(1,3)
    by (auto intro: node_calm_fold)
next
  case (started i s c env answer dpi tr)
  let ?t = "s\<lparr>m_dpi := dpi, m_trace := tr, m_checkers := (m_checkers s)[c := Ended] @ [Setup]\<rparr>"
  have "health_step s ?t" using started(4,6) by (rule restart_started)
  then have "node_calm (put i ?t N)"
    using started(2,3) by (intro node_calm_put [OF assms(1)]) simp_all
  then show ?thesis
    using Start_ops [OF started(6)] node_calm_socket [OF assms(1) started(2)] started(1,3)
    by (auto intro: node_calm_fold)
next
  case (shutdown i s env answer err dpi tr)
  have "health_step s (s\<lparr>m_dpi := dpi, m_trace := tr\<rparr>)" using shutdown(4,6) by (rule health_step.shutdown)
  then have "node_calm (put i (s\<lparr>m_dpi := dpi, m_trace := tr\<rparr>) N)"
    using shutdown(2,3) by (intro node_calm_put [OF assms(1)]) simp_all
  then show ?thesis
    using Stop_ops [OF shutdown(6)] node_calm_socket [OF assms(1) shutdown(2)] shutdown(1,3)
    by (auto intro: node_calm_fold)
next
  case (launch dp dps env answer r dpi tr)
  obtain ds where ds: "setting ds dp" using assms(1) launch(2) by (auto simp: node_calm_def)
  have "setting ds dpi" using ds Start_frame [OF launch(4)] by (simp add: setting_def)
  then have "plugin_calm (fresh_node dpi tr)"
    unfolding plugin_calm_def by (intro exI [of _ ds]) (simp add: fresh_node_def calm_def new_inotify_def)
  then have "node_calm (N\<lparr>n_todo := dps, n_plugins := n_plugins N @ (if r = None then [fresh_node dpi tr] else [])\<rparr>)"
    using assms(1) launch(2) by (simp add: node_calm_def)
  then show ?thesis
    using Start_ops [OF launch(4)] setting_plain [OF ds] launch(1) by (auto intro: node_calm_fold)
qed

lemma node_calm_step: "node_calm N \<Longrightarrow> node_step N N' \<Longrightarrow> node_calm N'"
  by (cases rule: node_step.cases) (auto simp: node_calm_plugin op_path_def intro!: node_calm_perform)

text \<open>A device type as the controller sets it up: a name without a slash, one of the two directories
  of device files, keys that are file names.\<close>

definition spec_fit :: "string \<times> string \<times> string list \<Rightarrow> bool" where
  "spec_fit = (\<lambda>(name, path, ids). CHR ''/'' \<notin> set name \<and> (path = ''/dev/vfio/'' \<or> path = ''/dev/vfio/devices/'') \<and>
     list_all simple_name ids)"

lemma spec_setting:
  assumes "spec_fit (name, path, ids)"
  shows "\<exists>ds. setting ds (NewGenericDevicePlugin name path (fresh_devices ids))"
proof -
  have dirs: "''/dev/vfio/'' = rooted [''dev'', ''vfio''] @ ''/''"
    "''/dev/vfio/devices/'' = rooted [''dev'', ''vfio'', ''devices''] @ ''/''" by (simp_all add: rooted_def)
  let ?dp = "NewGenericDevicePlugin name path (fresh_devices ids)"
  obtain ds where ds: "ds \<noteq> []" "\<forall>d \<in> set ds. simple_name d" "ds \<noteq> socket_dir" "ds \<noteq> butlast socket_dir" "path = rooted ds @ ''/''"
  proof (cases "path = ''/dev/vfio/''")
    case True
    then show thesis using dirs(1) by (intro that [of "[''dev'', ''vfio'']"]) (simp_all add: simple_name_def socket_dir_def)
  next
    case False
    with assms have "path = ''/dev/vfio/devices/''" by (simp add: spec_fit_def)
    then show thesis
      using dirs(2) by (intro that [of "[''dev'', ''vfio'', ''devices'']"]) (simp_all add: simple_name_def socket_dir_def)
  qed
  have "simple_name (socket_name name)" using assms by (simp add: spec_fit_def socket_name_simple)
  moreover have "socketPath ?dp = rooted (socket_dir @ [socket_name name])" by (simp add: socketPath_New socket_rooted)
  moreover have "list_all simple_name (map ID (devs ?dp))"
    using assms by (simp add: spec_fit_def NewGenericDevicePlugin_def fresh_devices_def comp_def)
  ultimately have "setting ds ?dp"
    unfolding setting_def using ds by (auto simp: NewGenericDevicePlugin_def)
  then show ?thesis ..
qed

interpretation no_recovery: invariant_system "\<lambda>N. node_init specs N \<and> list_all spec_fit specs" node_step node_calm
proof
  fix N assume "node_init specs N \<and> list_all spec_fit specs"
  then show "node_calm N"
    using spec_setting by (fastforce simp: node_calm_def node_init_def todo_of_def list_all_iff)
qed (rule node_calm_step)

end
