(* ===== verification/NodeProps.thy ===== *)
theory NodeProps
  imports NodeAll HealthAll
begin

text \<open>
  Properties of the host with all its plugins: devices never recover, and health checks end
  where a device file is missing, or go blind after a lost report.
\<close>

section \<open>Health checks that see nothing\<close>

text \<open>A device file of plugin \<open>i\<close> is not there.\<close>

definition device_missing :: "node \<Rightarrow> nat \<Rightarrow> bool" where
  "device_missing N i \<longleftrightarrow> list_ex (\<lambda>d. Clean (device_file (iommufd_on (n_files N)) (devicePath (m_dpi (machine_of N i))) d) \<notin> n_files N)
     (devs (m_dpi (machine_of N i)))"

lemma watch_devices_added: "watch_devices add b path ds m = Inr m' \<Longrightarrow> d \<in> set ds \<Longrightarrow> add (device_file b path d) = None"
  by (induction ds arbitrary: m) (auto simp: Let_def split: option.splits)

lemma iommufd_watch_host: "supportsIOMMUFD (w_stat (watch_host files lim new)) = Inr (iommufd_on files)"
  by (simp add: supportsIOMMUFD_def watch_host_def iommufd_on_def)

lemma setup_missing: "device_missing N i \<Longrightarrow> healthCheck_setup (watch_host (n_files N) lim new) (m_dpi (machine_of N i)) \<noteq> Inr m"
proof
  let ?h = "watch_host (n_files N) lim new" and ?d = "m_dpi (machine_of N i)"
  assume m: "device_missing N i" and r: "healthCheck_setup ?h ?d = Inr m"
  then have "watch_devices (w_add ?h) (iommufd_on (n_files N)) (devicePath ?d) (devs ?d) fmempty = Inr m"
    by (auto simp: healthCheck_setup_def iommufd_watch_host split: option.splits if_splits)
  note all_added = watch_devices_added [OF this]
  obtain d where "d \<in> set (devs ?d)" "Clean (device_file (iommufd_on (n_files N)) (devicePath ?d) d) \<notin> n_files N"
    using m by (auto simp: device_missing_def list_ex_iff)
  with all_added [of d] show False by (simp add: watch_host_def)
qed

text \<open>The reader of a watcher is stuck, or the next it reads is that reports were lost.\<close>

definition jammed :: "plugin_node \<Rightarrow> bool" where
  "jammed P \<longleftrightarrow> n_stuck P \<or> (\<exists>rs. k_queue (n_inotify P) = overflow_report # rs)"

lemma jammed_machine [simp]: "jammed (P\<lparr>n_machine := t\<rparr>) = jammed P"
  by (simp add: jammed_def)

lemma read_overflow: "read_event rm overflow_report ws = None"
  by (simp add: read_event_def overflow_report_def IN_Q_OVERFLOW_def)

text \<open>Plugin \<open>i\<close> hears nothing: its health checks have returned, have a jammed reader, or cannot set up.\<close>

definition unheard :: "node \<Rightarrow> nat \<Rightarrow> checker \<Rightarrow> bool" where
  "unheard N i c \<longleftrightarrow> c = Ended \<or> c = Setup \<and> device_missing N i \<or> (\<exists>m. c = Watching m) \<and> jammed (n_plugins N ! i)"

definition deaf :: "node \<Rightarrow> nat \<Rightarrow> bool" where
  "deaf N i \<longleftrightarrow> list_all (unheard N i) (m_checkers (machine_of N i))"

lemma deafD: "deaf N i \<Longrightarrow> checker_at (machine_of N i) c x \<Longrightarrow> unheard N i x"
  by (auto simp: deaf_def list_all_iff checker_at_def)

lemma unheard_simps [simp]:
  "\<not> unheard N i (Sending m ch v)" "\<not> unheard N i Restarting" "\<not> unheard N i Restart_start" "unheard N i Ended"
  "unheard N i Setup \<longleftrightarrow> device_missing N i" "unheard N i (Watching m) \<longleftrightarrow> jammed (n_plugins N ! i)"
  by (simp_all add: unheard_def)

text \<open>What such a plugin keeps in a step: its updates, its registrations, and its health checks but
  for those that return.\<close>

definition kept :: "plugin_node \<Rightarrow> plugin_node \<Rightarrow> bool" where
  "kept P Q \<longleftrightarrow> m_updates (n_machine Q) = m_updates (n_machine P) \<and>
     registrations (m_trace (n_machine Q)) = registrations (m_trace (n_machine P)) \<and>
     set (m_checkers (n_machine Q)) \<subseteq> insert Ended (set (m_checkers (n_machine P))) \<and> (jammed P \<longrightarrow> jammed Q)"

lemma kept_refl [simp]: "kept P P"
  by (auto simp: kept_def)

lemma kept_trans: "kept P Q \<Longrightarrow> kept Q R \<Longrightarrow> kept P R"
  by (auto simp: kept_def)

lemma set_checker_Ended: "set (m_checkers (set_checker c Ended s)) \<subseteq> insert Ended (set (m_checkers s))"
  by (simp add: set_checker_def set_update_subset_insert)

lemma quiet_kept:
  assumes "quiet_step (n_machine P) t" and "\<forall>c \<in> set (m_checkers (n_machine P)). c = Ended \<or> c = Setup \<or> (\<exists>m. c = Watching m)"
  shows "kept P (P\<lparr>n_machine := t\<rparr>)"
proof -
  let ?s = "n_machine P"
  have at: "c = Ended \<or> c = Setup \<or> (\<exists>m. c = Watching m)" if "checker_at ?s i c" for i c
    using that assms(2) by (auto simp: checker_at_def)
  have same: "m_updates t = m_updates ?s" "m_trace t = m_trace ?s"
    using quiet_updates assms(1) by (auto simp: quiet_step_def)
  have q: "checker_at ?s i Setup \<Longrightarrow> checker_at t i Setup" "checker_at ?s i (Watching m) \<Longrightarrow> checker_at t i (Watching m) \<or> checker_at t i Ended" for i m
    using assms(1) by (auto simp: quiet_step_def)
  have "set (m_checkers t) \<subseteq> insert Ended (set (m_checkers ?s))"
    using quiet_health [OF assms(1)]
  proof (cases rule: health_step.cases)
    case (check_setup i h m)
    with q(1) [of i] show ?thesis by (auto simp: checker_at_def set_checker_def)
  next
    case (check_event i m ev)
    with q(2) [of i m] show ?thesis
      by (cases "on_event m (socketPath (m_dpi ?s)) ev") (auto simp: checker_at_def set_checker_def after_event_def)
  qed (use at set_checker_Ended in \<open>fastforce simp: open_stream_def\<close>)+
  with same show ?thesis by (simp add: kept_def)
qed

lemma n_plugins_put: "i < length (n_plugins N) \<Longrightarrow>
    n_plugins (put i s N) ! j = (if j = i then (n_plugins N ! i)\<lparr>n_machine := s\<rparr> else n_plugins N ! j)"
  by (simp add: put_def nth_list_update)

lemma kept_perform: "j < length (n_plugins M) \<Longrightarrow> kept P (n_plugins M ! j) \<Longrightarrow> kept P (n_plugins (fold perform xs M) ! j)"
proof (induction xs arbitrary: M)
  case (Cons x xs)
  have "kept P (n_plugins (perform x M) ! j)" using Cons.prems by (auto simp: nth_perform kept_def jammed_def notify_def)
  with Cons show ?case by simp
qed simp

lemma kept_other: "j < length (n_plugins N) \<Longrightarrow> i \<noteq> j \<Longrightarrow> kept (n_plugins N ! j) (n_plugins (fold perform xs (put i s N)) ! j)"
  by (cases "i < length (n_plugins N)") (auto intro!: kept_perform simp: n_plugins_put put_def)

lemma deaf_plugin:
  assumes "plugin_step N N'" and "deaf N j" and "j < length (n_plugins N)"
  shows "kept (n_plugins N ! j) (n_plugins N' ! j)"
  using assms(1)
proof (cases rule: plugin_step.cases)
  case (quiet i t)
  have "\<forall>c \<in> set (m_checkers (n_machine (n_plugins N ! j))). c = Ended \<or> c = Setup \<or> (\<exists>m. c = Watching m)"
    using assms(2) by (auto simp: deaf_def list_all_iff unheard_def machine_of_def)
  from quiet_kept [OF _ this] quiet assms(3) show ?thesis by (auto simp: n_plugins_put machine_of_def)
next
  case (set_up i c lim new m ws k)
  have "i \<noteq> j"
  proof
    assume "i = j"
    with deafD [OF assms(2)] set_up(3) have "device_missing N i" by fastforce
    with setup_missing set_up(4) show False by blast
  qed
  with set_up(1) show ?thesis by simp
next
  case (set_up_error i c lim new err)
  have "kept (n_plugins N ! i) ((n_plugins N ! i)\<lparr>n_machine := set_checker c Ended (machine_of N i)\<rparr>)"
    using set_checker_Ended by (fastforce simp: kept_def machine_of_def set_checker_def)
  with set_up_error show ?thesis by (simp add: n_plugins_put)
next
  case (read i P s c m r rs rm eo ws t)
  with deafD [OF assms(2), of c "Watching m"] read_overflow have "i \<noteq> j" by (auto simp: machine_of_def jammed_def)
  with read(1) show ?thesis by simp
next
  case (read_error i P c m r rs rm)
  then show ?thesis by (auto simp: kept_def nth_list_update jammed_def)
next
  case (error_taken i P c m)
  then show ?thesis by simp
next
  case (overflow i P)
  then show ?thesis by (auto simp: kept_def nth_list_update jammed_def)
next
  case (stop i s c env answer err dpi tr)
  with deafD [OF assms(2)] have "i \<noteq> j" by fastforce
  with stop(1) assms(3) show ?thesis by (simp add: kept_other)
next
  case (start_error i s c env answer err dpi tr)
  with deafD [OF assms(2)] have "i \<noteq> j" by fastforce
  with start_error(1) assms(3) show ?thesis by (simp add: kept_other)
next
  case (started i s c env answer dpi tr)
  with deafD [OF assms(2)] have "i \<noteq> j" by fastforce
  with started(1) assms(3) show ?thesis by (simp add: kept_other)
next
  case (shutdown i s env answer err dpi tr)
  have "kept (n_plugins N ! i) ((n_plugins N ! i)\<lparr>n_machine := s\<lparr>m_dpi := dpi, m_trace := tr\<rparr>\<rparr>)"
    using Stop_registrations [OF shutdown(6)] shutdown(3) by (auto simp: kept_def machine_of_def)
  then have "kept (n_plugins N ! j) (n_plugins (put i (s\<lparr>m_dpi := dpi, m_trace := tr\<rparr>) N) ! j)"
    using shutdown(2) by (simp add: n_plugins_put)
  with shutdown(1) assms(3) show ?thesis by (simp add: kept_perform)
next
  case (launch dp dps env answer r dpi tr)
  with assms(3) show ?thesis by (auto intro!: kept_perform simp: nth_append)
qed

lemma deaf_step:
  assumes "node_step N N'" and "deaf N j" and "j < length (n_plugins N)"
  shows "kept (n_plugins N ! j) (n_plugins N' ! j)" and "j < length (n_plugins N')"
proof -
  show "kept (n_plugins N ! j) (n_plugins N' ! j)"
    using assms(1) kept_perform [OF assms(3) kept_refl, of "[x]" for x] deaf_plugin [OF _ assms(2,3)]
    by (cases rule: node_step.cases) auto
  show "j < length (n_plugins N')"
    using assms plugin_step_length by (cases rule: node_step.cases) fastforce+
qed

section \<open>A sample host\<close>

text \<open>Starts and stops where every call but the removal of a missing file succeeds.\<close>

abbreviation fine_files :: "string set \<Rightarrow> environment" where
  "fine_files files \<equiv> file_env files all_fine"

lemma Start_files: "\<not> server dpi \<Longrightarrow> Start (fine_files files) ch (dpi, tr) = (None, dpi\<lparr>stop_ch := ch, server := True\<rparr>,
     tr @ serve_effects (socketPath dpi) True @ register_effects dpi @ [GoHealthCheck])"
  by (simp add: start_defs file_env_def all_fine_def serve_effects_def register_effects_def)

definition start_ops :: "string set \<Rightarrow> string \<Rightarrow> fs_op list" where
  "start_ops files p = (if p \<in> files then [Removed p] else []) @ [Created p]"

lemma start_files_ops:
  "new_ops (fine_files files) tr (tr @ serve_effects p True @ register_effects dpi @ [GoHealthCheck]) = start_ops files p"
  by (simp add: new_ops_def serve_effects_def register_effects_def file_env_def all_fine_def start_ops_def)

lemma launch_fine:
  assumes "n_todo N = dp # dps" and "\<not> server dp"
  shows "plugin_step N (fold perform (start_ops (n_files N) (socketPath dp)) (N\<lparr>n_todo := dps, n_plugins := n_plugins N @
    [fresh_node (dp\<lparr>stop_ch := Global_stop, server := True\<rparr>) (serve_effects (socketPath dp) True @ register_effects dp @ [GoHealthCheck])]\<rparr>))"
  using launch [OF assms(1) refl Start_files [OF assms(2)]] start_files_ops [of _ "[]"] by simp

definition sample_specs :: "(string \<times> string \<times> string list) list" where
  "sample_specs = [(''pgpu'', ''/dev/vfio/'', [''1''])]"

abbreviation sample_sock :: string where
  "sample_sock \<equiv> ''/var/lib/kubelet/device-plugins/sandbox-pgpu.sock''"

abbreviation sample_sockets :: string where
  "sample_sockets \<equiv> ''/var/lib/kubelet/device-plugins''"

abbreviation sample_file :: string where
  "sample_file \<equiv> ''/dev/vfio/1''"

definition sample_host_node :: "string set \<Rightarrow> machine \<Rightarrow> watches \<Rightarrow> inotify \<Rightarrow> bool \<Rightarrow> fs_op list \<Rightarrow> node" where
  "sample_host_node files s ws k b ops = \<lparr>n_files = files, n_plugins = [\<lparr>n_machine = s, n_watches = ws, n_inotify = k,
     n_stuck = b\<rparr>], n_todo = [], n_ops = ops\<rparr>"

abbreviation sample_machine :: "stream list \<Rightarrow> checker \<Rightarrow> machine" where
  "sample_machine \<equiv> started ''pgpu'' ''/dev/vfio/'' [''1'']"

abbreviation host_reach :: "node \<Rightarrow> bool" where
  "host_reach \<equiv> reach (node_init sample_specs) node_step"

lemma host_step: "host_reach N \<Longrightarrow> plugin_step N N' \<Longrightarrow> host_reach N'"
  using reach_step [of "node_init sample_specs" node_step N N'] node_step.plugin by blast

lemma sample_launched:
  assumes "sample_sock \<notin> files"
  shows "host_reach (sample_host_node (insert sample_sock files) (sample_machine [] Setup) newWatches new_inotify False [Created sample_sock])"
proof -
  let ?N = "\<lparr>n_files = files, n_plugins = [], n_todo = todo_of sample_specs, n_ops = []\<rparr>"
  let ?dp = "NewGenericDevicePlugin ''pgpu'' ''/dev/vfio/'' (fresh_devices [''1''])"
  have p: "socketPath ?dp = sample_sock" by (simp add: socketPath_New DevicePluginPath_def socket_name_def)
  have init: "node_init sample_specs ?N" by (simp add: node_init_def)
  have "n_todo ?N = ?dp # []" "\<not> server ?dp" by (simp_all add: todo_of_def sample_specs_def NewGenericDevicePlugin_def)
  from launch_fine [OF this] have "plugin_step ?N (sample_host_node (insert sample_sock files) (sample_machine [] Setup)
      newWatches new_inotify False [Created sample_sock])"
    using assms
    by (simp add: start_ops_def p perform_def apply_op_def fresh_node_def sample_host_node_def started_def notify_def
        new_inotify_def Let_def)
  moreover have "host_reach ?N" using init by (rule reach_init)
  ultimately show ?thesis using host_step by blast
qed

text \<open>The watches of the health check, when the directory and the device file are there.\<close>

definition sample_watches :: watches where
  "sample_watches = \<lparr>by_wd = fmdrop 0 (fmupd 2 \<lparr>w_wd = 2, w_flags = default_flags, w_path = sample_file\<rparr>
     (fmdrop 0 (fmupd 1 \<lparr>w_wd = 1, w_flags = default_flags, w_path = sample_sockets\<rparr> fmempty))),
     by_path = fmupd sample_file 2 (fmupd sample_sockets 1 fmempty)\<rparr>"

definition sample_inotify :: "raw_event list \<Rightarrow> inotify" where
  "sample_inotify q = \<lparr>k_watches = [(1, sample_sockets), (2, sample_file)], k_next = 3, k_queue = q\<rparr>"

abbreviation sample_watch_map :: "(string, string) fmap" where
  "sample_watch_map \<equiv> fmupd sample_file ''1'' fmempty"

lemma sample_paths:
  "Clean sample_file = sample_file" "Clean sample_sockets = sample_sockets" "Dir sample_sock = sample_sockets"
  "Base sample_sock = ''sandbox-pgpu.sock''" "Join [''/dev/vfio/'', ''1''] = sample_file"
  "Clean (Join [rootPath, iommuDevicePath]) = ''/dev/iommu''" "Dir sample_file = ''/dev/vfio''"
  by code_simp+

lemma sample_socketPath [simp]: "socketPath (m_dpi (sample_machine sts c)) = sample_sock"
  by (simp add: DevicePluginPath_def socket_name_def)

abbreviation sample_files :: "string set" where
  "sample_files \<equiv> {sample_sock, sample_file, sample_sockets}"

lemma sample_set_up:
  assumes "sample_file \<in> F" and "sample_sockets \<in> F" and "''/dev/iommu'' \<notin> F"
  shows "plugin_step (sample_host_node F (sample_machine [] Setup) newWatches new_inotify False ops)
    (sample_host_node F (sample_machine [] (Watching sample_watch_map)) sample_watches (sample_inotify []) False ops)"
proof -
  let ?N = "sample_host_node F (sample_machine [] Setup) newWatches new_inotify False ops"
  have off: "\<not> iommufd_on F" using assms(3) by (simp add: iommufd_on_def sample_paths)
  have paths: "watch_paths False (m_dpi (sample_machine [] Setup)) = [sample_sockets, sample_file]"
    by (simp add: watch_paths_def sample_paths fresh_devices_def device_file_def DevicePluginPath_def socket_name_def)
  have add: "add_watches F (\<lambda>_. None) [sample_sockets, sample_file] (newWatches, new_inotify) = Inr (sample_watches, sample_inotify [])"
    using assms by (simp add: Add_def sample_paths register_def updatePath_def add_watch_def newWatches_def new_inotify_def Let_def
        sample_watches_def sample_inotify_def)
  have st: "healthCheck_setup (watch_host F (\<lambda>_. None) None) (m_dpi (sample_machine [] Setup)) = Inr sample_watch_map"
    using iommufd_watch_host [of F "\<lambda>_. None" None] off assms
    by (simp add: healthCheck_setup_def fresh_devices_def device_file_def sample_paths watch_host_def DevicePluginPath_def
        socket_name_def)
  show ?thesis
    using set_up [of 0 ?N 0 "\<lambda>_. None" None sample_watch_map sample_watches "sample_inotify []"] st add off paths
    by (simp add: sample_host_node_def machine_of_def checker_at_def set_checker_def started_def Let_def)
qed

lemma sample_watching_host:
  "host_reach (sample_host_node sample_files (sample_machine [] (Watching sample_watch_map)) sample_watches (sample_inotify []) False [Created sample_sock])"
  by (rule host_step [OF sample_launched [of "{sample_file, sample_sockets}"] sample_set_up]) simp_all

text \<open>Its stream is opened, the device file removed, and the removal read and reported.\<close>

abbreviation sample_devices :: "string \<Rightarrow> plugin_device list" where
  "sample_devices h \<equiv> [\<lparr>ID = ''1'', Health = h\<rparr>]"

lemma has_samples [simp]:
  "\<not> has IN_ATTRIB IN_OPEN" "\<not> has IN_ATTRIB IN_ACCESS" "\<not> has IN_ATTRIB IN_CLOSE_WRITE" "\<not> has IN_ATTRIB IN_CLOSE_NOWRITE"
  "\<not> has IN_DELETE_SELF IN_OPEN" "\<not> has IN_DELETE_SELF IN_ACCESS" "\<not> has IN_DELETE_SELF IN_CLOSE_WRITE"
  "\<not> has IN_DELETE_SELF IN_CLOSE_NOWRITE" "\<not> has IN_DELETE IN_OPEN" "\<not> has IN_DELETE IN_ACCESS"
  "\<not> has IN_DELETE IN_CLOSE_WRITE" "\<not> has IN_DELETE IN_CLOSE_NOWRITE"
  "has IN_ATTRIB IN_ATTRIB" "\<not> has IN_ATTRIB IN_DELETE" "\<not> has IN_ATTRIB IN_DELETE_SELF" "\<not> has IN_ATTRIB IN_MODIFY"
  "\<not> has IN_ATTRIB IN_MOVE_SELF" "\<not> has IN_ATTRIB IN_MOVED_FROM" "has IN_DELETE_SELF IN_DELETE_SELF"
  "\<not> has IN_DELETE_SELF IN_DELETE" "\<not> has IN_DELETE_SELF IN_MODIFY" "\<not> has IN_DELETE_SELF IN_MOVE_SELF"
  "\<not> has IN_DELETE_SELF IN_MOVED_FROM" "\<not> has IN_DELETE_SELF IN_ATTRIB" "has IN_DELETE IN_DELETE"
  "\<not> has IN_DELETE IN_DELETE_SELF" "\<not> has IN_DELETE IN_MODIFY" "\<not> has IN_DELETE IN_MOVE_SELF"
  "\<not> has IN_DELETE IN_MOVED_FROM" "\<not> has IN_DELETE IN_ATTRIB"
  "IN_ATTRIB AND IN_Q_OVERFLOW = 0" "IN_ATTRIB AND IN_IGNORED = 0" "IN_ATTRIB AND IN_UNMOUNT = 0"
  "IN_ATTRIB AND IN_DELETE_SELF = 0"
  "IN_DELETE_SELF AND IN_Q_OVERFLOW = 0" "IN_DELETE_SELF AND IN_IGNORED = 0" "IN_DELETE_SELF AND IN_UNMOUNT = 0"
  "IN_DELETE_SELF AND IN_DELETE_SELF \<noteq> 0"
  "IN_DELETE AND IN_Q_OVERFLOW = 0" "IN_DELETE AND IN_IGNORED = 0" "IN_DELETE AND IN_UNMOUNT = 0"
  "IN_DELETE AND IN_DELETE_SELF = 0"
  by (simp_all add: has_def in_defs)

lemma sample_wd [simp]:
  "fmlookup (by_wd sample_watches) 1 = Some \<lparr>w_wd = 1, w_flags = default_flags, w_path = sample_sockets\<rparr>"
  "fmlookup (by_wd sample_watches) 2 = Some \<lparr>w_wd = 2, w_flags = default_flags, w_path = sample_file\<rparr>"
  "fmlookup (by_path sample_watches) ''/dev/vfio'' = None"
  by (simp_all add: sample_watches_def)

lemma sample_read_attrib:
  "read_event rm \<lparr>Wd = 2, Mask = IN_ATTRIB, Name = None\<rparr> sample_watches =
     Some (Some \<lparr>ev_Name = sample_file, ev_Op = op_Chmod\<rparr>, sample_watches)"
  by (simp add: read_event_def handleEvent_def newEvent_def event_name_def op_Chmod_def)

abbreviation sample_left :: watches where
  "sample_left \<equiv> remove_watch \<lparr>w_wd = 2, w_flags = default_flags, w_path = sample_file\<rparr> sample_watches"

lemma sample_read_removed:
  "read_event rm \<lparr>Wd = 2, Mask = IN_DELETE_SELF, Name = None\<rparr> sample_watches =
     Some (Some \<lparr>ev_Name = sample_file, ev_Op = op_Remove\<rparr>, sample_left)"
  by (simp add: read_event_def handleEvent_def op_Remove_def sample_paths)
    (simp add: remove_watch_def newEvent_def event_name_def op_Remove_def)

abbreviation sample_stream :: "string list \<Rightarrow> stream" where
  "sample_stream hs \<equiv> \<lparr>sent = map sample_devices hs, running = True, selected_stop = Global_stop\<rparr>"

lemma plain_sample: "plain_path sample_file" "plain_path sample_sock"
proof -
  have "sample_file = rooted ([''dev'', ''vfio''] @ [''1''])" by (simp add: rooted_def)
  then show "plain_path sample_file" unfolding plain_path_def by (intro exI conjI) (assumption, simp_all add: simple_name_def)
  have "sample_sock = rooted (socket_dir @ [''sandbox-pgpu.sock''])" by (simp add: rooted_def socket_dir_def)
  then show "plain_path sample_sock" unfolding plain_path_def
    by (intro exI conjI) (assumption, simp_all add: simple_name_def socket_dir_def)
qed

definition removed_inotify :: inotify where
  "removed_inotify = \<lparr>k_watches = [(1, sample_sockets)], k_next = 3, k_queue = [\<lparr>Wd = 2, Mask = IN_ATTRIB, Name = None\<rparr>,
     \<lparr>Wd = 2, Mask = IN_DELETE_SELF, Name = None\<rparr>, \<lparr>Wd = 2, Mask = IN_IGNORED, Name = None\<rparr>]\<rparr>"

lemma quietI: "health_step s t \<Longrightarrow> m_trace t = m_trace s \<Longrightarrow> m_checkers t = m_checkers s \<Longrightarrow> quiet_step s t"
  by (simp add: quiet_step_def checker_at_def)

lemma host_quiet: "quiet_step s t \<Longrightarrow> plugin_step (sample_host_node F s ws k b ops) (sample_host_node F t ws k b ops)"
  using quiet [of 0 "sample_host_node F s ws k b ops" t] by (simp add: sample_host_node_def machine_of_def put_def)

lemma host_read:
  assumes "checker_at s c (Watching m)" and "read_event rm r ws = Some (Some ev, ws')"
    and "t = after_event c m (on_event m (socketPath (m_dpi s)) ev) s"
  shows "plugin_step (sample_host_node F s ws (k\<lparr>k_queue := r # rs\<rparr>) False ops)
    (sample_host_node F t ws' (k\<lparr>k_queue := rs\<rparr>) False ops)"
proof -
  let ?P = "\<lparr>n_machine = s, n_watches = ws, n_inotify = k\<lparr>k_queue := r # rs\<rparr>, n_stuck = False\<rparr>"
  let ?N = "sample_host_node F s ws (k\<lparr>k_queue := r # rs\<rparr>) False ops"
  have "plugin_step ?N (?N\<lparr>n_plugins := (n_plugins ?N)[0 := ?P\<lparr>n_machine := t, n_watches := ws',
      n_inotify := (n_inotify ?P)\<lparr>k_queue := rs\<rparr>\<rparr>]\<rparr>)"
    by (rule read [where c = c and m = m and r = r and rm = rm and eo = "Some ev" and s = s])
       (simp_all add: sample_host_node_def assms)
  then show ?thesis by (simp add: sample_host_node_def)
qed

lemma sample_removed:
  "host_reach (sample_host_node {sample_sock, sample_sockets} (sample_machine [sample_stream [Healthy]] (Watching sample_watch_map))
     sample_watches removed_inotify False [Created sample_sock, Removed sample_file])"
proof -
  let ?s = "sample_machine [] (Watching sample_watch_map)"
  let ?t = "sample_machine [sample_stream [Healthy]] (Watching sample_watch_map)"
  let ?N = "\<lambda>s. sample_host_node sample_files s sample_watches (sample_inotify []) False [Created sample_sock]"
  have "health_step ?s ?t" using ListAndWatch [of ?s] by (simp add: started_open fresh_devices_def)
  then have "quiet_step ?s ?t" by (rule quietI) (simp_all add: started_def Let_def)
  then have "plugin_step (?N ?s) (?N ?t)" by (rule host_quiet)
  with sample_watching_host have r: "host_reach (?N ?t)" by (rule host_step)
  have "node_step (?N ?t) (perform (Removed sample_file) (?N ?t))"
    by (rule remove) (simp_all add: plain_sample sample_host_node_def)
  with r have "host_reach (perform (Removed sample_file) (?N ?t))"
    using reach_step [of "node_init sample_specs" node_step] by blast
  moreover have "perform (Removed sample_file) (?N ?t) = sample_host_node {sample_sock, sample_sockets} ?t
      sample_watches removed_inotify False [Created sample_sock, Removed sample_file]"
    by (simp add: perform_def sample_host_node_def apply_op_def notify_def sample_inotify_def removed_inotify_def reports_of_def
        sample_paths insert_commute)
  ultimately show ?thesis by simp
qed

lemma sample_recreated:
  "\<exists>s ws k. host_reach (sample_host_node sample_files s ws k False [Created sample_sock, Removed sample_file, Created sample_file]) \<and>
     m_updates s = [(Unhealthy_chan, ''1'')] \<and> m_streams s = [sample_stream [Healthy, Unhealthy]]"
proof -
  let ?s = "sample_machine [sample_stream [Healthy]] (Watching sample_watch_map)"
  let ?t = "(sample_machine [sample_stream [Healthy]] (Sending sample_watch_map Unhealthy_chan ''1''))\<lparr>m_updates := [(Unhealthy_chan, ''1'')]\<rparr>"
  let ?u = "set_checker 0 (Watching sample_watch_map) (receive_update 0 Unhealthy_chan ''1'' ?t)"
  let ?N = "\<lambda>s ws q. sample_host_node {sample_sock, sample_sockets} s ws (removed_inotify\<lparr>k_queue := q\<rparr>) False
    [Created sample_sock, Removed sample_file]"
  let ?a = "\<lparr>Wd = 2, Mask = IN_ATTRIB, Name = None\<rparr>" and ?d = "\<lparr>Wd = 2, Mask = IN_DELETE_SELF, Name = None\<rparr>"
    and ?i = "\<lparr>Wd = 2, Mask = IN_IGNORED, Name = None\<rparr>"
  have "host_reach (?N ?s sample_watches [?a, ?d, ?i])" using sample_removed by (simp add: removed_inotify_def)
  moreover have "plugin_step (?N ?s sample_watches [?a, ?d, ?i]) (?N ?s sample_watches [?d, ?i])"
    by (rule host_read [OF _ sample_read_attrib, of _ 0 sample_watch_map])
       (simp_all add: checker_at_def on_event_def op_Chmod_def op_Create_def op_Remove_def op_Rename_def after_event_def)
  ultimately have "host_reach (?N ?s sample_watches [?d, ?i])" by (rule host_step)
  moreover have "plugin_step (?N ?s sample_watches [?d, ?i]) (?N ?t sample_left [?i])"
    by (rule host_read [OF _ sample_read_removed, of _ 0 sample_watch_map])
       (simp_all add: checker_at_def on_event_def op_Create_def op_Remove_def after_event_def set_checker_def started_def Let_def)
  ultimately have r: "host_reach (?N ?t sample_left [?i])" by (rule host_step)
  have "health_step ?t ?u" by (rule receive) (simp_all add: stream_runs_def checker_at_def)
  then have "quiet_step ?t ?u"
    by (auto simp: quiet_step_def checker_at_def receive_update_def set_checker_def Let_def)
  then have "plugin_step (?N ?t sample_left [?i]) (?N ?u sample_left [?i])" by (rule host_quiet)
  with r have r: "host_reach (?N ?u sample_left [?i])" by (rule host_step)
  have "node_step (?N ?u sample_left [?i]) (perform (Created sample_file) (?N ?u sample_left [?i]))"
    by (rule create) (simp_all add: plain_sample sample_host_node_def)
  with r have "host_reach (perform (Created sample_file) (?N ?u sample_left [?i]))"
    using reach_step [of "node_init sample_specs" node_step] by blast
  moreover have "\<exists>k. perform (Created sample_file) (?N ?u sample_left [?i]) =
      sample_host_node sample_files ?u sample_left k False [Created sample_sock, Removed sample_file, Created sample_file]"
    by (simp add: perform_def sample_host_node_def apply_op_def insert_commute)
  moreover have "m_updates ?u = [(Unhealthy_chan, ''1'')] \<and> m_streams ?u = [sample_stream [Healthy, Unhealthy]]"
    by (simp add: receive_update_def set_health_def fresh_devices_def chan_value_def Let_def) (simp add: started_def Let_def)
  ultimately show ?thesis by metis
qed

section \<open>Properties\<close>

text \<open>C6. Devices only get worse: on a host with all its plugins, where other programs create and
  remove files and the kernel may lose reports, every update the health checks ask for is to
  unhealthy, and in the reports of a call of \<^verbatim>\<open>ListAndWatch\<close> a device that was unhealthy is never
  healthy again, even after its file is back. The watches are of the device files themselves
  and of the sockets' directory, and neither reports the creation of a device file.\<close>

theorem no_device_recovers:
  assumes "reach (node_init specs) node_step N" and "list_all spec_fit specs" and "i < length (n_plugins N)"
    and "st \<in> set (m_streams (machine_of N i))"
  shows "unhealthy_updates (m_updates (machine_of N i)) \<and> sorted_wrt degraded (sent st)"
proof -
  have "reach (\<lambda>N. node_init specs N \<and> list_all spec_fit specs) node_step N"
    using assms(1) by (rule reach_mono) (simp add: assms(2))
  then have "plugin_calm (n_plugins N ! i)" using no_recovery.inv_reach node_calmD assms(3) by blast
  with assms(4) show ?thesis by (auto simp: plugin_calm_def calm_def machine_of_def sorted_wrt_append)
qed

theorem no_device_recovers_witness:
  "\<exists>N st. host_reach N \<and> n_ops N = [Created sample_sock, Removed sample_file, Created sample_file] \<and>
     sent st = [sample_devices Healthy, sample_devices Unhealthy] \<and> m_streams (machine_of N 0) = [st] \<and>
     sorted_wrt degraded (sent st)"
proof -
  obtain s ws k where r: "host_reach (sample_host_node sample_files s ws k False [Created sample_sock, Removed sample_file, Created sample_file])"
    and s: "m_streams s = [sample_stream [Healthy, Unhealthy]]" using sample_recreated by blast
  have f: "list_all spec_fit sample_specs" by (simp add: sample_specs_def spec_fit_def simple_name_def)
  from no_device_recovers [OF r f, of 0] s r show ?thesis
    by (intro exI [of _ "sample_host_node sample_files s ws k False [Created sample_sock, Removed sample_file, Created sample_file]"]
        exI [of _ "sample_stream [Healthy, Unhealthy]"]) (simp add: sample_host_node_def machine_of_def)
qed

text \<open>In a run from a deaf plugin that stays so, nothing happens to it.\<close>

lemma reach_checkers:
  assumes "reach (node_init specs) node_step N" and "i < length (n_plugins N)" and "checker_at (machine_of N i) c x"
    and "x \<noteq> Ended"
  shows "\<forall>y \<in> set (m_checkers (machine_of N i)). y = Ended \<or> y = x"
proof -
  obtain name path ids where "reach (health_init name path ids) health_step (machine_of N i)"
    using plugins.inv_reach [OF assms(1)] assms(2) by (auto simp: node_inv_def)
  from health.inv_reach [OF this] obtain n y del where "inv_at ids (machine_of N i) n y del" by (auto simp: machine_inv_def)
  with inv_checker_at [OF this assms(3,4)] show ?thesis by (auto simp: inv_at_def)
qed

lemma deaf_run:
  assumes "(\<lambda>M M'. node_step M M' \<and> Q M')\<^sup>*\<^sup>* N N'" and "Q N" and "i < length (n_plugins N)"
    and "\<And>M. Q M \<Longrightarrow> kept (n_plugins N ! i) (n_plugins M ! i) \<Longrightarrow> deaf M i"
  shows "kept (n_plugins N ! i) (n_plugins N' ! i) \<and> i < length (n_plugins N') \<and> Q N'"
  using assms(1)
proof (induction rule: rtranclp_induct)
  case base
  with assms(2,3) show ?case by simp
next
  case (step M M')
  then have d: "deaf M i" using assms(4) by blast
  with deaf_step [of M M' i] step kept_trans show ?case by blast
qed

text \<open>C23. A health check that starts while a device file of its plugin is missing ends the plugin's
  part in the game: as long as the file is missing, in every run of the host, the plugin asks for
  no registration and no update, and its health check goes on only by returning. So after a
  device is gone, the first restart leaves the plugin without a health check, and the next
  restart of the kubelet goes unnoticed.\<close>

theorem missing_device_ends_check:
  assumes "reach (node_init specs) node_step N" and "i < length (n_plugins N)"
    and "checker_at (machine_of N i) c Setup" and "device_missing N i"
    and "(\<lambda>M M'. node_step M M' \<and> device_missing M' i)\<^sup>*\<^sup>* N N'"
  shows "registrations (m_trace (machine_of N' i)) = registrations (m_trace (machine_of N i)) \<and>
    m_updates (machine_of N' i) = m_updates (machine_of N i) \<and>
    list_all (\<lambda>x. x = Setup \<or> x = Ended) (m_checkers (machine_of N' i))"
proof -
  have at: "\<forall>y \<in> set (m_checkers (machine_of N i)). y = Ended \<or> y = Setup"
    using reach_checkers [OF assms(1-3)] by simp
  have "kept (n_plugins N ! i) (n_plugins N' ! i) \<and> i < length (n_plugins N') \<and> device_missing N' i"
    using assms(5,4,2)
  proof (rule deaf_run [where Q = "\<lambda>M. device_missing M i"])
    fix M assume "device_missing M i" "kept (n_plugins N ! i) (n_plugins M ! i)"
    with at show "deaf M i" by (auto simp: deaf_def kept_def list_all_iff unheard_def machine_of_def)
  qed
  with at show ?thesis by (auto simp: kept_def machine_of_def list_all_iff)
qed

theorem missing_device_ends_check_witness:
  "\<exists>N c. host_reach N \<and> device_missing N 0 \<and> m_checkers (machine_of N 0) = [c] \<and> (c = Setup \<or> c = Ended) \<and>
     n_ops N = [Created sample_sock, Removed sample_sock] \<and> length (registrations (m_trace (machine_of N 0))) = 1"
proof -
  let ?k = new_inotify
  let ?N = "sample_host_node {sample_sock} (sample_machine [] Setup) newWatches ?k False [Created sample_sock]"
  let ?N' = "perform (Removed sample_sock) ?N"
  have r: "host_reach ?N" using sample_launched [of "{}"] by simp
  have m: "device_missing M 0" if "n_files M \<subseteq> {sample_sock}" "machine_of M 0 = sample_machine [] Setup" for M
    using that subset_singletonD [OF that(1)]
    by (auto simp: device_missing_def iommufd_on_def sample_paths fresh_devices_def device_file_def)
  have st: "node_step ?N ?N'" by (rule remove) (simp_all add: plain_sample sample_host_node_def)
  have dm: "device_missing ?N 0" "device_missing ?N' 0"
    by (rule m; simp add: sample_host_node_def machine_of_def perform_def apply_op_def)+
  have at: "checker_at (machine_of ?N 0) 0 Setup" "0 < length (n_plugins ?N)"
    by (simp_all add: sample_host_node_def machine_of_def checker_at_def)
  have run: "(\<lambda>M M'. node_step M M' \<and> device_missing M' 0)\<^sup>*\<^sup>* ?N ?N'" using st dm(2) by (intro r_into_rtranclp) simp
  from missing_device_ends_check [OF r at(2,1) dm(1) run]
  have reg: "registrations (m_trace (machine_of ?N' 0)) = registrations (m_trace (machine_of ?N 0))" by (rule conjunct1)
  have "host_reach ?N'" using r st reach_step [of "node_init sample_specs" node_step] by blast
  moreover have "n_ops ?N' = [Created sample_sock, Removed sample_sock]" "m_checkers (machine_of ?N' 0) = [Setup]"
    "length (registrations (m_trace (machine_of ?N 0))) = 1"
    by (simp_all add: sample_host_node_def machine_of_def perform_def)
  ultimately show ?thesis using dm(2) reg by (intro exI [of _ ?N'] exI [of _ Setup]) simp
qed

text \<open>C24. A lost report blinds a health check for ever: once the next report its watcher is to read
  is that the kernel's queue overflowed, then in every run of the host the plugin asks for no
  update and no registration, and its health check never restarts the plugin, whatever happens
  to its device files and its socket: the reader offers the error on the channel \<^verbatim>\<open>Errors\<close>, from which
  the \<^verbatim>\<open>select\<close> of the health check does not receive, so it reads nothing more.\<close>

theorem overflow_blinds:
  assumes "reach (node_init specs) node_step N" and "i < length (n_plugins N)"
    and "checker_at (machine_of N i) c (Watching m)" and "k_queue (n_inotify (n_plugins N ! i)) = overflow_report # rs"
    and "node_step\<^sup>*\<^sup>* N N'"
  shows "registrations (m_trace (machine_of N' i)) = registrations (m_trace (machine_of N i)) \<and>
    m_updates (machine_of N' i) = m_updates (machine_of N i) \<and>
    list_all (\<lambda>x. x = Watching m \<or> x = Ended) (m_checkers (machine_of N' i))"
proof -
  have at: "\<forall>y \<in> set (m_checkers (machine_of N i)). y = Ended \<or> y = Watching m"
    using reach_checkers [OF assms(1-3)] by simp
  have j: "jammed (n_plugins N ! i)" using assms(4) by (simp add: jammed_def)
  have "(\<lambda>M M'. node_step M M' \<and> True)\<^sup>*\<^sup>* N N'" using assms(5) by simp
  then have "kept (n_plugins N ! i) (n_plugins N' ! i) \<and> i < length (n_plugins N') \<and> True"
  proof (rule deaf_run [where Q = "\<lambda>_. True"])
    fix M :: node assume "kept (n_plugins N ! i) (n_plugins M ! i)"
    with at j show "deaf M i" by (auto simp: deaf_def kept_def list_all_iff unheard_def machine_of_def)
  qed (use assms(2) in simp_all)
  with at show ?thesis by (auto simp: kept_def machine_of_def list_all_iff)
qed

theorem overflow_blinds_witness:
  "\<exists>N. host_reach N \<and> sample_sock \<notin> n_files N \<and> length (registrations (m_trace (machine_of N 0))) = 1 \<and>
     n_stuck (n_plugins N ! 0)"
proof -
  let ?s = "sample_machine [] (Watching sample_watch_map)"
  let ?N = "\<lambda>q b. sample_host_node sample_files ?s sample_watches (sample_inotify q) b [Created sample_sock]"
  have "plugin_step (?N [] False) (?N [overflow_report] False)"
    using overflow [of 0 "?N [] False"] by (simp add: sample_host_node_def sample_inotify_def)
  with sample_watching_host have r: "host_reach (?N [overflow_report] False)" by (rule host_step)
  have s1: "plugin_step (?N [overflow_report] False) (?N [] True)"
    using read_error [of 0 "?N [overflow_report] False" _ 0 sample_watch_map overflow_report "[]" "\<lambda>_. None"] read_overflow
    by (simp add: sample_host_node_def sample_inotify_def checker_at_def)
  let ?N' = "perform (Removed sample_sock) (?N [] True)"
  have s2: "node_step (?N [] True) ?N'" by (rule remove) (simp_all add: plain_sample sample_host_node_def)
  have run: "node_step\<^sup>*\<^sup>* (?N [overflow_report] False) ?N'"
    using node_step.plugin [OF s1] s2 by (meson converse_rtranclp_into_rtranclp r_into_rtranclp)
  have a: "checker_at (machine_of (?N q b) 0) 0 (Watching sample_watch_map)" "0 < length (n_plugins (?N q b))"
    "k_queue (n_inotify (n_plugins (?N q b) ! 0)) = q" "length (registrations (m_trace (machine_of (?N q b) 0))) = 1" for q b
    by (simp_all add: sample_host_node_def machine_of_def checker_at_def sample_inotify_def)
  from overflow_blinds [OF r a(2,1,3) run] a(4) have "length (registrations (m_trace (machine_of ?N' 0))) = 1" by simp
  moreover have "host_reach ?N'"
    using r run by (auto elim: rtranclp_induct intro: reach_step [of "node_init sample_specs" node_step])
  moreover have "sample_sock \<notin> n_files ?N'" "n_stuck (n_plugins ?N' ! 0)"
    by (simp_all add: apply_op_def sample_host_node_def perform_def)
  ultimately show ?thesis by blast
qed

end
