(* ===== verification/Sockets.thy ===== *)
theory Sockets
  imports NodeProps
begin

text \<open>
  Plugins with sockets of their own, on a host where no one else touches the files: none of
  them is ever told that its socket was removed, so none restarts.
\<close>

section \<open>Reports of other sockets\<close>

text \<open>A report that is not of a removal of the socket \<open>p\<close>.\<close>

definition report_other :: "string \<Rightarrow> raw_event \<Rightarrow> bool" where
  "report_other p r \<longleftrightarrow> (\<forall>n. Name r = Some n \<longrightarrow> simple_name n \<and>
     (n = Base p \<longrightarrow> \<not> has (Mask r) IN_DELETE \<and> \<not> has (Mask r) IN_DELETE_SELF))"

lemma overflow_other [simp]: "report_other p overflow_report"
  by (simp add: report_other_def overflow_report_def)

lemma has_create [simp]: "\<not> has IN_CREATE IN_DELETE" "\<not> has IN_CREATE IN_DELETE_SELF"
  by (simp_all add: has_def in_defs)

lemma reports_other:
  assumes "plain_path (op_path x)" and "Base (op_path x) \<noteq> Base p" and "r \<in> set (reports_of x w)"
  shows "report_other p r"
proof -
  have "simple_name (Base (op_path x))" using assms(1) by (auto simp: plain_path_def Base_rooted)
  with assms(2,3) show ?thesis
    by (auto simp: reports_of_def report_other_def op_path_def split: fs_op.splits if_splits)
qed

lemma notify_other:
  assumes "list_all (report_other p) (k_queue k)" and "plain_path (op_path x)" and "Base (op_path x) \<noteq> Base p"
  shows "list_all (report_other p) (k_queue (notify x k))"
  using assms reports_other [OF assms(2,3)] by (auto simp: notify_def list_all_iff)

lemma notify_new: "k_watches k = [] \<Longrightarrow> notify x k = k"
  by (simp add: notify_def)

text \<open>Such reports do not restart the plugin.\<close>

lemma event_no_restart:
  assumes "setting ds dpi" and "watches_ok ds ws" and "report_other (socketPath dpi) r"
    and "read_event rm r ws = Some (Some ev, ws')"
  shows "on_event m (socketPath dpi) ev \<noteq> Restart"
proof
  assume "on_event m (socketPath dpi) ev = Restart"
  then have ev: "ev_Name ev = socketPath dpi" "ev_Op ev = op_Remove"
    by (auto simp: on_event_def split: option.splits if_splits)
  obtain w where w: "fmlookup (by_wd ws) (Wd r) = Some w" "ev = newEvent (event_name w r) (Mask r)"
    using read_event_Some [OF assms(4)] by blast
  obtain c where c: "simple_name c" "socketPath dpi = rooted (socket_dir @ [c])" using assms(1) by (auto simp: setting_def)
  have "w_path w \<in> watch_dirs ds" using assms(2) w(1) by (simp add: watches_ok_def)
  then obtain es where es: "w_path w = rooted es" "\<forall>e \<in> set es. simple_name e" "es \<noteq> []" "es = socket_dir \<or> butlast es = ds"
  proof -
    assume a: "\<And>es. w_path w = rooted es \<Longrightarrow> \<forall>e\<in>set es. simple_name e \<Longrightarrow> es \<noteq> [] \<Longrightarrow> es = socket_dir \<or> butlast es = ds \<Longrightarrow> thesis"
    assume "w_path w \<in> watch_dirs ds"
    then consider "w_path w = rooted socket_dir" | e where "w_path w = rooted (ds @ [e])" "simple_name e"
      by (auto simp: watch_dirs_def dev_files_def)
    then show thesis
      by cases (use a [of socket_dir] a [of "ds @ [_]"] assms(1) in \<open>auto simp: setting_def\<close>)
  qed
  have sock: "\<forall>e \<in> set (socket_dir @ [c]). simple_name e" using c(1) by auto
  show False
  proof (cases "Name r")
    case None
    then have "rooted es = rooted (socket_dir @ [c])" using ev(1) w(2) es(1) c(2) by (simp add: event_name_def)
    then have "es = socket_dir @ [c]" by (subst (asm) rooted_inj) (use es sock in auto)
    with es(4) assms(1) show False by (auto simp: setting_def)
  next
    case (Some n)
    then have n: "simple_name n" using assms(3) by (simp add: report_other_def)
    have "rooted (es @ [n]) = rooted (socket_dir @ [c])"
      using ev(1) w(2) es(1,3) c(2) Some by (simp add: event_name_def rooted_snoc)
    then have "es @ [n] = socket_dir @ [c]" by (subst (asm) rooted_inj) (use es sock n in auto)
    then have "n = Base (socketPath dpi)" using c by (simp add: Base_rooted)
    moreover have "has (Mask r) IN_DELETE_SELF \<or> has (Mask r) IN_DELETE" using newEvent_Remove ev(2) w(2) by metis
    ultimately show False using assms(3) Some by (auto simp: report_other_def)
  qed
qed

section \<open>The invariant\<close>

text \<open>As long as it is not told to stop, a plugin is as it was launched: one health check, not
  restarting, a server, one registration.\<close>

definition undisturbed :: "plugin_node \<Rightarrow> bool" where
  "undisturbed P \<longleftrightarrow> (\<exists>ds c. let s = n_machine P in setting ds (m_dpi s) \<and> m_checkers s = [c] \<and> c \<noteq> Restarting \<and>
     c \<noteq> Restart_start \<and> server (m_dpi s) \<and> length (registrations (m_trace s)) = 1 \<and> watches_ok ds (n_watches P) \<and>
     list_all (report_other (socketPath (m_dpi s))) (k_queue (n_inotify P)))"

definition sockets :: "node \<Rightarrow> string list" where
  "sockets N = map (\<lambda>P. socketPath (m_dpi (n_machine P))) (n_plugins N) @ map socketPath (n_todo N)"

definition peaceful :: "node \<Rightarrow> bool" where
  "peaceful N \<longleftrightarrow> distinct (sockets N) \<and> list_all (\<lambda>P. m_stopped (n_machine P) \<or> undisturbed P) (n_plugins N) \<and>
     list_all (\<lambda>P. \<exists>ds. setting ds (m_dpi (n_machine P))) (n_plugins N) \<and> list_all (\<lambda>dp. \<exists>ds. setting ds dp) (n_todo N)"

lemma setting_Base:
  assumes "setting ds dpi" and "setting ds' dpi'" and "socketPath dpi \<noteq> socketPath dpi'"
  shows "Base (socketPath dpi) \<noteq> Base (socketPath dpi')"
proof -
  obtain c c' where "simple_name c" "socketPath dpi = rooted (socket_dir @ [c])" "simple_name c'"
    "socketPath dpi' = rooted (socket_dir @ [c'])" using assms(1,2) by (auto simp: setting_def)
  with assms(3) show ?thesis by (auto simp: Base_rooted)
qed

lemma undisturbed_notify:
  assumes "undisturbed P" and "\<forall>x \<in> set xs. plain_path (op_path x) \<and> Base (op_path x) \<noteq> Base (socketPath (m_dpi (n_machine P)))"
  shows "undisturbed (P\<lparr>n_inotify := fold notify xs (n_inotify P)\<rparr>)"
proof -
  have "list_all (report_other p) (k_queue k) \<Longrightarrow> \<forall>x \<in> set xs. plain_path (op_path x) \<and> Base (op_path x) \<noteq> Base p \<Longrightarrow>
      list_all (report_other p) (k_queue (fold notify xs k))" for p k
    by (induction xs arbitrary: k) (simp_all add: notify_other)
  with assms show ?thesis by (auto simp: undisturbed_def Let_def)
qed

lemma nth_fold_perform: "j < length (n_plugins M) \<Longrightarrow>
    n_plugins (fold perform xs M) ! j = (n_plugins M ! j)\<lparr>n_inotify := fold notify xs (n_inotify (n_plugins M ! j))\<rparr>"
  by (induction xs arbitrary: M) (simp_all add: nth_perform)

lemma sockets_fold_perform [simp]: "sockets (fold perform xs M) = sockets M"
  by (induction xs arbitrary: M) (simp_all add: sockets_def perform_def comp_def)

lemma peaceful_nth: "peaceful N \<longleftrightarrow> distinct (sockets N) \<and>
    (\<forall>j < length (n_plugins N). (m_stopped (machine_of N j) \<or> undisturbed (n_plugins N ! j)) \<and>
       (\<exists>ds. setting ds (m_dpi (machine_of N j)))) \<and> list_all (\<lambda>dp. \<exists>ds. setting ds dp) (n_todo N)"
  by (auto simp: peaceful_def list_all_length machine_of_def)

text \<open>Changes of one path leave the plugins with other sockets, and those that watch nothing, in peace.\<close>

lemma peaceful_perform:
  assumes "peaceful M" and "\<forall>x \<in> set xs. op_path x = p" and "\<exists>ds dpi. setting ds dpi \<and> socketPath dpi = p"
    and "\<And>j. j < length (n_plugins M) \<Longrightarrow> socketPath (m_dpi (machine_of M j)) = p \<Longrightarrow>
      m_stopped (machine_of M j) \<or> k_watches (n_inotify (n_plugins M ! j)) = []"
  shows "peaceful (fold perform xs M)"
  unfolding peaceful_nth
proof (intro conjI allI impI)
  fix j assume j: "j < length (n_plugins (fold perform xs M))"
  let ?P = "n_plugins M ! j" and ?Q = "n_plugins (fold perform xs M) ! j"
  have Q: "?Q = ?P\<lparr>n_inotify := fold notify xs (n_inotify ?P)\<rparr>" using j nth_fold_perform by simp
  have old: "m_stopped (machine_of M j) \<or> undisturbed ?P" "\<exists>ds. setting ds (m_dpi (machine_of M j))"
    using assms(1) j by (simp_all add: peaceful_nth)
  have "undisturbed ?Q" if live: "\<not> m_stopped (machine_of M j)"
  proof (cases "socketPath (m_dpi (machine_of M j)) = p")
    case True
    with assms(4) [of j] j live have k: "k_watches (n_inotify ?P) = []" by simp
    have "k_watches k = [] \<Longrightarrow> fold notify xs k = k" for k by (induction xs) (simp_all add: notify_new)
    with Q k old(1) live show ?thesis by simp
  next
    case False
    have "Base (socketPath (m_dpi (machine_of M j))) \<noteq> Base p" "plain_path p"
      using assms(3) old(2) setting_Base False setting_plain by metis+
    with old(1) live undisturbed_notify [of ?P xs] assms(2) show ?thesis by (simp add: Q machine_of_def)
  qed
  then show "m_stopped (machine_of (fold perform xs M) j) \<or> undisturbed ?Q" using j by auto
  show "\<exists>ds. setting ds (m_dpi (machine_of (fold perform xs M) j))" using old(2) j by simp
qed (use assms(1) in \<open>simp_all add: peaceful_nth\<close>)

lemma peaceful_update:
  assumes "peaceful N" and "i < length (n_plugins N)"
    and "socketPath (m_dpi (n_machine P)) = socketPath (m_dpi (machine_of N i))"
    and "\<And>ds. setting ds (m_dpi (machine_of N i)) \<Longrightarrow> setting ds (m_dpi (n_machine P))"
    and "\<not> m_stopped (n_machine P) \<Longrightarrow> undisturbed P"
  shows "peaceful (N\<lparr>n_plugins := (n_plugins N)[i := P]\<rparr>)"
proof -
  have "sockets (N\<lparr>n_plugins := (n_plugins N)[i := P]\<rparr>) = sockets N"
    using assms(2,3) by (auto simp: sockets_def map_update machine_of_def intro!: list_update_same_conv [THEN iffD2])
  moreover have "\<exists>ds. setting ds (m_dpi (n_machine P))"
    using assms(1,2,4) unfolding peaceful_nth by blast
  ultimately show ?thesis using assms by (auto simp: peaceful_nth nth_list_update)
qed

lemma peaceful_put:
  assumes "peaceful N" and "i < length (n_plugins N)" and "health_step (machine_of N i) t"
    and "\<not> m_stopped t \<Longrightarrow> undisturbed ((n_plugins N ! i)\<lparr>n_machine := t\<rparr>)"
  shows "peaceful (put i t N)"
  unfolding put_def using assms health_step_frame [OF assms(3)] setting_step [OF _ assms(3)]
  by (intro peaceful_update) simp_all

lemma m_stopped_step: "health_step s t \<Longrightarrow> m_stopped s \<Longrightarrow> m_stopped t"
  by (induction rule: health_step.induct)
     (auto simp: open_stream_def end_stream_def set_checker_def receive_update_def after_event_def Let_def split: action.splits)

lemma undisturbed_quiet:
  assumes "undisturbed P" and "quiet_step (n_machine P) t" and "\<not> m_stopped t"
  shows "undisturbed (P\<lparr>n_machine := t\<rparr>)"
proof -
  let ?s = "n_machine P"
  obtain ds c where u: "setting ds (m_dpi ?s)" "m_checkers ?s = [c]" "c \<noteq> Restarting" "c \<noteq> Restart_start" "server (m_dpi ?s)"
    "length (registrations (m_trace ?s)) = 1" "watches_ok ds (n_watches P)"
    "list_all (report_other (socketPath (m_dpi ?s))) (k_queue (n_inotify P))"
    using assms(1) by (auto simp: undisturbed_def Let_def)
  have st: "health_step ?s t" using assms(2) by (rule quiet_health)
  have at: "checker_at ?s i x \<longleftrightarrow> i = 0 \<and> x = c" for i x using u(2) by (auto simp: checker_at_def)
  have tr: "m_trace t = m_trace ?s" using assms(2) by (simp add: quiet_step_def)
  have "\<exists>c'. m_checkers t = [c'] \<and> c' \<noteq> Restarting \<and> c' \<noteq> Restart_start \<and> server (m_dpi t)"
    using st
  proof (cases rule: health_step.cases)
    case (check_event i m ev)
    have "on_event m (socketPath (m_dpi ?s)) ev \<noteq> Restart"
    proof
      assume r: "on_event m (socketPath (m_dpi ?s)) ev = Restart"
      have "checker_at t 0 Restarting" using check_event r at u(2) by (simp add: after_event_def set_checker_def checker_at_def)
      with assms(2) check_event(2) at show False by (auto simp: quiet_step_def checker_at_def)
    qed
    with check_event u at show ?thesis
      by (cases "on_event m (socketPath (m_dpi ?s)) ev") (auto simp: after_event_def set_checker_def)
  next
    case (shutdown env err dpi tr)
    with m_stopped_step [OF st] assms(3) show ?thesis by simp
  qed (use u at in \<open>auto simp: open_stream_def end_stream_def set_checker_def receive_update_def Let_def\<close>)
  with u tr health_step_frame(2) [OF st] setting_step [OF u(1) st] show ?thesis by (auto simp: undisturbed_def Let_def)
qed

lemma peaceful_D:
  assumes "peaceful N" and "i < length (n_plugins N)"
  shows "m_stopped (machine_of N i) \<or> undisturbed (n_plugins N ! i)" and "\<exists>ds. setting ds (m_dpi (machine_of N i))"
  using assms by (simp_all add: peaceful_nth)

lemma undisturbed_calm:
  assumes "undisturbed (n_plugins N ! i)"
  shows "\<not> checker_at (machine_of N i) c Restarting" and "\<not> checker_at (machine_of N i) c Restart_start"
  using assms by (auto simp: undisturbed_def Let_def checker_at_def machine_of_def)

lemma n_machine_update: "P\<lparr>n_machine := t\<rparr> = \<lparr>n_machine = t, n_watches = n_watches P, n_inotify = n_inotify P, n_stuck = n_stuck P\<rparr>"
  by (cases P) simp

lemma undisturbed_checker:
  assumes "undisturbed P" and "x \<noteq> Restarting" and "x \<noteq> Restart_start" and "watches_ok ds ws"
    and "setting ds (m_dpi (n_machine P))" and "list_all (report_other (socketPath (m_dpi (n_machine P)))) (k_queue k)"
  shows "undisturbed \<lparr>n_machine = set_checker c x (n_machine P), n_watches = ws, n_inotify = k, n_stuck = b\<rparr>"
proof -
  obtain y where "m_checkers (n_machine P) = [y]" "y \<noteq> Restarting" "y \<noteq> Restart_start" "server (m_dpi (n_machine P))"
    "length (registrations (m_trace (n_machine P))) = 1" using assms(1) by (auto simp: undisturbed_def Let_def)
  then show ?thesis
    unfolding undisturbed_def Let_def using assms(2-6)
    by (intro exI [of _ ds] exI [of _ "hd (m_checkers (set_checker c x (n_machine P)))"])
       (cases c; simp add: set_checker_def)
qed

text \<open>A health check that reads a report.\<close>

lemma undisturbed_read:
  assumes "undisturbed P" and "checker_at (n_machine P) c (Watching m)" and "k_queue (n_inotify P) = r # rs"
    and "read_event rm r (n_watches P) = Some (eo, ws)"
    and "t = (case eo of None \<Rightarrow> n_machine P
      | Some ev \<Rightarrow> after_event c m (on_event m (socketPath (m_dpi (n_machine P))) ev) (n_machine P))"
  shows "undisturbed (P\<lparr>n_machine := t, n_watches := ws, n_inotify := (n_inotify P)\<lparr>k_queue := rs\<rparr>\<rparr>)"
proof -
  let ?s = "n_machine P"
  obtain ds where u: "setting ds (m_dpi ?s)" "m_checkers ?s = [Watching m]" "server (m_dpi ?s)" "c = 0"
    "length (registrations (m_trace ?s)) = 1" "watches_ok ds (n_watches P)"
    "report_other (socketPath (m_dpi ?s)) r" "list_all (report_other (socketPath (m_dpi ?s))) rs"
    using assms(1-3) by (auto simp: undisturbed_def Let_def checker_at_def)
  have ok: "watches_ok ds ws" by (rule watches_ok_read [OF u(6) assms(4)])
  have "m_dpi t = m_dpi ?s \<and> m_trace t = m_trace ?s \<and> (\<exists>x. m_checkers t = [x] \<and> x \<noteq> Restarting \<and> x \<noteq> Restart_start)"
  proof (cases eo)
    case (Some ev)
    note no = event_no_restart [OF u(1,6,7) assms(4) [unfolded Some], of m]
    with u show ?thesis unfolding assms(5) Some
      by (cases "on_event m (socketPath (m_dpi ?s)) ev") (auto simp: after_event_def set_checker_def)
  qed (use assms(5) u in simp)
  with u ok show ?thesis by (auto simp: undisturbed_def Let_def)
qed

text \<open>The operations of a plugin that is told to stop change only its own socket.\<close>

lemma peaceful_own:
  assumes "peaceful N" and "i < length (n_plugins N)" and "health_step (machine_of N i) t" and "m_stopped t"
    and "\<forall>x \<in> set xs. op_path x = socketPath (m_dpi (machine_of N i))"
  shows "peaceful (fold perform xs (put i t N))"
proof (rule peaceful_perform [OF _ assms(5)])
  show "peaceful (put i t N)" by (rule peaceful_put [OF assms(1-3)]) (simp add: assms(4))
  show "\<exists>ds dpi. setting ds dpi \<and> socketPath dpi = socketPath (m_dpi (machine_of N i))" using peaceful_D(2) [OF assms(1,2)] by blast
  fix j assume j: "j < length (n_plugins (put i t N))" and p: "socketPath (m_dpi (machine_of (put i t N) j)) = socketPath (m_dpi (machine_of N i))"
  have "j = i"
  proof (rule ccontr)
    assume "j \<noteq> i"
    moreover have "distinct (map (\<lambda>P. socketPath (m_dpi (n_machine P))) (n_plugins N))"
      using assms(1) by (simp add: peaceful_def sockets_def)
    ultimately show False using j p assms(2) by (auto simp: machine_of_def distinct_conv_nth put_def nth_list_update)
  qed
  with assms(2,4) show "m_stopped (machine_of (put i t N) j) \<or> k_watches (n_inotify (n_plugins (put i t N) ! j)) = []" by simp
qed

lemma fresh_undisturbed:
  assumes "Start env Global_stop (dp, []) = (None, dpi, tr)" and "setting ds dp"
  shows "undisturbed (fresh_node dpi tr)"
proof -
  have off: "\<not> server dp" using assms(1) by (rule Start_None)
  from assms(1) off have "server dpi" "length (registrations tr) = 1"
    by (rule Start_elim; simp add: registrations_started(2) serve_effects_def register_effects_def registrations_def List.map_filter_def)+
  moreover have "setting ds dpi" using assms(2) Start_frame [OF assms(1)] by (simp add: setting_def)
  ultimately show ?thesis
    unfolding undisturbed_def Let_def by (intro exI [of _ ds] exI [of _ Setup]) (simp add: fresh_node_def new_inotify_def)
qed

lemma peaceful_launch:
  assumes "peaceful N" and "n_todo N = dp # dps" and "Start env Global_stop (dp, []) = (r, dpi, tr)"
    and "\<forall>x \<in> set xs. op_path x = socketPath dp"
  shows "peaceful (fold perform xs (N\<lparr>n_todo := dps, n_plugins := n_plugins N @ (if r = None then [fresh_node dpi tr] else [])\<rparr>))"
proof (rule peaceful_perform [OF _ assms(4)])
  let ?M = "N\<lparr>n_todo := dps, n_plugins := n_plugins N @ (if r = None then [fresh_node dpi tr] else [])\<rparr>"
  obtain ds where ds: "setting ds dp" using assms(1,2) by (auto simp: peaceful_def)
  have dpi: "setting ds dpi" "socketPath dpi = socketPath dp" using ds Start_frame [OF assms(3)] by (simp_all add: setting_def)
  have dist: "distinct (sockets N)" using assms(1) by (simp add: peaceful_def)
  then have "distinct (sockets ?M)" using assms(2) dpi(2) by (auto simp: sockets_def fresh_node_def)
  moreover have "undisturbed (fresh_node dpi tr)" if "r = None" using fresh_undisturbed [OF assms(3) [unfolded that] ds] .
  ultimately show "peaceful ?M" using assms(1,2) dpi(1) by (auto simp: peaceful_def fresh_node_def)
  show "\<exists>ds dpi. setting ds dpi \<and> socketPath dpi = socketPath dp" using ds by blast
  fix j assume j: "j < length (n_plugins ?M)" and p: "socketPath (m_dpi (machine_of ?M j)) = socketPath dp"
  have "socketPath dp \<notin> set (map (\<lambda>P. socketPath (m_dpi (n_machine P))) (n_plugins N))"
    using dist assms(2) by (simp add: sockets_def)
  moreover have "socketPath dp \<in> set (map (\<lambda>P. socketPath (m_dpi (n_machine P))) (n_plugins N))" if old: "j < length (n_plugins N)"
  proof -
    have "machine_of ?M j = n_machine (n_plugins N ! j)" unfolding machine_of_launch using old by (simp add: machine_of_def)
    then have "socketPath dp = socketPath (m_dpi (n_machine (n_plugins N ! j)))" using p by (simp only:)
    with nth_mem [OF old] show ?thesis unfolding set_map by (rule rev_image_eqI)
  qed
  ultimately have "\<not> j < length (n_plugins N)" by blast
  with j show "m_stopped (machine_of ?M j) \<or> k_watches (n_inotify (n_plugins ?M ! j)) = []"
    by (auto simp: nth_append fresh_node_def new_inotify_def split: if_splits)
qed

lemma peaceful_plugin:
  assumes "peaceful N" and "plugin_step N N'"
  shows "peaceful N'"
  using assms(2)
proof (cases rule: plugin_step.cases)
  case (quiet i t)
  have "undisturbed ((n_plugins N ! i)\<lparr>n_machine := t\<rparr>)" if "\<not> m_stopped t"
    using peaceful_D(1) [OF assms(1) quiet(2)] m_stopped_step [OF quiet_health [OF quiet(3)]] undisturbed_quiet quiet(3) that
    by (auto simp: machine_of_def)
  with quiet peaceful_put [OF assms(1) quiet(2) quiet_health [OF quiet(3)]] show ?thesis by simp
next
  case (set_up i c lim new m ws k)
  let ?P = "\<lparr>n_machine = set_checker c (Watching m) (machine_of N i), n_watches = ws, n_inotify = k, n_stuck = False\<rparr>"
  have "undisturbed ?P" if "\<not> m_stopped (machine_of N i)"
  proof -
    have u: "undisturbed (n_plugins N ! i)" using peaceful_D(1) [OF assms(1) set_up(2)] that by simp
    then obtain ds where ds: "setting ds (m_dpi (machine_of N i))" by (auto simp: undisturbed_def Let_def machine_of_def)
    have "watches_ok ds ws" using add_watches_ok [OF set_up(5) watches_ok_new] watch_paths_ok [OF ds] by blast
    moreover have "k_queue k = []" using add_watches_queue [OF set_up(5)] by (simp add: new_inotify_def)
    ultimately show ?thesis
      using undisturbed_checker [OF u, where x = "Watching m" and ds = ds and ws = ws and k = k and c = c and b = False] ds by (simp add: machine_of_def)
  qed
  then show ?thesis unfolding set_up(1) by (intro peaceful_update [OF assms(1) set_up(2)]) (simp_all add: set_checker_def)
next
  case (set_up_error i c lim new err)
  have st: "health_step (machine_of N i) (set_checker c Ended (machine_of N i))"
    using set_up_error(3,4) by (rule check_setup_error)
  have "undisturbed ((n_plugins N ! i)\<lparr>n_machine := set_checker c Ended (machine_of N i)\<rparr>)" if "\<not> m_stopped (machine_of N i)"
  proof -
    have u: "undisturbed (n_plugins N ! i)" using peaceful_D(1) [OF assms(1) set_up_error(2)] that by simp
    then obtain ds where "setting ds (m_dpi (machine_of N i))" "watches_ok ds (n_watches (n_plugins N ! i))"
      "list_all (report_other (socketPath (m_dpi (machine_of N i)))) (k_queue (n_inotify (n_plugins N ! i)))"
      by (auto simp: undisturbed_def Let_def machine_of_def)
    with undisturbed_checker [OF u, where x = Ended and ds = ds and ws = "n_watches (n_plugins N ! i)" and
        k = "n_inotify (n_plugins N ! i)" and c = c and b = "n_stuck (n_plugins N ! i)"]
    show ?thesis by (simp add: machine_of_def n_machine_update)
  qed
  with set_up_error peaceful_put [OF assms(1) _ st] show ?thesis by (simp add: set_checker_def)
next
  case (read i P s c m r rs rm eo ws t)
  have frame: "m_dpi t = m_dpi s" "m_stopped t = m_stopped s"
    by (auto simp: read(9) after_event_def set_checker_def split: option.splits action.splits)
  have s: "s = machine_of N i" using read(3,4) by (simp add: machine_of_def)
  have "undisturbed (P\<lparr>n_machine := t, n_watches := ws, n_inotify := (n_inotify P)\<lparr>k_queue := rs\<rparr>\<rparr>)" if "\<not> m_stopped s"
  proof (rule undisturbed_read)
    show "undisturbed P" using peaceful_D(1) [OF assms(1) read(2)] that by (simp add: s read(3))
    show "checker_at (n_machine P) c (Watching m)" using read(4,5) by simp
  qed (use read in \<open>simp_all only:\<close>)
  with frame s show ?thesis unfolding read(1) by (intro peaceful_update [OF assms(1) read(2)]) simp_all
next
  case (read_error i P c m r rs rm)
  with peaceful_D [OF assms(1) read_error(2)] show ?thesis unfolding read_error(1)
    by (intro peaceful_update [OF assms(1) read_error(2)]) (auto simp: undisturbed_def Let_def machine_of_def)
next
  case (error_taken i P c m)
  then show ?thesis by simp
next
  case (overflow i P)
  with peaceful_D [OF assms(1) overflow(2)] show ?thesis unfolding overflow(1)
    by (intro peaceful_update [OF assms(1) overflow(2)]) (auto simp: undisturbed_def Let_def machine_of_def)
next
  case (stop i s c env answer err dpi tr)
  let ?t = "set_checker c Restart_start (s\<lparr>m_dpi := dpi, m_trace := tr\<rparr>)"
  have "health_step s ?t" using stop(4,5,7) by (rule restart_stop)
  moreover have "m_stopped ?t"
    using peaceful_D(1) [OF assms(1) stop(2)] undisturbed_calm(1) stop(3,4) by (auto simp: set_checker_def)
  ultimately show ?thesis
    using peaceful_own [OF assms(1) stop(2)] Stop_ops [OF stop(7)] stop(1,3) by blast
next
  case (start_error i s c env answer err dpi tr)
  let ?t = "set_checker c Ended (s\<lparr>m_dpi := dpi, m_trace := tr\<rparr>)"
  have "health_step s ?t" using start_error(4,6) by (rule restart_start)
  moreover have "m_stopped ?t"
    using peaceful_D(1) [OF assms(1) start_error(2)] undisturbed_calm(2) start_error(3,4) by (auto simp: set_checker_def)
  ultimately show ?thesis
    using peaceful_own [OF assms(1) start_error(2)] Start_ops [OF start_error(6)] start_error(1,3) by blast
next
  case (started i s c env answer dpi tr)
  let ?t = "s\<lparr>m_dpi := dpi, m_trace := tr, m_checkers := (m_checkers s)[c := Ended] @ [Setup]\<rparr>"
  have "health_step s ?t" using started(4,6) by (rule restart_started)
  moreover have "m_stopped ?t"
    using peaceful_D(1) [OF assms(1) started(2)] undisturbed_calm(2) started(3,4) by auto
  ultimately show ?thesis
    using peaceful_own [OF assms(1) started(2)] Start_ops [OF started(6)] started(1,3) by blast
next
  case (shutdown i s env answer err dpi tr)
  let ?t = "s\<lparr>m_dpi := dpi, m_trace := tr\<rparr>"
  have "health_step s ?t" using shutdown(4,6) by (rule health_step.shutdown)
  with peaceful_own [OF assms(1) shutdown(2), of ?t] Stop_ops [OF shutdown(6)] shutdown(1,3,4) show ?thesis by simp
next
  case (launch dp dps env answer r dpi tr)
  with peaceful_launch [OF assms(1) launch(2,4)] Start_ops [OF launch(4)] show ?thesis by blast
qed

interpretation peace: invariant_system "\<lambda>N. node_init specs N \<and> list_all spec_fit specs \<and> distinct (map fst specs)" plugin_step peaceful
proof
  fix N assume a: "node_init specs N \<and> list_all spec_fit specs \<and> distinct (map fst specs)"
  have "map socketPath (todo_of specs) = map (\<lambda>n. DevicePluginPath @ socket_name n) (map fst specs)"
    by (simp add: todo_of_def comp_def case_prod_unfold socketPath_New)
  moreover have "inj (\<lambda>n. DevicePluginPath @ socket_name n)" by (rule injI) (simp add: socket_name_def)
  ultimately have "distinct (map socketPath (todo_of specs))" using a by (simp add: distinct_map inj_on_def)
  moreover have "list_all (\<lambda>dp. \<exists>ds. setting ds dp) (todo_of specs)"
    using a spec_setting by (fastforce simp: todo_of_def list_all_iff)
  ultimately show "peaceful N" using a by (simp add: peaceful_def node_init_def sockets_def)
qed (rule peaceful_plugin)

section \<open>Properties\<close>

text \<open>C14. Plugins with different names leave each other alone: on a host where the plugins are the
  only ones to change files, a plugin that is not told to stop has, after any run, its server,
  one registration and its first health check, whatever the others do and whatever calls fail.\<close>

theorem distinct_plugins_undisturbed:
  assumes "node_init specs N" and "list_all spec_fit specs" and "distinct (map fst specs)"
    and "plugin_step\<^sup>*\<^sup>* N N'" and "i < length (n_plugins N')" and "\<not> m_stopped (machine_of N' i)"
  shows "server (m_dpi (machine_of N' i)) \<and> length (registrations (m_trace (machine_of N' i))) = 1 \<and>
    length (m_checkers (machine_of N' i)) = 1 \<and> Restarting \<notin> set (m_checkers (machine_of N' i))"
proof -
  have "peaceful N" using peace.inv_init [of specs] assms(1-3) by blast
  then have "peaceful N'" using peace.inv_rtranclp assms(4) by blast
  then have "undisturbed (n_plugins N' ! i)" using peaceful_D(1) assms(5,6) by blast
  then show ?thesis by (auto simp: undisturbed_def Let_def machine_of_def)
qed

text \<open>Two device types with names of their own, launched where every call succeeds.\<close>

lemma launched_fine:
  assumes "n_todo N = dp # dps" and "\<not> server dp"
  shows "\<exists>N'. plugin_step N N' \<and> n_todo N' = dps \<and> length (n_plugins N') = Suc (length (n_plugins N)) \<and>
    \<not> m_stopped (machine_of N' (length (n_plugins N))) \<and> (\<forall>j < length (n_plugins N). machine_of N' j = machine_of N j)"
  by (rule exI, rule conjI, rule launch_fine [OF assms]) (simp add: fresh_node_def)

theorem distinct_plugins_undisturbed_witness:
  "\<exists>N N'. node_init [(''pgpu'', ''/dev/vfio/'', [''1'']), (''nvswitch'', ''/dev/vfio/'', [''2''])] N \<and> plugin_step\<^sup>*\<^sup>* N N' \<and>
     length (n_plugins N') = 2 \<and> length (registrations (m_trace (machine_of N' 0))) = 1 \<and>
     length (registrations (m_trace (machine_of N' 1))) = 1"
proof -
  let ?specs = "[(''pgpu'', ''/dev/vfio/'', [''1'']), (''nvswitch'', ''/dev/vfio/'', [''2''])]"
  let ?N = "\<lparr>n_files = {sample_sockets}, n_plugins = [], n_todo = todo_of ?specs, n_ops = []\<rparr>"
  have i: "node_init ?specs ?N" by (simp add: node_init_def)
  have f: "list_all spec_fit ?specs" "distinct (map fst ?specs)" by (simp_all add: spec_fit_def simple_name_def)
  have off: "\<not> server dp" if "dp \<in> set (todo_of ?specs)" for dp
    using that by (auto simp: todo_of_def NewGenericDevicePlugin_def)
  obtain N1 where 1: "plugin_step ?N N1" "n_todo N1 = tl (todo_of ?specs)" "length (n_plugins N1) = 1" "\<not> m_stopped (machine_of N1 0)"
    using launched_fine [of ?N "hd (todo_of ?specs)" "tl (todo_of ?specs)"] off by (auto simp: todo_of_def)
  obtain N2 where 2: "plugin_step N1 N2" "length (n_plugins N2) = 2" "\<not> m_stopped (machine_of N2 1)" "machine_of N2 0 = machine_of N1 0"
    using launched_fine [of N1 "hd (tl (todo_of ?specs))" "[]"] off 1 by (auto simp: todo_of_def)
  have st: "plugin_step\<^sup>*\<^sup>* ?N N2" using 1(1) 2(1) by (meson converse_rtranclp_into_rtranclp r_into_rtranclp)
  have "length (registrations (m_trace (machine_of N2 k))) = 1" if "k < 2" for k
    using distinct_plugins_undisturbed [OF i f st, of k] that 1(4) 2(2-4) less_2_cases [OF that] by auto
  from this [of 0] this [of 1] i st 2(2) show ?thesis by (intro exI [of _ ?N] exI [of _ N2]) simp
qed

end
