(* ===== verification/Aliases.thy ===== *)
theory Aliases
  imports Sockets
begin

text \<open>
  Two plugins with one socket: a watcher's tables mirror the kernel's watches, every removal of
  the socket is seen by the other plugin, and the two restart each other without end.
\<close>

section \<open>The tables of a watcher\<close>

text \<open>After setting up, fsnotify's tables hold what the kernel watches, numbered from 1.\<close>

definition mirror :: "watches \<Rightarrow> inotify \<Rightarrow> bool" where
  "mirror ws k \<longleftrightarrow> map fst (k_watches k) = map of_nat [1..<Suc (length (k_watches k))] \<and>
     k_next k = of_nat (Suc (length (k_watches k))) \<and> distinct (map snd (k_watches k)) \<and>
     (\<forall>p. fmlookup (by_path ws) p = map_of (map prod.swap (k_watches k)) p) \<and>
     (\<forall>wd. map_option w_path (fmlookup (by_wd ws) wd) = map_of (k_watches k) wd) \<and>
     (\<forall>wd w. fmlookup (by_wd ws) wd = Some w \<longrightarrow> w_wd w = wd)"

lemma mirror_new [simp]: "mirror newWatches new_inotify"
  by (simp add: mirror_def newWatches_def new_inotify_def)

lemma small_of_nat: "n < 2 ^ 32 \<Longrightarrow> m < 2 ^ 32 \<Longrightarrow> (of_nat n :: 32 word) = of_nat m \<longleftrightarrow> n = m"
  by (simp add: word_of_nat_eq_iff take_bit_nat_eq_self)

lemma small_of_nat_0: "0 < n \<Longrightarrow> n < 2 ^ 32 \<Longrightarrow> (of_nat n :: 32 word) \<noteq> 0"
  using small_of_nat [of n 0] by simp

lemma mirror_fst:
  assumes "mirror ws k" and "(wd, p) \<in> set (k_watches k)"
  shows "\<exists>n. wd = of_nat n \<and> 0 < n \<and> n \<le> length (k_watches k)"
proof -
  have "wd \<in> set (map fst (k_watches k))" using assms(2) by force
  moreover have "map fst (k_watches k) = map of_nat [1..<Suc (length (k_watches k))]" using assms(1) by (simp only: mirror_def)
  ultimately have "wd \<in> of_nat ` {1..<Suc (length (k_watches k))}" by (simp del: upt_Suc)
  then show ?thesis by auto
qed

lemma mirror_distinct:
  assumes "mirror ws k" and "Suc (length (k_watches k)) < 2 ^ 32"
  shows "distinct (map fst (k_watches k))"
proof -
  have "inj_on (of_nat :: nat \<Rightarrow> 32 word) {1..<Suc (length (k_watches k))}"
    using assms(2) by (intro inj_onI) (simp add: small_of_nat)
  moreover have "map fst (k_watches k) = map of_nat [1..<Suc (length (k_watches k))]" using assms(1) by (simp only: mirror_def)
  ultimately show ?thesis by (simp add: distinct_map del: upt_Suc)
qed

lemma map_of_swap:
  assumes "distinct (map snd xs)"
  shows "map_of (map prod.swap xs) p = Some wd \<longleftrightarrow> (wd, p) \<in> set xs"
proof -
  have "map_of (map prod.swap xs) p = Some wd \<longleftrightarrow> (p, wd) \<in> set (map prod.swap xs)"
    using assms by (intro map_of_eq_Some_iff) (simp add: comp_def)
  also have "\<dots> \<longleftrightarrow> (wd, p) \<in> set xs" by force
  finally show ?thesis .
qed

lemma find_watch:
  "find (\<lambda>(wd, q). q = p) xs = (case map_of (map prod.swap xs) p of None \<Rightarrow> None | Some wd \<Rightarrow> Some (wd, p))"
  by (induction xs) auto

lemma mirror_path: "mirror ws k \<Longrightarrow> fmlookup (by_path ws) p = Some wd \<longleftrightarrow> (wd, p) \<in> set (k_watches k)"
  by (simp add: mirror_def map_of_swap)

text \<open>One call of \<^verbatim>\<open>Add\<close> for a path that exists.\<close>

lemma Add_mirror:
  assumes m: "mirror ws k" and small: "Suc (length (k_watches k)) < 2 ^ 32" and p: "Clean p \<in> files" "lim (Clean p) = None"
  defines "k' \<equiv> snd (add_watch files lim (Clean p) k)"
  shows "\<exists>ws'. Add (\<lambda>path flags. fst (add_watch files lim path k)) p ws = (None, ws') \<and> mirror ws' k' \<and>
    (\<exists>xs. k_watches k' = k_watches k @ xs \<and> length xs \<le> 1 \<and> snd ` set xs \<subseteq> {Clean p})"
proof (cases "fmlookup (by_path ws) (Clean p)")
  case (Some wd)
  let ?p = "Clean p"
  have in_k: "(wd, ?p) \<in> set (k_watches k)" using Some mirror_path [OF m] by simp
  have "map_of (map prod.swap (k_watches k)) ?p = Some wd" using Some m by (simp add: mirror_def)
  with p have aw: "add_watch files lim ?p k = (Inr wd, k)" by (simp add: add_watch_def find_watch)
  have "map_of (k_watches k) wd = Some ?p"
    using mirror_distinct [OF m small] in_k by simp
  then have "map_option w_path (fmlookup (by_wd ws) wd) = Some ?p" using m by (simp add: mirror_def)
  then obtain w where w: "fmlookup (by_wd ws) wd = Some w" "w_path w = ?p" by auto
  have wd: "w_wd w = wd" using m w(1) unfolding mirror_def by blast
  let ?ws = "ws\<lparr>by_wd := fmupd wd w (by_wd ws), by_path := fmupd ?p wd (by_path ws)\<rparr>"
  have "Add (\<lambda>path flags. fst (add_watch files lim path k)) p ws = (None, ?ws)"
    using Some w wd by (simp add: Add_def register_def updatePath_def aw Let_def)
  moreover have "mirror ?ws k"
  proof -
    have "fmupd wd w (by_wd ws) = by_wd ws" by (rule fmap_ext) (auto simp: w(1))
    moreover have "fmupd ?p wd (by_path ws) = by_path ws" by (rule fmap_ext) (auto simp: Some)
    ultimately show ?thesis using m by simp
  qed
  ultimately show ?thesis by (simp add: k'_def aw)
next
  case None
  let ?p = "Clean p" and ?n = "Suc (length (k_watches k))"
  have not_k: "?p \<notin> snd ` set (k_watches k)" using None mirror_path [OF m, of ?p] by force
  have aw: "add_watch files lim ?p k = (Inr (of_nat ?n), k\<lparr>k_watches := k_watches k @ [(of_nat ?n, ?p)], k_next := of_nat (Suc ?n)\<rparr>)"
    using p None m by (simp add: add_watch_def find_watch mirror_def algebra_simps)
  have nfst: "(of_nat ?n :: 32 word) \<notin> fst ` set (k_watches k)"
  proof
    assume "(of_nat ?n :: 32 word) \<in> fst ` set (k_watches k)"
    then obtain q where "(of_nat ?n :: 32 word, q) \<in> set (k_watches k)" by force
    from mirror_fst [OF m this] obtain n where "(of_nat ?n :: 32 word) = of_nat n" "n \<le> length (k_watches k)" by blast
    with small show False using small_of_nat [of ?n n] by simp
  qed
  have zero: "(0 :: 32 word) \<notin> fst ` set (k_watches k)"
  proof
    assume "(0 :: 32 word) \<in> fst ` set (k_watches k)"
    then obtain q where "(0 :: 32 word, q) \<in> set (k_watches k)" by force
    from mirror_fst [OF m this] obtain n where "(0 :: 32 word) = of_nat n" "0 < n" "n \<le> length (k_watches k)" by blast
    with small small_of_nat_0 [of n] show False by simp
  qed
  have look: "map_of (k_watches k) wd = None" if "wd \<notin> fst ` set (k_watches k)" for wd
    using that by (simp add: map_of_eq_None_iff)
  have none: "fmlookup (by_wd ws) (of_nat ?n) = None" "fmlookup (by_wd ws) 0 = None"
    using m look [OF nfst] look [OF zero] unfolding mirror_def by (metis option.map_disc_iff)+
  let ?w = "\<lparr>w_wd = of_nat ?n, w_flags = default_flags, w_path = ?p\<rparr>"
  let ?ws = "ws\<lparr>by_wd := fmdrop 0 (fmupd (of_nat ?n) ?w (by_wd ws)), by_path := fmupd ?p (of_nat ?n) (by_path ws)\<rparr>"
  have n0: "(of_nat ?n :: 32 word) \<noteq> 0" using small by (intro small_of_nat_0) simp_all
  have "Add (\<lambda>path flags. fst (add_watch files lim path k)) p ws = (None, ?ws)"
    using None none n0 by (simp add: Add_def register_def updatePath_def aw Let_def del: of_nat_Suc)
  moreover have "mirror ?ws (k\<lparr>k_watches := k_watches k @ [(of_nat ?n, ?p)], k_next := of_nat (Suc ?n)\<rparr>)"
  proof -
    have "fmlookup (by_path ?ws) q = map_of (map prod.swap (k_watches k @ [(of_nat ?n, ?p)])) q" for q
    proof (cases "q = ?p")
      case True
      have "map_of (map prod.swap (k_watches k)) ?p = None" using m None by (simp add: mirror_def)
      with True show ?thesis by (simp add: map_add_def del: of_nat_Suc)
    next
      case False
      with m show ?thesis by (simp add: mirror_def map_add_def del: of_nat_Suc split: option.splits)
    qed
    moreover have "map_option w_path (fmlookup (by_wd ?ws) wd) = map_of (k_watches k @ [(of_nat ?n, ?p)]) wd" for wd
    proof (cases "wd = of_nat ?n")
      case True
      with look [OF nfst] n0 show ?thesis by (simp add: map_add_def del: of_nat_Suc)
    next
      case False
      with m look [OF zero] none show ?thesis
        by (cases "wd = 0") (simp_all add: mirror_def map_add_def del: of_nat_Suc split: option.splits)
    qed
    ultimately show ?thesis
      using m not_k unfolding mirror_def by (auto simp del: of_nat_Suc split: if_splits)
  qed
  ultimately show ?thesis by (simp add: k'_def aw del: of_nat_Suc)
qed

lemma add_watches_mirror:
  assumes "mirror ws k" and "Suc (length (k_watches k) + length ps) < 2 ^ 32" and "\<forall>p \<in> set ps. Clean p \<in> files"
  shows "\<exists>ws' k' xs. add_watches files (\<lambda>_. None) ps (ws, k) = Inr (ws', k') \<and> mirror ws' k' \<and>
    k_watches k' = k_watches k @ xs \<and> snd ` set xs \<subseteq> Clean ` set ps"
  using assms
proof (induction ps arbitrary: ws k)
  case (Cons p ps)
  let ?k = "snd (add_watch files (\<lambda>_. None) (Clean p) k)"
  obtain ws1 xs where 1: "Add (\<lambda>path flags. fst (add_watch files (\<lambda>_. None) path k)) p ws = (None, ws1)" "mirror ws1 ?k"
    "k_watches ?k = k_watches k @ xs" "length xs \<le> 1" "snd ` set xs \<subseteq> {Clean p}"
    using Add_mirror [OF Cons.prems(1), of p files "\<lambda>_. None"] Cons.prems(2,3) by auto
  obtain ws2 k2 ys where "add_watches files (\<lambda>_. None) ps (ws1, ?k) = Inr (ws2, k2)" "mirror ws2 k2"
    "k_watches k2 = k_watches ?k @ ys" "snd ` set ys \<subseteq> Clean ` set ps"
    using Cons.IH [OF 1(2)] Cons.prems(2,3) 1(3,4) by auto
  with 1 show ?case by (intro exI [of _ ws2] exI [of _ k2] exI [of _ "xs @ ys"]) auto
qed simp

section \<open>A plugin that waits\<close>

abbreviation sockets_dir :: string where
  "sockets_dir \<equiv> rooted socket_dir"

text \<open>The files a health check watches are there.\<close>

definition present :: "string set \<Rightarrow> GenericDevicePlugin \<Rightarrow> bool" where
  "present files dpi \<longleftrightarrow> sockets_dir \<in> files \<and> (\<exists>ds. setting ds dpi) \<and> Suc (Suc (length (devs dpi))) < 2 ^ 32 \<and>
     (\<forall>d \<in> set (devs dpi). device_file (iommufd_on files) (devicePath dpi) d \<in> files)"

text \<open>Its watcher tells of the sockets' directory with descriptor 1, and of no other socket.\<close>

definition tuned :: "string \<Rightarrow> watches \<Rightarrow> inotify \<Rightarrow> bool" where
  "tuned p ws k \<longleftrightarrow> (\<exists>w xs. fmlookup (by_wd ws) 1 = Some w \<and> w_path w = sockets_dir \<and> k_watches k = (1, sockets_dir) # xs \<and>
     sockets_dir \<notin> snd ` set xs \<and> p \<notin> snd ` set xs)"

definition deleted :: "string \<Rightarrow> raw_event" where
  "deleted p = \<lparr>Wd = 1, Mask = IN_DELETE, Name = Some (Base p)\<rparr>"

definition created :: "string \<Rightarrow> raw_event" where
  "created p = \<lparr>Wd = 1, Mask = IN_CREATE, Name = Some (Base p)\<rparr>"

lemma setting_sock:
  assumes "setting ds dpi"
  shows "Dir (socketPath dpi) = sockets_dir" and "sockets_dir @ ''/'' @ Base (socketPath dpi) = socketPath dpi"
    and "socketPath dpi \<noteq> sockets_dir" and "socketPath dpi \<notin> dev_files ds" and "sockets_dir \<notin> dev_files ds"
proof -
  obtain c where c: "simple_name c" "socketPath dpi = rooted (socket_dir @ [c])" using assms by (auto simp: setting_def)
  have d: "\<forall>d \<in> set ds. simple_name d" "ds \<noteq> []" "ds \<noteq> socket_dir" "ds \<noteq> butlast socket_dir" using assms by (simp_all add: setting_def)
  show "Dir (socketPath dpi) = sockets_dir" using c by (simp add: Dir_rooted)
  show "sockets_dir @ ''/'' @ Base (socketPath dpi) = socketPath dpi" using c by (simp add: Base_join_dir rooted_snoc)
  show "socketPath dpi \<noteq> sockets_dir" using c by (simp add: rooted_snoc)
  show "socketPath dpi \<notin> dev_files ds"
  proof
    assume "socketPath dpi \<in> dev_files ds"
    then obtain e where "rooted (socket_dir @ [c]) = rooted (ds @ [e])" "simple_name e" using c by (auto simp: dev_files_def)
    then have "socket_dir @ [c] = ds @ [e]" by (subst (asm) rooted_inj) (use d c in auto)
    with d show False by simp
  qed
  show "sockets_dir \<notin> dev_files ds"
  proof
    assume "sockets_dir \<in> dev_files ds"
    then obtain e where "rooted socket_dir = rooted (ds @ [e])" "simple_name e" by (auto simp: dev_files_def)
    then have "socket_dir = ds @ [e]" by (subst (asm) rooted_inj) (use d in auto)
    then have "butlast socket_dir = ds" by (metis butlast_snoc)
    with d(4) show False by blast
  qed
qed

text \<open>A removal and a creation of the socket are two reports; the watches stay.\<close>

lemma tuned_notify:
  assumes "tuned p ws k" and "Dir p = sockets_dir" and "p \<noteq> sockets_dir"
  shows "notify (Removed p) k = k\<lparr>k_queue := k_queue k @ [deleted p]\<rparr>"
    and "notify (Created p) k = k\<lparr>k_queue := k_queue k @ [created p]\<rparr>"
proof -
  obtain xs where xs: "k_watches k = (1, sockets_dir) # xs" "sockets_dir \<notin> snd ` set xs" "p \<notin> snd ` set xs"
    using assms(1) by (auto simp: tuned_def)
  have "concat (map (reports_of x) xs) = []" if "op_path x = p" for x
    using xs(2,3) that assms(2) by (force simp: reports_of_def op_path_def split: fs_op.splits)
  then have none: "concat (map (reports_of (Removed p)) xs) = []" "concat (map (reports_of (Created p)) xs) = []"
    by (simp_all only: op_path_def fs_op.case)
  have "filter (\<lambda>(wd, d). p \<noteq> d) xs = xs" using xs(3) by (force intro: filter_True)
  then have f: "filter (\<lambda>(wd, d). Removed p \<noteq> Removed d) (k_watches k) = k_watches k"
    "filter (\<lambda>(wd, d). Created p \<noteq> Removed d) (k_watches k) = k_watches k" using xs(1) assms(3) by simp_all
  have r: "concat (map (reports_of (Removed p)) (k_watches k)) = [deleted p]"
    "concat (map (reports_of (Created p)) (k_watches k)) = [created p]"
    unfolding xs(1) using none assms(2,3) by (simp_all add: deleted_def created_def) (simp_all add: reports_of_def)
  show "notify (Removed p) k = k\<lparr>k_queue := k_queue k @ [deleted p]\<rparr>"
    and "notify (Created p) k = k\<lparr>k_queue := k_queue k @ [created p]\<rparr>"
    unfolding notify_def r f by (cases k; simp)+
qed

lemma tuned_queue [simp]: "tuned p ws (k\<lparr>k_queue := q\<rparr>) = tuned p ws k"
  by (simp add: tuned_def)

section \<open>Setting up\<close>

lemma watch_devices_Inr: "(\<And>d. d \<in> set ds \<Longrightarrow> add (device_file b path d) = None) \<Longrightarrow> \<exists>m'. watch_devices add b path ds m = Inr m'"
  by (induction ds arbitrary: m) (simp_all add: Let_def)

lemma present_paths:
  assumes "present files dpi"
  shows "\<forall>p \<in> set (watch_paths (iommufd_on files) dpi). Clean p = p \<and> p \<in> files"
proof -
  obtain ds where ds: "setting ds dpi" using assms by (auto simp: present_def)
  have "Clean p = p" if "p \<in> dev_files ds" for p
    using that ds by (auto simp: dev_files_def setting_def intro!: Clean_rooted)
  moreover have "Clean sockets_dir = sockets_dir" by (rule Clean_rooted) simp
  ultimately show ?thesis
    using assms device_file_in [OF ds] setting_sock(1) [OF ds] by (auto simp: watch_paths_def present_def)
qed

lemma present_setup:
  assumes "present files dpi"
  shows "\<exists>m. healthCheck_setup (watch_host files (\<lambda>_. None) None) dpi = Inr m \<and> fmlookup m (socketPath dpi) = None"
proof -
  let ?h = "watch_host files (\<lambda>_. None) None"
  obtain ds where ds: "setting ds dpi" using assms by (auto simp: present_def)
  have add: "w_add ?h p = None" if "p \<in> set (watch_paths (iommufd_on files) dpi)" for p
    using present_paths [OF assms] that by (simp add: watch_host_def)
  obtain m where m: "watch_devices (w_add ?h) (iommufd_on files) (devicePath dpi) (devs dpi) fmempty = Inr m"
    using watch_devices_Inr [of "devs dpi" "w_add ?h"] add by (force simp: watch_paths_def)
  have "w_stat ?h (devicePath dpi) = None \<or> w_stat ?h (devicePath dpi) = Some ErrNotExist" by (simp add: watch_host_def)
  moreover have "w_new ?h = None" "w_add ?h (Dir (socketPath dpi)) = None"
    using add by (simp_all add: watch_paths_def) (simp add: watch_host_def)
  ultimately have r: "healthCheck_setup ?h dpi = Inr m"
    using m by (auto simp: healthCheck_setup_def iommufd_watch_host)
  have "fmdom' m \<subseteq> dev_files ds" using healthCheck_setup_dom [OF r] device_file_in [OF ds] by auto
  with setting_sock(4) [OF ds] have "fmlookup m (socketPath dpi) = None"
    by (metis fmdom'_notD subsetD)
  with r show ?thesis by blast
qed

lemma present_watches:
  assumes "present files dpi"
  shows "\<exists>ws k. add_watches files (\<lambda>_. None) (watch_paths (iommufd_on files) dpi) (newWatches, new_inotify) = Inr (ws, k) \<and>
    tuned (socketPath dpi) ws k \<and> k_queue k = []"
proof -
  obtain ds where ds: "setting ds dpi" using assms by (auto simp: present_def)
  let ?ps = "map (device_file (iommufd_on files) (devicePath dpi)) (devs dpi)"
  have ps: "watch_paths (iommufd_on files) dpi = sockets_dir # ?ps" using setting_sock(1) [OF ds] by (simp add: watch_paths_def)
  have small: "Suc (Suc (length ?ps)) < 2 ^ 32" using assms by (simp add: present_def)
  have clean: "Clean p = p" "p \<in> files" if "p \<in> set (sockets_dir # ?ps)" for p
    using present_paths [OF assms] that by (simp_all only: ps)
  let ?k = "snd (add_watch files (\<lambda>_. None) sockets_dir new_inotify)"
  have k1: "?k = \<lparr>k_watches = [(1, sockets_dir)], k_next = 2, k_queue = []\<rparr>"
    using clean(2) [of sockets_dir] by (simp add: add_watch_def new_inotify_def)
  obtain ws1 where 1: "Add (\<lambda>path flags. fst (add_watch files (\<lambda>_. None) path new_inotify)) sockets_dir newWatches = (None, ws1)"
    "mirror ws1 ?k"
    using Add_mirror [OF mirror_new, of sockets_dir files "\<lambda>_. None"] clean [of sockets_dir] by (auto simp: new_inotify_def)
  obtain ws k xs where 2: "add_watches files (\<lambda>_. None) ?ps (ws1, ?k) = Inr (ws, k)" "mirror ws k" "k_watches k = k_watches ?k @ xs"
    "snd ` set xs \<subseteq> Clean ` set ?ps"
    using add_watches_mirror [OF 1(2), of ?ps files] clean small by (auto simp: k1)
  have add: "add_watches files (\<lambda>_. None) (watch_paths (iommufd_on files) dpi) (newWatches, new_inotify) = Inr (ws, k)"
    unfolding ps using 1(1) 2(1) clean(1) [of sockets_dir] by simp
  have kw: "k_watches k = (1, sockets_dir) # xs" using 2(3) k1 by simp
  have "Clean ` set ?ps = set ?ps" using clean(1) by (intro image_cong [OF refl, of _ Clean id, simplified]) simp
  moreover have "set ?ps \<subseteq> dev_files ds" using device_file_in [OF ds] by auto
  ultimately have "snd ` set xs \<subseteq> dev_files ds" using 2(4) by blast
  then have out: "sockets_dir \<notin> snd ` set xs" "socketPath dpi \<notin> snd ` set xs" using setting_sock(4,5) [OF ds] by blast+
  have "map_option w_path (fmlookup (by_wd ws) 1) = Some sockets_dir" using 2(2) kw unfolding mirror_def by simp
  then obtain w where "fmlookup (by_wd ws) 1 = Some w" "w_path w = sockets_dir" by auto
  with kw out have "tuned (socketPath dpi) ws k" by (auto simp: tuned_def)
  with add add_watches_queue [OF add] show ?thesis by (auto simp: new_inotify_def)
qed

section \<open>A restart on the host\<close>

text \<open>A plugin of the socket \<open>p\<close> whose health check waits, with the reports \<open>q\<close> to read.\<close>

definition poised :: "string set \<Rightarrow> string \<Rightarrow> raw_event list \<Rightarrow> plugin_node \<Rightarrow> bool" where
  "poised files p q P \<longleftrightarrow> (let s = n_machine P in socketPath (m_dpi s) = p \<and> present files (m_dpi s) \<and> server (m_dpi s) \<and>
     term_buf (m_dpi s) = [] \<and> (\<exists>c m. checker_at s c (Watching m) \<and> fmlookup m p = None) \<and>
     tuned p (n_watches P) (n_inotify P) \<and> \<not> n_stuck P \<and> k_queue (n_inotify P) = q)"

text \<open>A plugin whose health check sets up.\<close>

definition rising :: "string set \<Rightarrow> string \<Rightarrow> machine \<Rightarrow> bool" where
  "rising files p s \<longleftrightarrow> socketPath (m_dpi s) = p \<and> present files (m_dpi s) \<and> server (m_dpi s) \<and> (\<exists>c. checker_at s c Setup) \<and>
     (term_buf (m_dpi s) = [] \<or> term_buf (m_dpi s) = [True])"

lemma Stop_files: "server dpi \<Longrightarrow> term_buf dpi = [] \<Longrightarrow> Stop (fine_files files) (dpi, tr) =
     Some (None, dpi\<lparr>term_buf := [True], server := False\<rparr>,
       tr @ [SendTerm, ServerStop, RemoveFile (socketPath dpi)])"
  by (simp add: Stop_def term_capacity_def Let_def cleanup_result file_env_def all_fine_def)

lemma stop_files_ops:
  "p \<in> files \<Longrightarrow> new_ops (fine_files files) tr (tr @ [SendTerm, ServerStop, RemoveFile p]) = [Removed p]"
  by (simp add: new_ops_def file_env_def all_fine_def)

text \<open>What plugin \<open>j\<close> keeps in the steps of others, but for its reports.\<close>

definition aside :: "plugin_node \<Rightarrow> plugin_node \<Rightarrow> bool" where
  "aside P Q \<longleftrightarrow> n_machine Q = n_machine P \<and> n_watches Q = n_watches P \<and> n_stuck Q = n_stuck P"

lemma present_frame:
  assumes "present files dpi" and "map ID (devs dpi') = map ID (devs dpi)" and "socketPath dpi' = socketPath dpi"
    and "devicePath dpi' = devicePath dpi"
  shows "present files dpi'"
proof -
  have "\<exists>d \<in> set (devs dpi). ID d = ID d'" if "d' \<in> set (devs dpi')" for d'
    using that assms(2) by (metis (no_types, lifting) image_iff list.set_map)
  moreover have "length (devs dpi') = length (devs dpi)" using assms(2) by (rule map_eq_imp_length_eq)
  ultimately show ?thesis
    using assms by (fastforce simp: present_def setting_def device_file_def)
qed

text \<open>Reading the removal of its socket, the health check restarts.\<close>

lemma told_restarts:
  assumes "i < length (n_plugins N)" and "poised files p (deleted p # rs) (n_plugins N ! i)"
  shows "\<exists>N1 c. plugin_step N N1 \<and> n_files N1 = n_files N \<and> n_todo N1 = n_todo N \<and> length (n_plugins N1) = length (n_plugins N) \<and>
    (\<forall>j. j \<noteq> i \<longrightarrow> n_plugins N1 ! j = n_plugins N ! j) \<and> checker_at (machine_of N1 i) c Restarting \<and>
    m_dpi (machine_of N1 i) = m_dpi (machine_of N i) \<and> m_trace (machine_of N1 i) = m_trace (machine_of N i)"
proof -
  let ?P = "n_plugins N ! i" and ?s = "machine_of N i"
  obtain c m w where a: "checker_at ?s c (Watching m)" "fmlookup m p = None" "fmlookup (by_wd (n_watches ?P)) 1 = Some w"
    "w_path w = sockets_dir" "\<not> n_stuck ?P" "k_queue (n_inotify ?P) = deleted p # rs" "socketPath (m_dpi ?s) = p"
    using assms(2) by (auto simp: poised_def tuned_def Let_def machine_of_def)
  obtain ds where "setting ds (m_dpi ?s)" using assms(2) by (auto simp: poised_def Let_def present_def machine_of_def)
  then have name: "sockets_dir @ ''/'' @ Base p = p" using setting_sock(2) a(7) by blast
  have rd: "read_event rm (deleted p) (n_watches ?P) = Some (Some \<lparr>ev_Name = p, ev_Op = op_Remove\<rparr>, n_watches ?P)" for rm
    using a(3,4) name by (simp add: read_event_def handleEvent_def deleted_def newEvent_def event_name_def op_Remove_def)
  have ev: "on_event m (socketPath (m_dpi ?s)) \<lparr>ev_Name = p, ev_Op = op_Remove\<rparr> = Restart" using a(2,7) by (simp add: on_event_def)
  let ?N1 = "N\<lparr>n_plugins := (n_plugins N)[i := ?P\<lparr>n_machine := set_checker c Restarting ?s, n_watches := n_watches ?P,
      n_inotify := (n_inotify ?P)\<lparr>k_queue := rs\<rparr>\<rparr>]\<rparr>"
  have "plugin_step N ?N1"
    by (rule read [OF assms(1) refl, where s = ?s and c = c and m = m and r = "deleted p" and
        eo = "Some \<lparr>ev_Name = p, ev_Op = op_Remove\<rparr>", OF _ a(1,5,6) rd])
       (simp_all add: machine_of_def ev [unfolded machine_of_def] after_event_def)
  moreover have "checker_at (machine_of ?N1 i) c Restarting"
    using a(1) assms(1) by (simp add: checker_at_def set_checker_def)
  ultimately show ?thesis
    using assms(1) by (intro exI [of _ ?N1] exI [of _ c]) simp
qed

text \<open>What a run keeps beside the plugin \<open>i\<close>.\<close>

definition beside :: "nat \<Rightarrow> (inotify \<Rightarrow> inotify) \<Rightarrow> node \<Rightarrow> node \<Rightarrow> bool" where
  "beside i f N N' \<longleftrightarrow> plugin_step\<^sup>*\<^sup>* N N' \<and> n_todo N' = n_todo N \<and> length (n_plugins N') = length (n_plugins N) \<and>
     (\<forall>j < length (n_plugins N). j \<noteq> i \<longrightarrow> n_plugins N' ! j = (n_plugins N ! j)\<lparr>n_inotify := f (n_inotify (n_plugins N ! j))\<rparr>)"

lemma beside_trans: "beside i f N M \<Longrightarrow> beside i g M N' \<Longrightarrow> beside i (g \<circ> f) N N'"
  unfolding beside_def by (auto intro: rtranclp_trans)

lemma beside_put: "plugin_step N (fold perform xs (put i s N)) \<Longrightarrow> beside i (fold notify xs) N (fold perform xs (put i s N))"
  unfolding beside_def by (auto simp: nth_fold_perform n_plugins_put)
   (cases "i < length (n_plugins N)"; simp add: n_plugins_put put_def)

lemma beside_update: "plugin_step N (N\<lparr>n_plugins := (n_plugins N)[i := P]\<rparr>) \<Longrightarrow> beside i id N (N\<lparr>n_plugins := (n_plugins N)[i := P]\<rparr>)"
  unfolding beside_def by (auto simp: nth_list_update)

lemma restart_rises:
  assumes "i < length (n_plugins N)" and "checker_at (machine_of N i) c Restarting" and "server (m_dpi (machine_of N i))"
    and "term_buf (m_dpi (machine_of N i)) = []" and "present (n_files N) (m_dpi (machine_of N i))"
    and "socketPath (m_dpi (machine_of N i)) = p" and "p \<in> n_files N"
  shows "\<exists>N'. beside i (notify (Created p) \<circ> notify (Removed p)) N N' \<and> n_files N' = n_files N \<and>
    rising (n_files N) p (machine_of N' i) \<and>
    length (registrations (m_trace (machine_of N' i))) = Suc (length (registrations (m_trace (machine_of N i))))"
proof -
  let ?s = "machine_of N i" and ?F = "n_files N"
  let ?tr1 = "m_trace ?s @ [SendTerm, ServerStop, RemoveFile p]"
  let ?d1 = "(m_dpi ?s)\<lparr>term_buf := [True], server := False\<rparr>"
  let ?s1 = "set_checker c Restart_start (?s\<lparr>m_dpi := ?d1, m_trace := ?tr1\<rparr>)"
  let ?N1 = "fold perform [Removed p] (put i ?s1 N)"
  have "plugin_step N (fold perform (new_ops (fine_files ?F) (m_trace ?s) ?tr1) (put i ?s1 N))"
    using stop [OF assms(1) refl assms(2,3) refl Stop_files [OF assms(3,4)]] assms(6) by simp
  then have 1: "beside i (fold notify [Removed p]) N ?N1"
    unfolding stop_files_ops [OF assms(7)] by (rule beside_put)
  have m1: "machine_of ?N1 i = ?s1" "n_files ?N1 = ?F - {p}" "i < length (n_plugins ?N1)" using assms(1) by (simp_all add: apply_op_def)
  let ?ch = "Fresh_stop (length ?tr1)"
  let ?d2 = "?d1\<lparr>stop_ch := ?ch, server := True\<rparr>"
  let ?tr2 = "?tr1 @ serve_effects p True @ register_effects ?d1 @ [GoHealthCheck]"
  let ?s2 = "?s1\<lparr>m_dpi := ?d2, m_trace := ?tr2, m_checkers := (m_checkers ?s1)[c := Ended] @ [Setup]\<rparr>"
  let ?N2 = "fold perform [Created p] (put i ?s2 ?N1)"
  have at: "checker_at ?s1 c Restart_start" using assms(2) by (simp add: checker_at_def set_checker_def)
  have st: "Start (fine_files (n_files ?N1)) (Fresh_stop (length (m_trace ?s1))) (m_dpi ?s1, m_trace ?s1) = (None, ?d2, ?tr2)"
    using Start_files [of ?d1] assms(6) by simp
  have "plugin_step ?N1 (fold perform (new_ops (fine_files (n_files ?N1)) (m_trace ?s1) ?tr2) (put i ?s2 ?N1))"
    by (rule started [OF m1(3) m1(1) [symmetric] at refl st])
  moreover have "new_ops (fine_files (n_files ?N1)) (m_trace ?s1) ?tr2 = [Created p]"
    using start_files_ops [of "n_files ?N1" ?tr1 p ?d1] by (simp add: start_ops_def apply_op_def)
  ultimately have "plugin_step ?N1 ?N2" by simp
  then have 2: "beside i (fold notify [Created p]) ?N1 ?N2" by (rule beside_put)
  have m2: "machine_of ?N2 i = ?s2" using m1(3) by simp
  have "beside i (notify (Created p) \<circ> notify (Removed p)) N ?N2" using beside_trans [OF 1 2] by (simp add: comp_def)
  moreover have "n_files ?N2 = ?F" using assms(7) by (auto simp: apply_op_def)
  moreover have "rising ?F p (machine_of ?N2 i)"
    unfolding m2 rising_def using assms(5,6) present_frame [OF assms(5), of ?d2]
    by (auto simp: checker_at_def nth_append set_checker_def intro!: exI [of _ "length (m_checkers ?s)"])
  moreover have "length (registrations (m_trace (machine_of ?N2 i))) = Suc (length (registrations (m_trace ?s)))"
    unfolding m2 using registrations_started(1) [of p ?d1] by simp
  ultimately show ?thesis by blast
qed

lemma quiet_beside:
  assumes "i < length (n_plugins N)" and "quiet_step (machine_of N i) t"
  shows "beside i id N (put i t N)"
  using beside_put [where N = N and xs = "[]" and i = i and s = t] quiet [OF assms] by (simp add: id_def)

lemma rising_poised:
  assumes "i < length (n_plugins N)" and "rising (n_files N) p (machine_of N i)"
  shows "\<exists>N'. beside i id N N' \<and> n_files N' = n_files N \<and> poised (n_files N) p [] (n_plugins N' ! i) \<and>
    registrations (m_trace (machine_of N' i)) = registrations (m_trace (machine_of N i))"
proof -
  let ?s = "machine_of N i" and ?F = "n_files N"
  obtain c where r: "checker_at ?s c Setup" "socketPath (m_dpi ?s) = p" "present ?F (m_dpi ?s)" "server (m_dpi ?s)"
    "term_buf (m_dpi ?s) = [] \<or> term_buf (m_dpi ?s) = [True]" using assms(2) by (auto simp: rising_def)
  obtain m where m: "healthCheck_setup (watch_host ?F (\<lambda>_. None) None) (m_dpi ?s) = Inr m" "fmlookup m p = None"
    using present_setup [OF r(3)] r(2) by blast
  obtain ws k where k: "add_watches ?F (\<lambda>_. None) (watch_paths (iommufd_on ?F) (m_dpi ?s)) (newWatches, new_inotify) = Inr (ws, k)"
    "tuned p ws k" "k_queue k = []" using present_watches [OF r(3)] r(2) by blast
  let ?s1 = "set_checker c (Watching m) ?s"
  let ?P1 = "\<lparr>n_machine = ?s1, n_watches = ws, n_inotify = k, n_stuck = False\<rparr>"
  let ?N1 = "N\<lparr>n_plugins := (n_plugins N)[i := ?P1]\<rparr>"
  have 1: "beside i id N ?N1" by (rule beside_update [OF set_up [OF assms(1) r(1) m(1) k(1)]])
  have at1: "checker_at ?s1 c (Watching m)" using r(1) by (simp add: checker_at_def set_checker_def)
  have goal: "poised ?F p [] (?P1\<lparr>n_machine := t\<rparr>)"
    if "m_checkers t = m_checkers ?s1" "m_dpi t = (m_dpi ?s)\<lparr>term_buf := []\<rparr>" for t
    using that at1 r(2-4) m(2) k(2,3) present_frame [OF r(3), of "m_dpi t"]
    by (auto simp: poised_def checker_at_def Let_def)
  show ?thesis
  proof (cases "term_buf (m_dpi ?s) = []")
    case True
    then have "m_dpi ?s1 = (m_dpi ?s)\<lparr>term_buf := []\<rparr>" by simp
    with goal [of ?s1] 1 assms(1) show ?thesis by (intro exI [of _ ?N1]) (simp add: set_checker_def)
  next
    case False
    let ?s2 = "open_stream ?s1" and ?j = "length (m_streams ?s1)"
    let ?s3 = "end_stream ?j (?s2\<lparr>m_dpi := (m_dpi ?s2)\<lparr>term_buf := []\<rparr>\<rparr>)"
    have i1: "machine_of ?N1 i = ?s1" "i < length (n_plugins ?N1)" using assms(1) by simp_all
    have "health_step ?s1 ?s2" using r(4) by (intro ListAndWatch) simp
    then have "quiet_step (machine_of ?N1 i) ?s2" unfolding i1 by (rule quietI) (simp_all add: open_stream_def)
    then have 2: "beside i id ?N1 (put i ?s2 ?N1)" by (rule quiet_beside [OF i1(2)])
    let ?N2 = "put i ?s2 ?N1"
    have i2: "machine_of ?N2 i = ?s2" "i < length (n_plugins ?N2)" using i1 by simp_all
    have "health_step ?s2 ?s3"
      using False r(5) by (intro stream_term [where b = True]) (simp_all add: stream_runs_def open_stream_def)
    then have "quiet_step (machine_of ?N2 i) ?s3" unfolding i2 by (rule quietI) (simp_all add: open_stream_def)
    then have 3: "beside i id ?N2 (put i ?s3 ?N2)" by (rule quiet_beside [OF i2(2)])
    have "beside i id N (put i ?s3 ?N2)" using beside_trans [OF beside_trans [OF 1 2] 3] by simp
    moreover have "n_plugins (put i ?s3 ?N2) ! i = ?P1\<lparr>n_machine := ?s3\<rparr>" using assms(1) by (simp add: put_def)
    moreover have "m_checkers ?s3 = m_checkers ?s1" "m_dpi ?s3 = (m_dpi ?s)\<lparr>term_buf := []\<rparr>" "m_trace ?s3 = m_trace ?s"
      by (simp_all add: open_stream_def)
    ultimately show ?thesis
      using goal [of ?s3] i2(2) by (intro exI [of _ "put i ?s3 ?N2"]) simp
  qed
qed

section \<open>The fight\<close>

text \<open>Plugins \<open>i\<close> and \<open>j\<close> share the socket \<open>p\<close>: \<open>i\<close> is about to read that it was removed, \<open>j\<close> waits.\<close>

definition fight :: "string \<Rightarrow> nat \<Rightarrow> nat \<Rightarrow> node \<Rightarrow> bool" where
  "fight p i j N \<longleftrightarrow> i \<noteq> j \<and> i < length (n_plugins N) \<and> j < length (n_plugins N) \<and> p \<in> n_files N \<and>
     (\<exists>rs. poised (n_files N) p (deleted p # rs) (n_plugins N ! i)) \<and> poised (n_files N) p [] (n_plugins N ! j)"

definition regs :: "node \<Rightarrow> nat \<Rightarrow> nat" where
  "regs N i = length (registrations (m_trace (machine_of N i)))"

lemma poised_told:
  assumes "poised files p [] P"
  shows "poised files p [deleted p, created p] (P\<lparr>n_inotify := notify (Created p) (notify (Removed p) (n_inotify P))\<rparr>)"
proof -
  obtain ds where s: "setting ds (m_dpi (n_machine P))" "socketPath (m_dpi (n_machine P)) = p"
    using assms by (auto simp: poised_def Let_def present_def)
  have t: "tuned p (n_watches P) (n_inotify P)" "k_queue (n_inotify P) = []" using assms by (simp_all add: poised_def Let_def)
  note n = tuned_notify [OF _ setting_sock(1,3) [OF s(1), unfolded s(2)]]
  have "notify (Removed p) (n_inotify P) = (n_inotify P)\<lparr>k_queue := [deleted p]\<rparr>" using n(1) [OF t(1)] t(2) by simp
  moreover have "notify (Created p) ((n_inotify P)\<lparr>k_queue := [deleted p]\<rparr>) = (n_inotify P)\<lparr>k_queue := [deleted p, created p]\<rparr>"
    using n(2) [of "n_watches P" "(n_inotify P)\<lparr>k_queue := [deleted p]\<rparr>"] t(1) by simp
  ultimately show ?thesis using assms t by (simp add: poised_def Let_def)
qed

lemma beside_restart:
  assumes "beside i (f \<circ> g) N N'" and "j \<noteq> i" and "j < length (n_plugins N)"
  shows "n_plugins N' ! j = (n_plugins N ! j)\<lparr>n_inotify := f (g (n_inotify (n_plugins N ! j)))\<rparr>"
  using assms by (simp add: beside_def)

text \<open>One round: \<open>i\<close> restarts, and now \<open>j\<close> is about to read that its socket was removed.\<close>

lemma fight_round:
  assumes "fight p i j N"
  shows "\<exists>N'. plugin_step\<^sup>*\<^sup>* N N' \<and> fight p j i N' \<and> regs N' i = Suc (regs N i) \<and> regs N' j = regs N j \<and>
    length (n_plugins N') = length (n_plugins N)"
proof -
  obtain rs where f: "i \<noteq> j" "i < length (n_plugins N)" "j < length (n_plugins N)" "p \<in> n_files N"
    "poised (n_files N) p (deleted p # rs) (n_plugins N ! i)" "poised (n_files N) p [] (n_plugins N ! j)"
    using assms by (auto simp: fight_def)
  have P: "server (m_dpi (machine_of N i))" "term_buf (m_dpi (machine_of N i)) = []" "present (n_files N) (m_dpi (machine_of N i))"
    "socketPath (m_dpi (machine_of N i)) = p" using f(5) by (simp_all add: poised_def Let_def machine_of_def)
  obtain N1 c where 1: "plugin_step N N1" "n_files N1 = n_files N" "length (n_plugins N1) = length (n_plugins N)"
    "\<forall>k. k \<noteq> i \<longrightarrow> n_plugins N1 ! k = n_plugins N ! k" "checker_at (machine_of N1 i) c Restarting"
    "m_dpi (machine_of N1 i) = m_dpi (machine_of N i)" "m_trace (machine_of N1 i) = m_trace (machine_of N i)"
    using told_restarts [OF f(2,5)] by blast
  obtain N2 where 2: "beside i (notify (Created p) \<circ> notify (Removed p)) N1 N2" "n_files N2 = n_files N1"
    "rising (n_files N1) p (machine_of N2 i)" "regs N2 i = Suc (regs N1 i)"
    using restart_rises [of i N1 c p] 1 f P by (auto simp: regs_def)
  have l2: "length (n_plugins N2) = length (n_plugins N)" using 2(1) 1(3) by (simp add: beside_def)
  obtain N3 where 3: "beside i id N2 N3" "n_files N3 = n_files N2" "poised (n_files N2) p [] (n_plugins N3 ! i)" "regs N3 i = regs N2 i"
    using rising_poised [of i N2 p] 2 f(2) l2 by (auto simp: regs_def)
  have Q: "n_plugins N3 ! j = (n_plugins N ! j)\<lparr>n_inotify := notify (Created p) (notify (Removed p) (n_inotify (n_plugins N ! j)))\<rparr>"
    using beside_restart [OF 2(1), of j] 3(1) f(1,3) 1(3,4) l2 by (simp add: beside_def)
  have "plugin_step\<^sup>*\<^sup>* N N3"
    using 1(1) 2(1) 3(1) unfolding beside_def by (meson converse_rtranclp_into_rtranclp rtranclp_trans)
  moreover have "fight p j i N3"
    unfolding fight_def using f 1 2 3 l2 poised_told [OF f(6)] by (auto simp: Q beside_def)
  moreover have "regs N3 i = Suc (regs N i)" using 2(4) 3(4) 1(7) by (simp add: regs_def)
  moreover have "regs N3 j = regs N j" unfolding regs_def machine_of_def Q by simp
  moreover have "length (n_plugins N3) = length (n_plugins N)" using 3(1) l2 by (simp add: beside_def)
  ultimately show ?thesis by blast
qed

text \<open>And so on, for ever.\<close>

lemma fight_goes_on:
  assumes "fight p i j N"
  shows "\<exists>run. run 0 = N \<and> (\<forall>k. plugin_step\<^sup>*\<^sup>* (run k) (run (Suc k)) \<and> fight p i j (run k) \<and>
    length (n_plugins (run k)) = length (n_plugins N) \<and> regs (run k) i = k + regs N i \<and> regs (run k) j = k + regs N j)"
proof -
  let ?P = "\<lambda>k M. fight p i j M \<and> length (n_plugins M) = length (n_plugins N) \<and>
    regs M i = k + regs N i \<and> regs M j = k + regs N j \<and> (k = 0 \<longrightarrow> M = N)"
  have "\<exists>f. \<forall>k. ?P k (f k) \<and> plugin_step\<^sup>*\<^sup>* (f k) (f (Suc k))"
  proof (rule dependent_nat_choice)
    show "\<exists>M. ?P 0 M" using assms by auto
  next
    fix M k assume M: "?P k M"
    obtain M1 where 1: "plugin_step\<^sup>*\<^sup>* M M1" "fight p j i M1" "regs M1 i = Suc (regs M i)" "regs M1 j = regs M j"
      "length (n_plugins M1) = length (n_plugins M)" using M fight_round by blast
    obtain M2 where 2: "plugin_step\<^sup>*\<^sup>* M1 M2" "fight p i j M2" "regs M2 j = Suc (regs M1 j)" "regs M2 i = regs M1 i"
      "length (n_plugins M2) = length (n_plugins M1)" using fight_round [OF 1(2)] by blast
    have "plugin_step\<^sup>*\<^sup>* M M2" using 1(1) 2(1) by (rule rtranclp_trans)
    with M 1 2 show "\<exists>M'. ?P (Suc k) M' \<and> plugin_step\<^sup>*\<^sup>* M M'" by (intro exI [of _ M2]) simp
  qed
  then obtain f where f: "\<forall>k. ?P k (f k) \<and> plugin_step\<^sup>*\<^sup>* (f k) (f (Suc k))" by blast
  then have "f 0 = N" by blast
  with f show ?thesis by (intro exI [of _ f]) blast
qed

lemma launch_rises:
  assumes "n_todo N = dp # dps" and "\<not> server dp" and "term_buf dp = []" and "p = socketPath dp"
    and "present (insert p (n_files N)) dp"
  shows "\<exists>N'. plugin_step N N' \<and> n_todo N' = dps \<and> n_files N' = insert p (n_files N) \<and>
    length (n_plugins N') = Suc (length (n_plugins N)) \<and> rising (insert p (n_files N)) p (machine_of N' (length (n_plugins N))) \<and>
    (\<forall>j < length (n_plugins N). n_plugins N' ! j = (n_plugins N ! j)\<lparr>n_inotify :=
       fold notify (start_ops (n_files N) p) (n_inotify (n_plugins N ! j))\<rparr>)"
proof -
  let ?dpi = "dp\<lparr>stop_ch := Global_stop, server := True\<rparr>"
  let ?P = "fresh_node ?dpi (serve_effects p True @ register_effects dp @ [GoHealthCheck])"
  let ?M = "N\<lparr>n_todo := dps, n_plugins := n_plugins N @ [?P]\<rparr>"
  let ?N' = "fold perform (start_ops (n_files N) p) ?M"
  have "plugin_step N ?N'" using launch_fine [OF assms(1,2)] assms(4) by simp
  moreover have "n_files ?N' = insert p (n_files N)" by (auto simp: start_ops_def apply_op_def)
  moreover have "rising (insert p (n_files N)) p (n_machine ?P)"
    using assms(3-5) present_frame [OF assms(5), of ?dpi] by (auto simp: rising_def fresh_node_def checker_at_def)
  moreover have "n_plugins ?N' ! j = (n_plugins N ! j)\<lparr>n_inotify := fold notify (start_ops (n_files N) p) (n_inotify (n_plugins N ! j))\<rparr>"
    if "j < length (n_plugins N)" for j using that nth_fold_perform [of j ?M] by (simp add: nth_append)
  ultimately show ?thesis by (intro exI [of _ ?N']) simp
qed

text \<open>Two plugins with one name, launched one after the other, fight.\<close>

lemma aliases_fight:
  assumes "n_plugins N = []" and "n_todo N = [dp, dp']" and "\<not> server dp" "\<not> server dp'" "term_buf dp = []" "term_buf dp' = []"
    and "socketPath dp = p" "socketPath dp' = p" "present (insert p (n_files N)) dp" "present (insert p (n_files N)) dp'"
  shows "\<exists>N'. plugin_step\<^sup>*\<^sup>* N N' \<and> fight p 0 1 N' \<and> length (n_plugins N') = 2"
proof -
  let ?F = "insert p (n_files N)"
  obtain N1 where 1: "plugin_step N N1" "n_todo N1 = [dp']" "n_files N1 = ?F" "length (n_plugins N1) = 1"
    "rising ?F p (machine_of N1 0)"
    using launch_rises [OF assms(2,3,5) assms(7) [symmetric] assms(9)] assms(1) by auto
  obtain N2 where 2: "beside 0 id N1 N2" "n_files N2 = ?F" "poised ?F p [] (n_plugins N2 ! 0)"
    using rising_poised [of 0 N1 p] 1(3-5) by (metis One_nat_def lessI)
  have N2: "n_todo N2 = [dp']" "length (n_plugins N2) = 1" using 1 2(1) by (simp_all add: beside_def)
  have ins: "insert p (n_files N2) = ?F" "start_ops (n_files N2) p = [Removed p, Created p]" using 2(2) by (auto simp: start_ops_def)
  have pr: "present (insert p (n_files N2)) dp'" unfolding ins by (rule assms(10))
  obtain N3 where 3: "plugin_step N2 N3" "n_files N3 = ?F" "length (n_plugins N3) = 2" "rising ?F p (machine_of N3 1)"
    "n_plugins N3 ! 0 = (n_plugins N2 ! 0)\<lparr>n_inotify := notify (Created p) (notify (Removed p) (n_inotify (n_plugins N2 ! 0)))\<rparr>"
    using launch_rises [OF N2(1) assms(4,6) assms(8) [symmetric] pr] N2(2) ins by auto
  obtain N4 where 4: "beside 1 id N3 N4" "n_files N4 = ?F" "poised ?F p [] (n_plugins N4 ! 1)"
    using rising_poised [of 1 N3 p] 3(2-4) by (metis One_nat_def Suc_1 lessI)
  have "n_plugins N4 ! 0 = n_plugins N3 ! 0" using 4(1) 3(3) by (simp add: beside_def)
  with poised_told [OF 2(3)] 3(3,5) 4 have "fight p 0 1 N4" by (auto simp: fight_def beside_def)
  moreover have "length (n_plugins N4) = 2" using 4(1) 3(3) by (simp add: beside_def)
  moreover have "plugin_step\<^sup>*\<^sup>* N N4"
    using 1(1) 2(1) 3(1) 4(1) unfolding beside_def by (meson converse_rtranclp_into_rtranclp rtranclp_trans)
  ultimately show ?thesis by blast
qed

section \<open>Properties\<close>

text \<open>Plugins with one name can restart each other without end: when an alias gives two device types
  one name, and the files their health checks watch are there, then there is an endless run of
  \<open>plugin_step\<close>, where every call succeeds, no one else touches a file and the kubelet opens a stream
  after each restart, in which both plugins ask the kubelet for registration more and more often.
  Each start removes the socket of the other, whose health check takes it for a restart of the
  kubelet.\<close>

theorem alias_plugins_restart_forever:
  assumes "node_init [(name, path, ids), (name, path', ids')] N"
    and "list_all (present (insert (DevicePluginPath @ socket_name name) (n_files N)))
      (todo_of [(name, path, ids), (name, path', ids')])"
  shows "\<exists>run. run 0 = N \<and> (\<forall>k. plugin_step\<^sup>*\<^sup>* (run k) (run (Suc k))) \<and>
    (\<forall>k. length (n_plugins (run (Suc k))) = 2 \<and> k \<le> length (registrations (m_trace (machine_of (run (Suc k)) 0))) \<and>
      k \<le> length (registrations (m_trace (machine_of (run (Suc k)) 1))))"
proof -
  let ?dp = "\<lambda>path ids. NewGenericDevicePlugin name path (fresh_devices ids)"
  have t: "n_plugins N = []" "n_todo N = [?dp path ids, ?dp path' ids']" using assms(1) by (simp_all add: node_init_def todo_of_def)
  have n: "\<not> server (?dp p i)" "term_buf (?dp p i) = []" for p i by (simp_all add: NewGenericDevicePlugin_def)
  obtain N1 where 1: "plugin_step\<^sup>*\<^sup>* N N1" "fight (DevicePluginPath @ socket_name name) 0 1 N1" "length (n_plugins N1) = 2"
    using aliases_fight [OF t n(1) n(1) n(2) n(2) socketPath_New socketPath_New] assms(2) by (auto simp: todo_of_def)
  obtain f where f: "f 0 = N1" "\<forall>k. plugin_step\<^sup>*\<^sup>* (f k) (f (Suc k))" "\<forall>k. length (n_plugins (f k)) = length (n_plugins N1)"
    "\<forall>k. regs (f k) 0 = k + regs N1 0" "\<forall>k. regs (f k) 1 = k + regs N1 1"
    using fight_goes_on [OF 1(2)] by metis
  have "plugin_step\<^sup>*\<^sup>* (case_nat N f k) (case_nat N f (Suc k))" for k using 1(1) f(1,2) by (cases k) simp_all
  with f(3) 1(3) f(4,5) [unfolded regs_def] show ?thesis by (intro exI [of _ "case_nat N f"]) simp
qed

lemma pgpu_sock: "DevicePluginPath @ socket_name ''pgpu'' = sample_sock"
  by (simp add: DevicePluginPath_def socket_name_def)

lemma sample_pair_present:
  assumes "x = ''1'' \<or> x = ''2''"
  shows "present {sample_sock, sample_sockets, ''/dev/vfio/1'', ''/dev/vfio/2''}
    (NewGenericDevicePlugin ''pgpu'' ''/dev/vfio/'' (fresh_devices [x]))"
proof -
  have "spec_fit (''pgpu'', ''/dev/vfio/'', [x])" using assms by (auto simp: spec_fit_def simple_name_def)
  from spec_setting [OF this] have "\<exists>ds. setting ds (NewGenericDevicePlugin ''pgpu'' ''/dev/vfio/'' (fresh_devices [x]))" .
  moreover have "\<not> iommufd_on {sample_sock, sample_sockets, ''/dev/vfio/1'', ''/dev/vfio/2''}"
    by (simp add: iommufd_on_def sample_paths)
  moreover have "Join [''/dev/vfio/'', ''2''] = ''/dev/vfio/2''" by code_simp
  moreover have "sockets_dir = sample_sockets" by (simp add: rooted_def socket_dir_def)
  ultimately show ?thesis
    using assms unfolding present_def
    by (auto simp: NewGenericDevicePlugin_def fresh_devices_def device_file_def sample_paths)
qed

theorem alias_plugins_restart_forever_witness:
  "\<exists>run. node_init [(''pgpu'', ''/dev/vfio/'', [''1'']), (''pgpu'', ''/dev/vfio/'', [''2''])] (run 0) \<and>
     (\<forall>k. plugin_step\<^sup>*\<^sup>* (run k) (run (Suc k)) \<and> k \<le> length (registrations (m_trace (machine_of (run (Suc k)) 0))))"
proof -
  let ?specs = "[(''pgpu'', ''/dev/vfio/'', [''1'']), (''pgpu'', ''/dev/vfio/'', [''2''])]"
  let ?N = "\<lparr>n_files = {sample_sockets, ''/dev/vfio/1'', ''/dev/vfio/2''}, n_plugins = [], n_todo = todo_of ?specs, n_ops = []\<rparr>"
  have i: "node_init ?specs ?N" by (simp add: node_init_def)
  have "list_all (present (insert (DevicePluginPath @ socket_name ''pgpu'') (n_files ?N))) (todo_of ?specs)"
    unfolding pgpu_sock using sample_pair_present [of "''1''"] sample_pair_present [of "''2''"] by (simp add: todo_of_def)
  from alias_plugins_restart_forever [OF i this] obtain run where "run 0 = ?N"
    "\<forall>k. plugin_step\<^sup>*\<^sup>* (run k) (run (Suc k))" "\<forall>k. k \<le> length (registrations (m_trace (machine_of (run (Suc k)) 0)))" by blast
  with i show ?thesis by (intro exI [of _ run]) simp
qed

end
