(* ===== verification/Sysfs.thy ===== *)
theory Sysfs
  imports Discovery
begin

text \<open>
  How the vendored package nvpci reads the devices from sysfs (\<^verbatim>\<open>GetAllDevices\<close>): the attribute
  files of every device on the bus, its driver, IOMMU group and VFIO handle, and whether it is
  a function of another device. The file system and the database of names are arguments. Of
  the fields the program does not read, only the errors their files can cause are kept. An
  error printed into the text of another is left out of the text.
\<close>

section \<open>Numbers\<close>

text \<open>\<^verbatim>\<open>strconv.ParseUint\<close>, where base 0 means by prefix; the value is not wrapped, as it is
  compared with the maximum at every digit.\<close>

datatype parsed = Num nat | BadSyntax | OutOfRange

definition lower_code :: "char \<Rightarrow> nat" where
  "lower_code c = or (of_char c) 32"

definition digit_of :: "char \<Rightarrow> nat option" where
  "digit_of c = (if is_digit c then Some (of_char c - 48)
     else if 97 \<le> lower_code c \<and> lower_code c \<le> 122 then Some (lower_code c - 87) else None)"

fun parse_digits :: "bool \<Rightarrow> nat \<Rightarrow> nat \<Rightarrow> nat \<Rightarrow> string \<Rightarrow> parsed" where
  "parse_digits base0 base mx n [] = Num n"
| "parse_digits base0 base mx n (c # cs) =
     (if c = CHR ''_'' \<and> base0 then parse_digits base0 base mx n cs
      else (case digit_of c of
          None \<Rightarrow> BadSyntax
        | Some d \<Rightarrow> if base \<le> d then BadSyntax
            else if mx < n * base + d then OutOfRange
            else parse_digits base0 base mx (n * base + d) cs))"

text \<open>\<^verbatim>\<open>underscoreOK\<close>: underscores only between digits, where a prefix counts as a digit. The state
  is the kind of the character before.\<close>

datatype seen = At_start | At_digit | At_underscore | At_other

fun underscores_from :: "bool \<Rightarrow> seen \<Rightarrow> string \<Rightarrow> bool" where
  "underscores_from hex i [] = (i \<noteq> At_underscore)"
| "underscores_from hex i (c # cs) =
     (if is_digit c \<or> hex \<and> 97 \<le> lower_code c \<and> lower_code c \<le> 102 then underscores_from hex At_digit cs
      else if c = CHR ''_'' then i = At_digit \<and> underscores_from hex At_underscore cs
      else i \<noteq> At_underscore \<and> underscores_from hex At_other cs)"

definition has_prefix_of :: "string \<Rightarrow> string \<Rightarrow> bool" where
  "has_prefix_of s ls \<longleftrightarrow> 2 \<le> length s \<and> s ! 0 = CHR ''0'' \<and> lower_code (s ! 1) \<in> of_char ` set ls"

definition underscoreOK :: "string \<Rightarrow> bool" where
  "underscoreOK s0 =
     (let s = (if s0 \<noteq> [] \<and> (hd s0 = CHR ''-'' \<or> hd s0 = CHR ''+'') then tl s0 else s0)
      in if has_prefix_of s ''box'' then underscores_from (has_prefix_of s ''x'') At_digit (drop 2 s)
         else underscores_from False At_start s)"

definition ParseUint :: "string \<Rightarrow> nat \<Rightarrow> nat \<Rightarrow> parsed" where
  "ParseUint s base bitSize =
     (if s = [] then BadSyntax
      else
        let (b, digits) =
          (if base \<noteq> 0 then (base, s)
           else if hd s \<noteq> CHR ''0'' then (10, s)
           else if 3 \<le> length s \<and> has_prefix_of s ''b'' then (2, drop 2 s)
           else if 3 \<le> length s \<and> has_prefix_of s ''o'' then (8, drop 2 s)
           else if 3 \<le> length s \<and> has_prefix_of s ''x'' then (16, drop 2 s)
           else (8, tl s))
        in (case parse_digits (base = 0) b (2 ^ bitSize - 1) 0 digits of
              Num n \<Rightarrow> if base = 0 \<and> CHR ''_'' \<in> set digits \<and> \<not> underscoreOK s then BadSyntax else Num n
            | r \<Rightarrow> r))"

text \<open>\<^verbatim>\<open>strconv.ParseInt(s, 0, 64)\<close>; \<open>None\<close> is an error.\<close>

definition ParseInt64 :: "string \<Rightarrow> go_int option" where
  "ParseInt64 s = (if s = [] then None
     else case split_sign s of (neg, ds) \<Rightarrow> (case ParseUint ds 0 64 of
         Num n \<Rightarrow> if neg \<and> n \<le> 2 ^ 63 then Some (- of_nat n)
           else if \<not> neg \<and> n < 2 ^ 63 then Some (of_nat n) else None
       | _ \<Rightarrow> None))"

text \<open>\<^verbatim>\<open>strings.TrimSpace\<close> and \<^verbatim>\<open>strings.Split\<close> at one character, on ASCII text.\<close>

definition ascii_space :: "char \<Rightarrow> bool" where
  "ascii_space c \<longleftrightarrow> is_space c \<or> c = CHR 11"

definition TrimSpace :: "string \<Rightarrow> string" where
  "TrimSpace s = rev (dropWhile ascii_space (rev (dropWhile ascii_space s)))"

fun Split_char :: "char \<Rightarrow> string \<Rightarrow> string list" where
  "Split_char sep [] = [[]]"
| "Split_char sep (c # cs) =
     (if c = sep then [] # Split_char sep cs
      else (case Split_char sep cs of [] \<Rightarrow> [[c]] | x # xs \<Rightarrow> (c # x) # xs))"

section \<open>Attributes of a device\<close>

text \<open>Entries of a directory have a name and whether they are directories; \<^verbatim>\<open>os.ReadDir\<close> sorts them.\<close>

record sysfs =
  sf_ReadDir :: "string \<Rightarrow> (string \<times> bool) list result"
  sf_ReadFile :: "string \<Rightarrow> string result"
  sf_Stat :: stat_fn
  sf_EvalSymlinks :: "string \<Rightarrow> string result"
  sf_names :: "16 word \<Rightarrow> 16 word \<Rightarrow> string result"

definition PCIDevicesRoot :: string where "PCIDevicesRoot = ''/sys/bus/pci/devices''"
definition PCINvidiaVendorID :: "16 word" where "PCINvidiaVendorID = 0x10de"
definition PCIMellanoxVendorID :: "16 word" where "PCIMellanoxVendorID = 0x15b3"
definition UnknownDeviceString :: string where "UnknownDeviceString = ''UNKNOWN_DEVICE''"

definition readPCIFieldString :: "sysfs \<Rightarrow> string \<Rightarrow> string \<Rightarrow> string result" where
  "readPCIFieldString h devicePath field = (case sf_ReadFile h (Join [devicePath, field]) of
      Inl err \<Rightarrow> Inl (Wrapf (''unable to read PCI '' @ field @ '' for '' @ devicePath) err)
    | Inr raw \<Rightarrow> Inr (TrimSpace raw))"

definition readPCIField :: "sysfs \<Rightarrow> string \<Rightarrow> string \<Rightarrow> nat \<Rightarrow> nat result" where
  "readPCIField h devicePath field bitSize = (case readPCIFieldString h devicePath field of
      Inl err \<Rightarrow> Inl err
    | Inr str \<Rightarrow> (case ParseUint str 0 bitSize of
        Num val \<Rightarrow> Inr val
      | _ \<Rightarrow> Inl (Wrapf (''unable to parse PCI '' @ field @ '' for '' @ devicePath) (Errorf ''strconv.ParseUint''))))"

text \<open>A field whose file may be missing: then it is 0.\<close>

definition readPCIFieldOptional :: "sysfs \<Rightarrow> string \<Rightarrow> string \<Rightarrow> nat \<Rightarrow> nat result" where
  "readPCIFieldOptional h devicePath field bitSize = (case readPCIField h devicePath field bitSize of
      Inl err \<Rightarrow> if is_not_exist err then Inr 0 else Inl err
    | Inr n \<Rightarrow> Inr n)"

definition getDriver :: "sysfs \<Rightarrow> string \<Rightarrow> string result" where
  "getDriver h devicePath = (case sf_EvalSymlinks h (Join [devicePath, ''driver'']) of
      Inl err \<Rightarrow> if is_not_exist err then Inr [] else Inl err
    | Inr driver \<Rightarrow> Inr (Base driver))"

definition getIOMMUGroup :: "sysfs \<Rightarrow> string \<Rightarrow> go_int result" where
  "getIOMMUGroup h devicePath = (case sf_EvalSymlinks h (Join [devicePath, ''iommu_group'']) of
      Inl err \<Rightarrow> if is_not_exist err then Inr (- 1) else Inl err
    | Inr iommu \<Rightarrow> (case ParseInt64 (TrimSpace (Base iommu)) of
        None \<Rightarrow> Inl (Errorf ''unable to convert iommu_group string to int64'')
      | Some n \<Rightarrow> Inr n))"

fun first_vfio :: "(string \<times> bool) list \<Rightarrow> string result" where
  "first_vfio [] = Inl (Errorf ''no iommufd device found'')"
| "first_vfio ((name, isdir) # cs) =
     (if \<not> isdir then first_vfio cs
      else if HasPrefix name ''vfio'' then Inr name else first_vfio cs)"

definition getIOMMUFD :: "sysfs \<Rightarrow> string \<Rightarrow> string result" where
  "getIOMMUFD h devicePath = (case sf_ReadDir h (Join [devicePath, ''vfio-dev'']) of
      Inl err \<Rightarrow> Inl err
    | Inr content \<Rightarrow> first_vfio content)"

datatype sriov = NoSriov | PhysicalFunction nat nat | VirtualFunction "pci_device option"

definition getSriovInfoForPhysicalFunction :: "sysfs \<Rightarrow> string \<Rightarrow> sriov result" where
  "getSriovInfoForPhysicalFunction h devicePath =
     (if (case sf_Stat h (Join [devicePath, ''sriov_totalvfs'']) of Some err \<Rightarrow> is_not_exist err | None \<Rightarrow> False) then Inr NoSriov
      else (case readPCIField h devicePath ''sriov_totalvfs'' 16 of
          Inl err \<Rightarrow> Inl err
        | Inr totalVFs \<Rightarrow> (case readPCIField h devicePath ''sriov_numvfs'' 16 of
            Inl err \<Rightarrow> Inl err
          | Inr numVFs \<Rightarrow> Inr (PhysicalFunction totalVFs numVFs))))"

definition resource_lines_ok :: "string \<Rightarrow> bool" where
  "resource_lines_ok raw \<longleftrightarrow> list_all (\<lambda>line. length (Split_char (CHR '' '') line) = 3) (Split_char (CHR 10) (TrimSpace raw))"

text \<open>
  All of a device but its SR-IOV details: \<open>Inr None\<close> where it is of another vendor. The order of
  the reads is the code's, as the first error is returned.
\<close>

definition and_then :: "'a result \<Rightarrow> ('a \<Rightarrow> 'b result) \<Rightarrow> 'b result" where
  "and_then r f = (case r of Inl err \<Rightarrow> Inl err | Inr x \<Rightarrow> f x)"

definition wrapped :: "string \<Rightarrow> 'a result \<Rightarrow> 'a result" where
  "wrapped msg r = (case r of Inl err \<Rightarrow> Inl (Wrapf msg err) | Inr x \<Rightarrow> Inr x)"

definition parse_numa :: "string \<Rightarrow> string \<Rightarrow> go_int result" where
  "parse_numa devicePath numaStr = (case ParseInt64 numaStr of
      None \<Rightarrow> Inl (Errorf (''unable to parse PCI numa_node for '' @ devicePath)) | Some n \<Rightarrow> Inr n)"

definition read_resources :: "sysfs \<Rightarrow> string \<Rightarrow> unit result" where
  "read_resources h address = (case sf_ReadFile h (Join [Join [PCIDevicesRoot, address], ''resource'']) of
      Inl err \<Rightarrow> Inl (Errorf (''unable to read PCI resource file for '' @ address))
    | Inr raw \<Rightarrow> if resource_lines_ok raw then Inr () else Inl (Errorf ''more than 3 entries in line of resource file''))"

definition read_device :: "sysfs \<Rightarrow> string \<Rightarrow> pci_device option result" where
  "read_device h address = (let devicePath = Join [PCIDevicesRoot, address] in
     and_then (readPCIField h devicePath ''vendor'' 16) (\<lambda>vendorID.
     if of_nat vendorID \<noteq> PCINvidiaVendorID \<and> of_nat vendorID \<noteq> PCIMellanoxVendorID then Inr None
     else and_then (readPCIField h devicePath ''class'' 32) (\<lambda>classID.
     and_then (readPCIField h devicePath ''device'' 16) (\<lambda>deviceID.
     and_then (readPCIFieldString h devicePath ''numa_node'') (\<lambda>numaStr.
     and_then (parse_numa devicePath numaStr) (\<lambda>numaNode.
     and_then (readPCIFieldOptional h devicePath ''subsystem_vendor'' 16) (\<lambda>subsystemVendorID.
     and_then (readPCIFieldOptional h devicePath ''subsystem_device'' 16) (\<lambda>subsystemDeviceID.
     and_then (wrapped (''unable to detect driver for '' @ address) (getDriver h devicePath)) (\<lambda>driver.
     and_then (wrapped (''unable to detect IOMMU group for '' @ address) (getIOMMUGroup h devicePath)) (\<lambda>iommuGroup.
     and_then (read_resources h address) (\<lambda>_.
     Inr (Some \<lparr>pci_Address = address, pci_Vendor = of_nat vendorID, pci_Class = of_nat classID, pci_Device = of_nat deviceID,
       pci_DeviceName = (case sf_names h (of_nat vendorID) (of_nat deviceID) of Inl err \<Rightarrow> UnknownDeviceString | Inr n \<Rightarrow> n),
       pci_Driver = driver, pci_IommuGroup = iommuGroup,
       pci_IommuFD = (case getIOMMUFD h devicePath of Inl err \<Rightarrow> [] | Inr fd \<Rightarrow> fd)\<rparr>))))))))))))"

section \<open>All devices\<close>

text \<open>
  A virtual function leads to its physical function, which is read as well; \<open>None\<close>: the links go
  on for ever. The cache holds the physical functions read so far.
\<close>

type_synonym device_entry = "pci_device \<times> sriov"
type_synonym device_cache = "(string, device_entry) fmap"

definition IsPF :: "sriov \<Rightarrow> bool" where
  "IsPF s \<longleftrightarrow> (case s of PhysicalFunction _ _ \<Rightarrow> True | _ \<Rightarrow> False)"

definition after_physfn :: "string \<Rightarrow> pci_device \<Rightarrow> (device_entry option \<times> device_cache) result \<Rightarrow>
    (device_entry option \<times> device_cache) result option" where
  "after_physfn address dev r = Some (case r of
      Inl err \<Rightarrow> Inl (Errorf (''unable to detect physfn for '' @ address))
    | Inr (physFn, cache) \<Rightarrow> Inr (Some (dev, VirtualFunction (map_option fst physFn)), cache))"

definition as_physical :: "sysfs \<Rightarrow> string \<Rightarrow> pci_device \<Rightarrow> device_cache \<Rightarrow> (device_entry option \<times> device_cache) result" where
  "as_physical h address dev cache = (case getSriovInfoForPhysicalFunction h (Join [PCIDevicesRoot, address]) of
      Inl err \<Rightarrow> Inl (Errorf (''unable to read SRIOV physical function details for '' @ Join [PCIDevicesRoot, address]))
    | Inr s \<Rightarrow> Inr (Some (dev, s), if IsPF s then fmupd address (dev, s) cache else cache))"

partial_function (option) getNvidiaDeviceByPciBusID ::
    "sysfs \<Rightarrow> string \<Rightarrow> device_cache \<Rightarrow> (device_entry option \<times> device_cache) result option" where
  "getNvidiaDeviceByPciBusID h address cache =
     (case fmlookup cache address of
        Some d \<Rightarrow> Some (Inr (Some d, cache))
      | None \<Rightarrow> (case read_device h address of
          Inl err \<Rightarrow> Some (Inl err)
        | Inr None \<Rightarrow> Some (Inr (None, cache))
        | Inr (Some dev) \<Rightarrow> (case sf_EvalSymlinks h (Join [Join [PCIDevicesRoot, address], ''physfn'']) of
            Inr physFnAddress \<Rightarrow>
              Option.bind (getNvidiaDeviceByPciBusID h (Base physFnAddress) cache) (after_physfn address dev)
          | Inl err \<Rightarrow> Some (if is_not_exist err then as_physical h address dev cache
              else Inl (Errorf (''unable to read '' @ Join [Join [PCIDevicesRoot, address], ''physfn'']))))))"

definition addressToID :: "string \<Rightarrow> nat" where
  "addressToID address =
     (case ParseUint (filter (\<lambda>c. c \<noteq> CHR ''.'') (filter (\<lambda>c. c \<noteq> CHR '':'') address)) 16 64 of
        Num n \<Rightarrow> n | BadSyntax \<Rightarrow> 0 | OutOfRange \<Rightarrow> 2 ^ 64 - 1)"

fun devices_in :: "sysfs \<Rightarrow> (string \<times> bool) list \<Rightarrow> device_cache \<Rightarrow> device_entry list result option" where
  "devices_in h [] cache = Some (Inr [])"
| "devices_in h ((deviceAddress, _) # ds) cache =
     (case getNvidiaDeviceByPciBusID h deviceAddress cache of
        None \<Rightarrow> None
      | Some (Inl err) \<Rightarrow> Some (Inl (Errorf (''error constructing NVIDIA PCI device '' @ deviceAddress)))
      | Some (Inr (nvdevice, cache1)) \<Rightarrow>
          (case devices_in h ds cache1 of
             Some (Inr nvdevices) \<Rightarrow> Some (Inr (case nvdevice of None \<Rightarrow> nvdevices | Some d \<Rightarrow> d # nvdevices))
           | r \<Rightarrow> r))"

text \<open>\<^verbatim>\<open>sort.Slice\<close> is not stable; this stable sort is one of its possible results.\<close>

definition sort_devices :: "device_entry list \<Rightarrow> device_entry list" where
  "sort_devices = sort_key (\<lambda>d. int (addressToID (pci_Address (fst d))))"

definition GetAllDevices :: "sysfs \<Rightarrow> device_entry list result option" where
  "GetAllDevices h = (case sf_ReadDir h PCIDevicesRoot of
      Inl err \<Rightarrow> Some (Inl (Errorf ''unable to read PCI bus devices''))
    | Inr deviceDirs \<Rightarrow> map_option (map_sum id sort_devices) (devices_in h deviceDirs fmempty))"

interpretation device_sorter: slice_sorter sort_devices "\<lambda>d. int (addressToID (pci_Address (fst d)))"
  by unfold_locales (simp_all add: sort_devices_def)

section \<open>What is read\<close>

text \<open>The devices the program sees; a cache is sound when it holds what would be read.\<close>

definition discovered :: "sysfs \<Rightarrow> pci_device list result option" where
  "discovered h = map_option (map_sum id (map fst)) (GetAllDevices h)"

definition cache_sound :: "sysfs \<Rightarrow> device_cache \<Rightarrow> bool" where
  "cache_sound h cache \<longleftrightarrow> (\<forall>a d. fmlookup cache a = Some d \<longrightarrow> read_device h a = Inr (Some (fst d)))"

lemma cache_sound_empty [simp]: "cache_sound h fmempty"
  by (simp add: cache_sound_def)

definition sound_result :: "sysfs \<Rightarrow> string \<Rightarrow> (device_entry option \<times> device_cache) result \<Rightarrow> bool" where
  "sound_result h a r \<longleftrightarrow> (case r of Inl err \<Rightarrow> True
     | Inr (d, cache) \<Rightarrow> read_device h a = Inr (map_option fst d) \<and> cache_sound h cache)"

lemma sound_physical: "cache_sound h cache \<Longrightarrow> read_device h a = Inr (Some dev) \<Longrightarrow> sound_result h a (as_physical h a dev cache)"
  by (auto simp: sound_result_def as_physical_def cache_sound_def split: sum.splits if_splits)

lemma sound_virtual:
  "sound_result h b x \<Longrightarrow> read_device h a = Inr (Some dev) \<Longrightarrow> after_physfn a dev x = Some r \<Longrightarrow> sound_result h a r"
  by (auto simp: sound_result_def after_physfn_def split: sum.splits)

lemma fetch_sound:
  assumes "getNvidiaDeviceByPciBusID h a cache = Some r"
  shows "cache_sound h cache \<longrightarrow> sound_result h a r"
proof (rule getNvidiaDeviceByPciBusID.raw_induct [where P = "\<lambda>h a cache r. cache_sound h cache \<longrightarrow> sound_result h a r", OF _ assms])
  fix get :: "sysfs \<Rightarrow> string \<Rightarrow> device_cache \<Rightarrow> (device_entry option \<times> device_cache) result option" and h a cache r
  assume ih: "\<And>h a cache r. get h a cache = Some r \<Longrightarrow> cache_sound h cache \<longrightarrow> sound_result h a r"
  assume r: "(case fmlookup cache a of
        Some d \<Rightarrow> Some (Inr (Some d, cache))
      | None \<Rightarrow> (case read_device h a of
          Inl err \<Rightarrow> Some (Inl err)
        | Inr None \<Rightarrow> Some (Inr (None, cache))
        | Inr (Some dev) \<Rightarrow> (case sf_EvalSymlinks h (Join [Join [PCIDevicesRoot, a], ''physfn'']) of
            Inr physFnAddress \<Rightarrow> Option.bind (get h (Base physFnAddress) cache) (after_physfn a dev)
          | Inl err \<Rightarrow> Some (if is_not_exist err then as_physical h a dev cache
              else Inl (Errorf (''unable to read '' @ Join [Join [PCIDevicesRoot, a], ''physfn''])))))) = Some r"
  show "cache_sound h cache \<longrightarrow> sound_result h a r"
  proof
    assume c: "cache_sound h cache"
    consider d where "fmlookup cache a = Some d" "r = Inr (Some d, cache)" | "\<exists>err. r = Inl err"
      | "read_device h a = Inr None" "r = Inr (None, cache)"
      | dev where "read_device h a = Inr (Some dev)" "r = as_physical h a dev cache"
      | dev link x where "read_device h a = Inr (Some dev)" "get h (Base link) cache = Some x" "after_physfn a dev x = Some r"
      using r by (auto simp: bind_eq_Some_conv split: option.splits sum.splits if_splits)
    then show "sound_result h a r"
    proof cases
      case (5 dev link x)
      from sound_virtual [OF ih [OF 5(2), rule_format, OF c] 5(1,3)] show ?thesis .
    qed (use c sound_physical in \<open>auto simp: sound_result_def cache_sound_def\<close>)
  qed
qed

text \<open>The list before it is sorted: what the entries of the directory give, in their order.\<close>

definition own_devices :: "sysfs \<Rightarrow> (string \<times> bool) list \<Rightarrow> pci_device list" where
  "own_devices h dirs = List.map_filter (\<lambda>(a, _). case read_device h a of Inl err \<Rightarrow> None | Inr d \<Rightarrow> d) dirs"

lemma devices_in_own:
  assumes "devices_in h dirs cache = Some (Inr ds)" and "cache_sound h cache"
  shows "map fst ds = own_devices h dirs \<and> list_all (\<lambda>(a, _). \<not> isl (read_device h a)) dirs"
  using assms
proof (induction dirs arbitrary: cache ds)
  case (Cons e dirs)
  obtain a b where e: "e = (a, b)" by (cases e)
  obtain d cache1 ds1 where 1: "getNvidiaDeviceByPciBusID h a cache = Some (Inr (d, cache1))"
    and 2: "devices_in h dirs cache1 = Some (Inr ds1)" "ds = (case d of None \<Rightarrow> ds1 | Some x \<Rightarrow> x # ds1)"
    using Cons.prems(1) by (auto simp: e split: option.splits sum.splits)
  have "read_device h a = Inr (map_option fst d)" "cache_sound h cache1" using fetch_sound [OF 1] Cons.prems(2) by (simp_all add: sound_result_def)
  with Cons.IH [OF 2(1)] 2(2) show ?case
    by (auto simp: e own_devices_def List.map_filter_def split: option.splits)
qed (simp add: own_devices_def List.map_filter_def)

lemma devices_in_bad:
  assumes "devices_in h dirs cache = Some r" and "cache_sound h cache" and "(a, b) \<in> set dirs" and "read_device h a = Inl err"
  shows "\<exists>err. r = Inl err"
proof (cases r)
  case (Inr ds)
  with devices_in_own [of h dirs cache ds] assms show ?thesis by (auto simp: list_all_iff)
qed simp

text \<open>Where every physical function is no function of another device, every read returns.\<close>

definition flat :: "sysfs \<Rightarrow> bool" where
  "flat h \<longleftrightarrow> (\<forall>a link. sf_EvalSymlinks h (Join [Join [PCIDevicesRoot, a], ''physfn'']) = Inr link \<longrightarrow>
     (\<exists>err. sf_EvalSymlinks h (Join [Join [PCIDevicesRoot, Base link], ''physfn'']) = Inl err))"

lemma fetch_physical:
  "sf_EvalSymlinks h (Join [Join [PCIDevicesRoot, a], ''physfn'']) = Inl err \<Longrightarrow> \<exists>r. getNvidiaDeviceByPciBusID h a cache = Some r"
  by (subst getNvidiaDeviceByPciBusID.simps) (auto split: option.splits sum.splits)

lemma fetch_returns:
  assumes "flat h"
  shows "\<exists>r. getNvidiaDeviceByPciBusID h a cache = Some r"
proof (cases "sf_EvalSymlinks h (Join [Join [PCIDevicesRoot, a], ''physfn''])")
  case (Inl err)
  then show ?thesis by (rule fetch_physical)
next
  case (Inr link)
  then obtain err where "sf_EvalSymlinks h (Join [Join [PCIDevicesRoot, Base link], ''physfn'']) = Inl err"
    using assms unfolding flat_def by blast
  from fetch_physical [OF this, of cache] obtain r where "getNvidiaDeviceByPciBusID h (Base link) cache = Some r" by blast
  with Inr show ?thesis
    by (subst getNvidiaDeviceByPciBusID.simps) (auto simp: after_physfn_def split: option.splits sum.splits)
qed

lemma devices_in_returns: "flat h \<Longrightarrow> \<exists>r. devices_in h dirs cache = Some r"
proof (induction dirs arbitrary: cache)
  case (Cons e dirs)
  obtain a b where e: "e = (a, b)" by (cases e)
  obtain r where r: "getNvidiaDeviceByPciBusID h a cache = Some r" using fetch_returns [OF Cons.prems] by blast
  show ?case
  proof (cases r)
    case (Inr p)
    with r Cons.IH [OF Cons.prems, of "snd p"] show ?thesis by (auto simp: e split: prod.splits sum.splits option.splits)
  qed (simp add: e r)
qed simp

lemma discovery_returns: "flat h \<Longrightarrow> discovered h \<noteq> None"
  using devices_in_returns [of h _ fmempty] by (auto simp: discovered_def GetAllDevices_def split: sum.splits)

section \<open>Errors and odd devices in the maps\<close>

lemma discovered_Inr:
  assumes "discovered h = Some (Inr ds)"
  shows "\<exists>dirs. sf_ReadDir h PCIDevicesRoot = Inr dirs \<and> mset ds = mset (own_devices h dirs) \<and>
    list_all (\<lambda>(a, _). \<not> isl (read_device h a)) dirs \<and> sorted (map (\<lambda>d. int (addressToID (pci_Address d))) ds)"
proof -
  obtain dirs es where d: "sf_ReadDir h PCIDevicesRoot = Inr dirs" "devices_in h dirs fmempty = Some (Inr es)"
    "ds = map fst (sort_devices es)"
    using assms by (auto simp: discovered_def GetAllDevices_def split: sum.splits)
      (metis (no_types, lifting) map_sum.simps(1) map_sum.simps(2) old.sum.exhaust sum.distinct(1) sum.inject(2))
  note own = devices_in_own [OF d(2) cache_sound_empty]
  have "mset ds = mset (own_devices h dirs)"
    using own device_sorter.srt_mset [of es] by (metis d(3) mset_map)
  moreover have "sorted (map (\<lambda>d. int (addressToID (pci_Address d))) ds)"
    using device_sorter.srt_sorted [of es] by (simp add: d(3) comp_def)
  ultimately show ?thesis using d(1) own by blast
qed

lemma discovered_bad:
  assumes "discovered h = Some r" and "sf_ReadDir h PCIDevicesRoot = Inr dirs" and "(a, b) \<in> set dirs" and "read_device h a = Inl err"
  shows "\<exists>err. r = Inl err"
proof -
  obtain r' where r': "devices_in h dirs fmempty = Some r'" "r = map_sum id (map fst) (map_sum id sort_devices r')"
    using assms(1,2) by (auto simp: discovered_def GetAllDevices_def)
  from devices_in_bad [OF r'(1) cache_sound_empty assms(3,4)] r'(2) show ?thesis by auto
qed

section \<open>A sample bus\<close>

text \<open>One device, with the contents of its files and the targets of its links by name.\<close>

abbreviation sample_address :: string where
  "sample_address \<equiv> ''0000:01:00.0''"

definition found :: "(string \<times> string) list \<Rightarrow> string \<Rightarrow> string result" where
  "found xs p = (case map_of xs (Base p) of None \<Rightarrow> Inl ErrNotExist | Some x \<Rightarrow> Inr x)"

definition one_device :: "(string \<times> string) list \<Rightarrow> (string \<times> string) list \<Rightarrow> sysfs" where
  "one_device fs ls = \<lparr>sf_ReadDir = (\<lambda>p. if p = PCIDevicesRoot then Inr [(sample_address, False)] else Inl ErrNotExist),
     sf_ReadFile = found fs, sf_Stat = (\<lambda>p. Some ErrNotExist), sf_EvalSymlinks = found ls, sf_names = (\<lambda>v d. Inr ''A device'')\<rparr>"

definition sample_files_of :: "string \<Rightarrow> string \<Rightarrow> (string \<times> string) list" where
  "sample_files_of vendor cls = [(''vendor'', vendor), (''class'', cls), (''device'', ''0x2331'' @ [CHR 10]),
     (''numa_node'', ''-1'' @ [CHR 10]), (''resource'', ''0x1 0x2 0x3'' @ [CHR 10])]"

definition sample_links :: "(string \<times> string) list" where
  "sample_links = [(''driver'', ''/sys/bus/pci/drivers/vfio-pci'')]"

lemma sample_root: "Join [PCIDevicesRoot, sample_address] = ''/sys/bus/pci/devices/0000:01:00.0''"
  by code_simp

abbreviation sample_path :: "string \<Rightarrow> string" where
  "sample_path f \<equiv> Join [''/sys/bus/pci/devices/0000:01:00.0'', f]"

lemma sample_bases [simp]:
  "Base (sample_path ''vendor'') = ''vendor''" "Base (sample_path ''class'') = ''class''"
  "Base (sample_path ''device'') = ''device''" "Base (sample_path ''numa_node'') = ''numa_node''"
  "Base (sample_path ''subsystem_vendor'') = ''subsystem_vendor''"
  "Base (sample_path ''subsystem_device'') = ''subsystem_device''"
  "Base (sample_path ''driver'') = ''driver''" "Base (sample_path ''iommu_group'') = ''iommu_group''"
  "Base (sample_path ''resource'') = ''resource''" "Base (sample_path ''physfn'') = ''physfn''"
  "Base ''/sys/bus/pci/drivers/vfio-pci'' = ''vfio-pci''"
  by code_simp+

lemmas parse_defs = ParseUint_def has_prefix_of_def lower_code_def digit_of_def is_digit_def

lemma sample_numbers:
  "ParseUint ''0x15b3'' 0 16 = Num 0x15b3" "ParseUint ''0x068000'' 0 32 = Num 0x068000"
  "ParseUint ''0x2331'' 0 16 = Num 0x2331" "ParseUint ''1'' 0 64 = Num 1"
  by (simp_all add: parse_defs)

lemma sample_trims:
  "TrimSpace (''0x15b3'' @ [CHR 10]) = ''0x15b3''" "TrimSpace (''0x068000'' @ [CHR 10]) = ''0x068000''"
  "TrimSpace (''0x2331'' @ [CHR 10]) = ''0x2331''" "TrimSpace (''-1'' @ [CHR 10]) = ''-1''"
  by (simp_all add: TrimSpace_def ascii_space_def is_space_def)

lemma sample_parsed: "ParseInt64 ''-1'' = Some (- 1)" "resource_lines_ok (''0x1 0x2 0x3'' @ [CHR 10])"
  by (simp_all add: ParseInt64_def split_sign_def sample_numbers resource_lines_ok_def TrimSpace_def ascii_space_def is_space_def)

definition sample_bridge :: pci_device where
  "sample_bridge = \<lparr>pci_Address = sample_address, pci_Vendor = 0x15b3, pci_Class = 0x068000, pci_Device = 0x2331,
     pci_DeviceName = ''A device'', pci_Driver = ''vfio-pci'', pci_IommuGroup = - 1, pci_IommuFD = []\<rparr>"

definition bridge_bus :: sysfs where
  "bridge_bus = one_device (sample_files_of (''0x15b3'' @ [CHR 10]) (''0x068000'' @ [CHR 10])) sample_links"

lemmas read_defs = readPCIFieldOptional_def readPCIField_def readPCIFieldString_def getDriver_def getIOMMUGroup_def
  getIOMMUFD_def read_resources_def parse_numa_def wrapped_def and_then_def one_device_def found_def

lemma read_bridge: "read_device bridge_bus sample_address = Inr (Some sample_bridge)"
  unfolding read_device_def sample_root Let_def
  by (simp add: bridge_bus_def read_defs sample_root sample_files_of_def sample_links_def sample_numbers sample_trims sample_parsed
      PCINvidiaVendorID_def PCIMellanoxVendorID_def sample_bridge_def del: append.simps)

lemma discovered_bridge: "discovered bridge_bus = Some (Inr [sample_bridge])"
proof -
  have l: "sf_EvalSymlinks bridge_bus (sample_path ''physfn'') = Inl ErrNotExist"
    by (simp add: bridge_bus_def one_device_def found_def sample_links_def)
  have "getSriovInfoForPhysicalFunction bridge_bus (Join [PCIDevicesRoot, sample_address]) = Inr NoSriov"
    by (simp add: getSriovInfoForPhysicalFunction_def bridge_bus_def one_device_def)
  then have "getNvidiaDeviceByPciBusID bridge_bus sample_address fmempty = Some (Inr (Some (sample_bridge, NoSriov), fmempty))"
    by (subst getNvidiaDeviceByPciBusID.simps) (simp add: read_bridge sample_root l as_physical_def IsPF_def)
  moreover have "sf_ReadDir bridge_bus PCIDevicesRoot = Inr [(sample_address, False)]" by (simp add: bridge_bus_def one_device_def)
  ultimately show ?thesis by (simp add: discovered_def GetAllDevices_def sort_devices_def)
qed

lemma discovered_unreadable: "discovered (one_device [] []) = Some (Inl (Errorf (''error constructing NVIDIA PCI device '' @ sample_address)))"
    and read_unreadable: "\<exists>err. read_device (one_device [] []) sample_address = Inl err"
proof -
  show r: "\<exists>err. read_device (one_device [] []) sample_address = Inl err"
    unfolding read_device_def sample_root Let_def by (simp add: read_defs)
  then obtain err where e: "read_device (one_device [] []) sample_address = Inl err" by blast
  have "getNvidiaDeviceByPciBusID (one_device [] []) sample_address fmempty = Some (Inl err)"
    by (subst getNvidiaDeviceByPciBusID.simps) (simp add: e)
  moreover have "sf_ReadDir (one_device [] []) PCIDevicesRoot = Inr [(sample_address, False)]" by (simp add: one_device_def)
  ultimately show "discovered (one_device [] []) = Some (Inl (Errorf (''error constructing NVIDIA PCI device '' @ sample_address)))"
    by (simp add: discovered_def GetAllDevices_def)
qed

section \<open>Properties\<close>

text \<open>C7. Discovery returns exactly what the files of each device say: when \<^verbatim>\<open>GetAllDevices\<close>
  succeeds, every device on the bus could be read, and the list holds, in the order of their
  addresses, the devices of the two vendors with the fields of their own files, each once. The
  cache of physical functions and the reading of functions through others change nothing.\<close>

theorem discovery_reads_every_device:
  assumes "discovered h = Some (Inr ds)" and "sf_ReadDir h PCIDevicesRoot = Inr dirs"
  shows "mset ds = mset (own_devices h dirs) \<and> sorted (map (\<lambda>d. int (addressToID (pci_Address d))) ds) \<and>
    list_all (\<lambda>(a, _). \<not> isl (read_device h a)) dirs"
  using discovered_Inr [OF assms(1)] assms(2) by auto

theorem discovery_reads_every_device_witness:
  "discovered bridge_bus = Some (Inr [sample_bridge]) \<and> own_devices bridge_bus [(sample_address, False)] = [sample_bridge]"
proof -
  have d: "sf_ReadDir bridge_bus PCIDevicesRoot = Inr [(sample_address, False)]" by (simp add: bridge_bus_def one_device_def)
  from discovery_reads_every_device [OF discovered_bridge d] discovered_bridge show ?thesis by simp
qed

text \<open>C18. One PCI device that cannot be read hides all others, whatever its vendor: when the vendor
  file of any device on the bus is unreadable, or another file of a device of the two vendors,
  discovery leaves both maps empty, so the node offers no device at all.\<close>

theorem one_bad_device_empties_discovery:
  assumes "discovered h = Some r" and "sf_ReadDir h PCIDevicesRoot = Inr dirs" and "(a, isdir) \<in> set dirs"
    and "read_device h a = Inl err" and "supportsIOMMUFD stat = Inr b"
  shows "iommuMap (createIommuDeviceMap stat r g) = fmempty \<and> deviceMap (createIommuDeviceMap stat r g) = fmempty"
  using discovered_bad [OF assms(1-4)] assms(5) by (auto simp: createIommuDeviceMap_def)

theorem one_bad_device_empties_discovery_witness:
  "\<exists>r. discovered (one_device [] []) = Some r \<and> deviceMap (createIommuDeviceMap no_iommufd r init_globals) = fmempty"
proof -
  obtain err where e: "read_device (one_device [] []) sample_address = Inl err" using read_unreadable by blast
  have d: "sf_ReadDir (one_device [] []) PCIDevicesRoot = Inr [(sample_address, False)]" by (simp add: one_device_def)
  from one_bad_device_empties_discovery [OF discovered_unreadable d _ e probe_samples(1)] discovered_unreadable
  show ?thesis by auto
qed

text \<open>C29. A bridge of another vendor is offered as an NVSwitch: nvpci accepts Mellanox devices, and
  the class of NVSwitches is that of any other bridge, so a Mellanox device of that class bound
  to vfio-pci is in the maps, its device ID counts as a switch's, and where it has no IOMMU
  group and no VFIO handle its key is -1.\<close>

theorem foreign_bridge_is_switch:
  assumes "discovered h = Some (Inr ds)" and "d \<in> set ds" and "pci_Vendor d = PCIMellanoxVendorID"
    and "pci_Class d = PCINvSwitchClass" and "pci_Driver d = ''vfio-pci''" and "supportsIOMMUFD stat = Inr b"
  shows "isNVSwitchDeviceID (createIommuDeviceMap stat (Inr ds) g) (hex4 (pci_Device d)) \<and>
    to_nv d \<in> set (get_slice (iommuMap (createIommuDeviceMap stat (Inr ds) g)) (iommu_key b d)) \<and>
    (pci_IommuGroup d = - 1 \<and> pci_IommuFD d = [] \<longrightarrow> iommu_key b d = ''-1'')"
proof -
  have sw: "IsNVSwitch d" using assms(4) by (simp add: IsNVSwitch_def)
  then have e: "eligible d" using assms(5) by (simp add: eligible_def)
  have "Itoa (- 1) = ''-1''" by code_simp
  with e sw assms(2) show ?thesis
    using create_spec(1) [OF assms(6), of ds g "iommu_key b d"] in_members [of "to_nv d" b ds "iommu_key b d"]
    by (auto simp: create_spec(3) [OF assms(6)] switch_ID_def get_slice_slice_opt iommu_key_def)
qed

theorem foreign_bridge_is_switch_witness:
  "discovered bridge_bus = Some (Inr [sample_bridge]) \<and>
   isNVSwitchDeviceID (createIommuDeviceMap no_iommufd (Inr [sample_bridge]) init_globals) (hex4 0x2331) \<and>
   iommu_key False sample_bridge = ''-1''"
proof -
  have h: "pci_Device sample_bridge = 0x2331" by (simp add: sample_bridge_def)
  have b: "pci_Vendor sample_bridge = PCIMellanoxVendorID" "pci_Class sample_bridge = PCINvSwitchClass"
    "pci_Driver sample_bridge = ''vfio-pci''" "pci_IommuGroup sample_bridge = - 1 \<and> pci_IommuFD sample_bridge = []"
    by (simp_all add: sample_bridge_def PCIMellanoxVendorID_def PCINvSwitchClass_def)
  have "sample_bridge \<in> set [sample_bridge]" by simp
  note f = foreign_bridge_is_switch [OF discovered_bridge this b(1-3) probe_samples(1), of init_globals, unfolded h]
  from f b(4) discovered_bridge show ?thesis by blast
qed

lemma hex_char_nth: "n < 16 \<Longrightarrow> hex_char n = ''0123456789abcdef'' ! n"
proof -
  have "list_all (\<lambda>n. hex_char n = ''0123456789abcdef'' ! n) [0..<16]" by code_simp
  then show "n < 16 \<Longrightarrow> hex_char n = ''0123456789abcdef'' ! n" by (simp add: list_all_iff del: upt_rec_numeral)
qed

lemma hex_char_facts:
  assumes "n < 16"
  shows "digit_of (hex_char n) = Some n" and "\<not> ascii_space (hex_char n)" and "hex_char n \<noteq> CHR ''_''"
proof -
  have "list_all (\<lambda>n. digit_of (hex_char n) = Some n \<and> \<not> ascii_space (hex_char n) \<and> hex_char n \<noteq> CHR ''_'') [0..<16]"
    by (simp add: hex_char_nth digit_of_def is_digit_def lower_code_def ascii_space_def is_space_def upt_conv_Cons)
  with assms show "digit_of (hex_char n) = Some n" and "\<not> ascii_space (hex_char n)" and "hex_char n \<noteq> CHR ''_''"
    by (simp_all add: list_all_iff del: upt_rec_numeral)
qed

definition kernel_hex :: "16 word \<Rightarrow> string" where
  "kernel_hex w = ''0x'' @ hex4 w @ [CHR 10]"

lemma TrimSpace_hex: "TrimSpace (kernel_hex w) = ''0x'' @ hex4 w"
proof -
  have "\<not> ascii_space (last (hex4 w))" "\<not> ascii_space (CHR ''0'')"
    by (simp_all add: hex4_def Let_def hex_char_facts) (simp add: ascii_space_def is_space_def)
  then show ?thesis
    by (simp add: TrimSpace_def kernel_hex_def hex4_def Let_def) (simp add: ascii_space_def is_space_def)
qed

lemma parse_digits_hex4: "parse_digits base0 16 65535 0 (hex4 w) = Num (unat w)"
proof -
  let ?n = "unat w"
  have b: "?n < 65536" using unsigned_less [of w, where ?'a = nat] by simp
  let ?a = "?n div 4096" and ?b = "?n div 256 mod 16" and ?c = "?n div 16 mod 16" and ?d = "?n mod 16"
  have d: "?a < 16" "?b < 16" "?c < 16" "?d < 16" using b by simp_all
  have n: "((?a * 16 + ?b) * 16 + ?c) * 16 + ?d = ?n" using hex_digits_sum [of ?n] by (simp add: algebra_simps)
  show ?thesis using d n b by (simp add: hex4_def Let_def hex_char_facts not_le)
qed

lemma ParseUint_hex: "ParseUint (''0x'' @ hex4 w) 0 16 = Num (unat w)"
proof -
  have "unat w div 4096 < 16" using unsigned_less [of w, where ?'a = nat] by simp
  then have "CHR ''_'' \<notin> set (hex4 w)" by (auto simp: hex4_def Let_def hex_char_facts(3) dest: sym)
  moreover have "parse_digits True 16 (2 ^ 16 - 1) 0 (hex4 w) = Num (unat w)" using parse_digits_hex4 by simp
  ultimately show ?thesis by (simp add: ParseUint_def has_prefix_of_def lower_code_def)
qed

text \<open>An ID survives the way from the kernel to the resource: where the kernel prints the
  device ID \<open>w\<close> of a device, the device read has that ID, and the device ID discovery files it
  under is the text of the kernel without its prefix.\<close>

theorem device_id_roundtrip:
  assumes "read_device h a = Inr (Some d)"
    and "sf_ReadFile h (Join [Join [PCIDevicesRoot, a], ''device'']) = Inr (kernel_hex w)"
  shows "pci_Device d = w \<and>
    sf_ReadFile h (Join [Join [PCIDevicesRoot, a], ''device'']) = Inr (''0x'' @ hex4 (DeviceID (to_nv d)) @ [CHR 10])"
proof -
  have "readPCIField h (Join [PCIDevicesRoot, a]) ''device'' 16 = Inr (unat w)"
    using assms(2) by (simp add: readPCIField_def readPCIFieldString_def TrimSpace_hex ParseUint_hex [simplified])
  then have "pci_Device d = w"
    using assms(1) by (auto simp: read_device_def and_then_def Let_def split: sum.splits if_splits)
  then show ?thesis using assms(2) by (simp add: kernel_hex_def)
qed

theorem device_id_roundtrip_witness: "pci_Device sample_bridge = 0x2331 \<and> hex4 (pci_Device sample_bridge) = ''2331''"
proof -
  have c: "char_of (50 :: nat) = CHR ''2''" "char_of (51 :: nat) = CHR ''3''" "char_of (49 :: nat) = CHR ''1''" by code_simp+
  have h: "hex4 0x2331 = ''2331''" by (simp add: hex4_def hex_char_def Let_def c)
  then have "sf_ReadFile bridge_bus (Join [Join [PCIDevicesRoot, sample_address], ''device'']) = Inr (kernel_hex 0x2331)"
    unfolding sample_root by (simp add: bridge_bus_def one_device_def found_def sample_files_of_def kernel_hex_def)
  from device_id_roundtrip [OF read_bridge this] h show ?thesis by simp
qed

end
