(* ===== verification/Pciids.thy ===== *)
theory Pciids
  imports Sysfs
begin

text \<open>
  The vendored package pciids: the lexical scanner and the parser of the database of names,
  \<^verbatim>\<open>pci.ids\<close>, and the look-up of the name of a device and of a class. A panic is \<open>None\<close>.

  The maps inside a vendor, a device or a class are shared between the database and the
  parser's housekeeping variables. The variable \<^verbatim>\<open>hkVendor\<close> always has the map of the entry it was
  copied from, so it is that entry's key. The maps of subsystems, of subclasses and of
  programming interfaces are written but never read; of them only whether they exist is kept,
  as a write to a nil map panics.
\<close>

section \<open>The scanner\<close>

datatype token = ILLEGAL | EOF | WS | NEWLINE | COMMENT | VENDOR | SUBVENDOR | DEVICE | CLASS | SUBCLASS | PROGIF

record literal =
  l_ID :: string
  l_name :: string
  l_SubName :: string

record scanner =
  sc_r :: string
  sc_isVendor :: bool

text \<open>The reader holds a text in memory, so its only error is the end of the text; that is found
  after the rest of the text has been read.\<close>

fun readline :: "string \<Rightarrow> string \<times> string" where
  "readline r = (if CHR 10 \<notin> set r then (''EOF'', [])
     else (takeWhile (\<lambda>c. c \<noteq> CHR 10) r @ [CHR 10], tl (dropWhile (\<lambda>c. c \<noteq> CHR 10) r)))"

definition scanEntry :: "string \<Rightarrow> nat \<Rightarrow> literal option" where
  "scanEntry line offset = (let trim = TrimSpace line in
     if length trim < offset then None
     else Some \<lparr>l_ID = take offset trim, l_name = TrimSpace (drop offset trim), l_SubName = []\<rparr>)"

definition scanClass :: "string \<Rightarrow> literal option" where
  "scanClass line = (if line = [] then None else scanEntry (tl line) 2)"

definition scanSubVendor :: "string \<Rightarrow> literal option" where
  "scanSubVendor line = (let trim0 = TrimSpace line in
     if length trim0 < 4 then None
     else let trim1 = TrimSpace (drop 4 trim0) in
       if length trim1 < 4 then None
       else Some \<lparr>l_ID = take 4 trim0, l_name = take 4 trim1, l_SubName = TrimSpace (drop 4 trim1)\<rparr>)"

text \<open>The tests of a line look at its first bytes, which are there (\<open>readline_bytes\<close>).\<close>

definition byte :: "char \<Rightarrow> nat \<Rightarrow> string \<Rightarrow> bool" where
  "byte c i ln \<longleftrightarrow> i < length ln \<and> ln ! i = c"

definition isLeadingOneTab :: "string \<Rightarrow> bool" where "isLeadingOneTab ln \<longleftrightarrow> byte (CHR 9) 0 ln \<and> \<not> byte (CHR 9) 1 ln"
definition isLeadingTwoTabs :: "string \<Rightarrow> bool" where "isLeadingTwoTabs ln \<longleftrightarrow> byte (CHR 9) 0 ln \<and> byte (CHR 9) 1 ln"
definition isHexDigit :: "string \<Rightarrow> bool" where
  "isHexDigit ln \<longleftrightarrow> ln \<noteq> [] \<and> is_digit (hd ln)"
definition isHexLetter :: "string \<Rightarrow> bool" where
  "isHexLetter ln \<longleftrightarrow> ln \<noteq> [] \<and> (97 :: nat) \<le> of_char (hd ln) \<and> of_char (hd ln) \<le> (102 :: nat)"
definition isVendor :: "string \<Rightarrow> bool" where "isVendor ln \<longleftrightarrow> isHexDigit ln \<or> isHexLetter ln"
definition isEOF :: "string \<Rightarrow> bool" where
  "isEOF ln \<longleftrightarrow> byte (CHR ''E'') 0 ln \<and> byte (CHR ''O'') 1 ln \<and> byte (CHR ''F'') 2 ln"
definition isComment :: "string \<Rightarrow> bool" where "isComment ln \<longleftrightarrow> byte (CHR ''#'') 0 ln"
definition isSubVendor :: "string \<Rightarrow> bool" where "isSubVendor ln \<longleftrightarrow> isLeadingTwoTabs ln"
definition isDevice :: "string \<Rightarrow> bool" where "isDevice ln \<longleftrightarrow> isLeadingOneTab ln"
definition isNewline :: "string \<Rightarrow> bool" where "isNewline ln \<longleftrightarrow> byte (CHR 10) 0 ln"
definition isClass :: "string \<Rightarrow> bool" where "isClass ln \<longleftrightarrow> byte (CHR ''C'') 0 ln"
definition isProgIf :: "string \<Rightarrow> bool" where "isProgIf ln \<longleftrightarrow> isLeadingTwoTabs ln"
definition isSubClass :: "string \<Rightarrow> bool" where "isSubClass ln \<longleftrightarrow> isLeadingOneTab ln"

definition lit_of :: "string \<Rightarrow> literal" where
  "lit_of s = \<lparr>l_ID = s, l_name = [], l_SubName = []\<rparr>"

text \<open>What a line is, and whether the scanner is then in the part of the vendors.\<close>

definition scan_line :: "string \<Rightarrow> bool \<Rightarrow> (token \<times> literal option \<times> bool)" where
  "scan_line line v =
     (if isEOF line then (EOF, Some (lit_of []), v)
      else if isNewline line then (NEWLINE, Some (lit_of [CHR 10]), v)
      else if isComment line then (COMMENT, Some (lit_of line), v)
      else if isVendor line then (VENDOR, scanEntry line 4, True)
      else if isSubVendor line \<and> v then (SUBVENDOR, scanSubVendor line, v)
      else if isDevice line \<and> v then (DEVICE, scanEntry line 4, v)
      else if isClass line then (CLASS, scanClass line, False)
      else if isProgIf line \<and> \<not> v then (PROGIF, scanEntry line 2, v)
      else if isSubClass line \<and> \<not> v then (SUBCLASS, scanEntry line 2, v)
      else (ILLEGAL, Some (lit_of line), v))"

definition scan :: "scanner \<Rightarrow> (token \<times> literal \<times> scanner) option" where
  "scan s = (case readline (sc_r s) of (line, r) \<Rightarrow>
     (case scan_line line (sc_isVendor s) of (tok, lit, v) \<Rightarrow>
        map_option (\<lambda>l. (tok, l, \<lparr>sc_r = r, sc_isVendor = v\<rparr>)) lit))"

section \<open>The parser\<close>

record vendor =
  v_name :: string
  v_devices :: "(16 word, string) fmap"

record pcidb =
  db_vendors :: "(16 word, vendor) fmap"
  db_classes :: "(32 word, string) fmap"

record parse_state =
  p_db :: pcidb
  hkVendor :: "16 word option"
  hkDevice :: bool
  hkClass :: bool
  hkSubClass :: bool
  hkFullID :: "32 word"
  hkFullName :: "string \<times> string"

text \<open>\<^verbatim>\<open>id, _ := strconv.ParseUint(s, 16, bits)\<close>.\<close>

definition hex_id :: "string \<Rightarrow> nat \<Rightarrow> nat" where
  "hex_id s bits = (case ParseUint s 16 bits of Num n \<Rightarrow> n | BadSyntax \<Rightarrow> 0 | OutOfRange \<Rightarrow> 2 ^ bits - 1)"

text \<open>\<^verbatim>\<open>fmt.Sprintf("%s (%02x)", name, id)\<close> for an \<^verbatim>\<open>id\<close> of at most two digits.\<close>

definition with_id :: "string \<Rightarrow> nat \<Rightarrow> string" where
  "with_id name n = name @ '' ('' @ [hex_char (n div 16), hex_char (n mod 16)] @ '')''"

definition set_class :: "32 word \<Rightarrow> string \<Rightarrow> pcidb \<Rightarrow> pcidb" where
  "set_class i name db = db\<lparr>db_classes := fmupd i name (db_classes db)\<rparr>"

definition add_vendor :: "literal \<Rightarrow> parse_state \<Rightarrow> parse_state option" where
  "add_vendor lit p = (let i = of_nat (hex_id (l_ID lit) 16) in
     Some (p\<lparr>p_db := (p_db p)\<lparr>db_vendors := fmupd i \<lparr>v_name = l_name lit, v_devices = fmempty\<rparr> (db_vendors (p_db p))\<rparr>,
       hkVendor := Some i\<rparr>))"

definition pci_add_device :: "literal \<Rightarrow> parse_state \<Rightarrow> parse_state option" where
  "pci_add_device lit p = (let i = of_nat (hex_id (l_ID lit) 16) in
     Option.bind (hkVendor p) (\<lambda>k. Option.bind (fmlookup (db_vendors (p_db p)) k) (\<lambda>v.
       Some (p\<lparr>p_db := (p_db p)\<lparr>db_vendors := fmupd k (v\<lparr>v_devices := fmupd i (l_name lit) (v_devices v)\<rparr>) (db_vendors (p_db p))\<rparr>,
         hkDevice := True\<rparr>))))"

definition add_class :: "literal \<Rightarrow> parse_state \<Rightarrow> parse_state option" where
  "add_class lit p = (let n = hex_id (l_ID lit) 32 in
     Some (p\<lparr>p_db := set_class (of_nat n) (l_name lit) (p_db p), hkClass := True,
       hkFullID := and (push_bit 16 (of_nat n)) 0xFFFF0000,
       hkFullName := (with_id (l_name lit) n, snd (hkFullName p))\<rparr>))"

definition add_subclass :: "literal \<Rightarrow> parse_state \<Rightarrow> parse_state option" where
  "add_subclass lit p = (let n = hex_id (l_ID lit) 8;
       i = and (or (and (hkFullID p) 0xFFFF0000) (push_bit 8 (of_nat n))) 0xFFFFFF00;
       nm = (fst (hkFullName p), with_id (l_name lit) n)
     in if \<not> hkClass p then None
        else Some (p\<lparr>p_db := set_class i (fst nm @ '' | '' @ snd nm) (p_db p), hkSubClass := True, hkFullID := i, hkFullName := nm\<rparr>))"

definition add_progif :: "literal \<Rightarrow> parse_state \<Rightarrow> parse_state option" where
  "add_progif lit p = (let n = hex_id (l_ID lit) 8 in
     if \<not> hkSubClass p then None
     else Some (p\<lparr>p_db := set_class (or (hkFullID p) (of_nat n))
       (fst (hkFullName p) @ '' | '' @ snd (hkFullName p) @ '' | '' @ with_id (l_name lit) n) (p_db p)\<rparr>))"

definition handle :: "token \<Rightarrow> literal \<Rightarrow> parse_state \<Rightarrow> parse_state option" where
  "handle tok lit p = (case tok of
      VENDOR \<Rightarrow> add_vendor lit p
    | DEVICE \<Rightarrow> pci_add_device lit p
    | SUBVENDOR \<Rightarrow> if hkDevice p then Some p else None
    | CLASS \<Rightarrow> add_class lit p
    | SUBCLASS \<Rightarrow> add_subclass lit p
    | PROGIF \<Rightarrow> add_progif lit p
    | _ \<Rightarrow> Some p)"

lemma readline_rest: "CHR 10 \<in> set r \<Longrightarrow> length (snd (readline r)) < length r"
proof -
  assume "CHR 10 \<in> set r"
  then have "dropWhile (\<lambda>c. c \<noteq> CHR 10) r \<noteq> []" by (auto simp: dropWhile_eq_Nil_conv)
  then show ?thesis
    using length_dropWhile_le [of "\<lambda>c. c \<noteq> CHR 10" r] \<open>CHR 10 \<in> set r\<close> by (cases "dropWhile (\<lambda>c. c \<noteq> CHR 10) r") auto
qed

lemma scan_line_EOF: "fst (scan_line line v) = EOF \<longleftrightarrow> isEOF line"
  by (simp add: scan_line_def)

lemma isEOF_EOF: "isEOF ''EOF''"
  by (simp add: isEOF_def byte_def)

lemma scan_rest: "scan s = Some (tok, lit, s') \<Longrightarrow> tok \<noteq> EOF \<Longrightarrow> length (sc_r s') < length (sc_r s)"
  using readline_rest [of "sc_r s"] scan_line_EOF [of "fst (readline (sc_r s))" "sc_isVendor s"] isEOF_EOF
  by (auto simp: scan_def split: prod.splits if_splits simp del: readline.simps) (auto split: if_splits)

function parse_loop :: "scanner \<Rightarrow> parse_state \<Rightarrow> pcidb option" where
  "parse_loop s p = (case scan s of
      None \<Rightarrow> None
    | Some (tok, lit, s') \<Rightarrow>
        if tok = EOF then Some (p_db p)
        else (case handle tok lit p of None \<Rightarrow> None | Some p' \<Rightarrow> parse_loop s' p'))"
  by pat_completeness auto

termination
  by (relation "measure (\<lambda>(s, p). length (sc_r s))") (auto simp: scan_rest)


declare parse_loop.simps [simp del]

definition parse :: "string \<Rightarrow> pcidb option" where
  "parse text = parse_loop \<lparr>sc_r = text, sc_isVendor = False\<rparr>
     \<lparr>p_db = \<lparr>db_vendors = fmempty, db_classes = fmempty\<rparr>, hkVendor = None, hkDevice = False, hkClass = False,
       hkSubClass = False, hkFullID = 0, hkFullName = ([], [])\<rparr>"

definition defaultPCIdbPaths :: "string list" where
  "defaultPCIdbPaths = [''/usr/share/misc/pci.ids'', ''/usr/local/share/pci.ids'', ''/usr/share/hwdata/pci.ids'',
     ''/usr/share/pci.ids'']"

fun newParser :: "(string \<Rightarrow> string result) \<Rightarrow> string \<Rightarrow> string list \<Rightarrow> string" where
  "newParser ReadFile defaultPCIdb [] = defaultPCIdb"
| "newParser ReadFile defaultPCIdb (db # pcidbs) = (case ReadFile db of
      Inl err \<Rightarrow> newParser ReadFile defaultPCIdb pcidbs
    | Inr file \<Rightarrow> file)"

text \<open>\<^verbatim>\<open>NewDB\<close> without options, as nvpci calls it. The embedded database is an argument.\<close>

definition NewDB :: "(string \<Rightarrow> string result) \<Rightarrow> string \<Rightarrow> pcidb option" where
  "NewDB ReadFile defaultPCIdb = parse (newParser ReadFile defaultPCIdb defaultPCIdbPaths)"

definition GetDeviceName :: "pcidb \<Rightarrow> 16 word \<Rightarrow> 16 word \<Rightarrow> string result" where
  "GetDeviceName db vendorID deviceID = (case fmlookup (db_vendors db) vendorID of
      None \<Rightarrow> Inl (Errorf ''failed to find vendor with id'')
    | Some v \<Rightarrow> (case fmlookup (v_devices v) deviceID of
        None \<Rightarrow> Inl (Errorf ''failed to find device with id'')
      | Some n \<Rightarrow> Inr n))"

definition GetClassName :: "pcidb \<Rightarrow> 32 word \<Rightarrow> string result" where
  "GetClassName db classID = (case fmlookup (db_classes db) classID of
      None \<Rightarrow> Inl (Errorf ''failed to find class with id'') | Some n \<Rightarrow> Inr n)"

section \<open>Reading a line\<close>

lemma readline_line: "CHR 10 \<notin> set l \<Longrightarrow> readline (l @ [CHR 10] @ r) = (l @ [CHR 10], r)"
  by (induction l) auto

text \<open>The bytes a test looks at are there: a line has a byte, and is longer if that is not its end.\<close>

lemma readline_bytes:
  assumes "readline s = (ln, r)"
  shows "ln \<noteq> [] \<and> (hd ln \<noteq> CHR 10 \<longrightarrow> 2 \<le> length ln \<and> (ln ! 1 \<noteq> CHR 10 \<longrightarrow> 3 \<le> length ln))"
proof -
  consider "ln = ''EOF''" | l where "ln = l @ [CHR 10]" using assms by (auto split: if_splits)
  then show ?thesis
  proof cases
    case (2 l)
    then show ?thesis by (cases l; cases "tl l"; simp)
  qed simp
qed

lemma dropWhile_all: "(\<forall>x \<in> set (dropWhile P s). P x) \<longleftrightarrow> (\<forall>x \<in> set s. P x)"
  by (induction s) auto

lemma TrimSpace_Nil: "TrimSpace s = [] \<longleftrightarrow> list_all ascii_space s"
  by (simp add: TrimSpace_def dropWhile_eq_Nil_conv list_all_iff dropWhile_all)

lemma trim_lead [simp]: "ascii_space c \<Longrightarrow> TrimSpace (c # s) = TrimSpace s"
  and trim_Nil [simp]: "TrimSpace [] = []"
  by (simp_all add: TrimSpace_def)

lemma trim_trail [simp]:
  assumes "ascii_space c"
  shows "TrimSpace (s @ [c]) = TrimSpace s"
proof (cases "list_all ascii_space s")
  case True
  with assms have "TrimSpace (s @ [c]) = []" "TrimSpace s = []" by (simp_all add: TrimSpace_Nil)
  then show ?thesis by simp
next
  case False
  then obtain x where "x \<in> set s" "\<not> ascii_space x" by (auto simp: list_all_iff)
  then have "dropWhile ascii_space (s @ [c]) = dropWhile ascii_space s @ [c]" by (rule dropWhile_append1)
  with assms show ?thesis by (simp add: TrimSpace_def)
qed

lemma trimmed_ends:
  assumes "TrimSpace s \<noteq> []"
  shows "\<not> ascii_space (hd (TrimSpace s)) \<and> \<not> ascii_space (last (TrimSpace s))"
proof -
  let ?d = "dropWhile ascii_space s" and ?e = "dropWhile ascii_space (rev (dropWhile ascii_space s))"
  have e: "?e \<noteq> []" using assms by (simp add: TrimSpace_def)
  then have d: "?d \<noteq> []" by (metis dropWhile.simps(1) rev.simps(1))
  obtain us where "rev ?d = us @ ?e" by (metis takeWhile_dropWhile_id)
  then have "?d = rev ?e @ rev us" by (metis rev_append rev_rev_ident)
  then have "hd ?d = hd (rev ?e)" using e by (metis hd_append2 rev_is_Nil_conv)
  then have "hd ?d = hd (TrimSpace s)" by (simp only: TrimSpace_def)
  moreover have "last (TrimSpace s) = hd ?e" by (simp add: TrimSpace_def last_rev e)
  ultimately show ?thesis using hd_dropWhile [OF e] hd_dropWhile [OF d] by simp
qed

lemma trim_plain: "s = [] \<or> \<not> ascii_space (hd s) \<and> \<not> ascii_space (last s) \<Longrightarrow> TrimSpace s = s"
proof (cases s rule: rev_cases)
  case (snoc t c)
  assume "s = [] \<or> \<not> ascii_space (hd s) \<and> \<not> ascii_space (last s)"
  with snoc have "\<not> ascii_space (hd (t @ [c]))" "\<not> ascii_space c" by auto
  then have "dropWhile ascii_space (t @ [c]) = t @ [c]" by (cases t) auto
  with snoc \<open>\<not> ascii_space c\<close> show ?thesis by (simp add: TrimSpace_def)
qed simp

lemma trim_fixed: "TrimSpace s = s \<longleftrightarrow> s = [] \<or> \<not> ascii_space (hd s) \<and> \<not> ascii_space (last s)"
  using trimmed_ends [of s] trim_plain [of s] by metis

section \<open>The lines of a database\<close>

text \<open>
  The abstract database: its lines, how they are printed, the order they may come in, and what
  they say of a device: the last line for it in the last block of its vendor.
\<close>

datatype db_line = Vendor "16 word" string | is_Device: Device "16 word" string | Subsystem "16 word" "16 word" string
  | is_Class: Class "8 word" string | is_Subclass: Subclass "8 word" string | Progif "8 word" string | Comment string | Blank

definition hex2 :: "8 word \<Rightarrow> string" where
  "hex2 w = [hex_char (unat w div 16), hex_char (unat w mod 16)]"

definition entry_line :: "string \<Rightarrow> string \<Rightarrow> string \<Rightarrow> string" where
  "entry_line lead ident name = lead @ ident @ ''  '' @ name @ [CHR 10]"

fun print_line :: "db_line \<Rightarrow> string" where
  "print_line (Vendor v n) = entry_line [] (hex4 v) n"
| "print_line (Device d n) = entry_line [CHR 9] (hex4 d) n"
| "print_line (Subsystem v d n) = entry_line [CHR 9, CHR 9] (hex4 v @ '' '' @ hex4 d) n"
| "print_line (Class c n) = entry_line ''C '' (hex2 c) n"
| "print_line (Subclass c n) = entry_line [CHR 9] (hex2 c) n"
| "print_line (Progif c n) = entry_line [CHR 9, CHR 9] (hex2 c) n"
| "print_line (Comment t) = ''#'' @ t @ [CHR 10]"
| "print_line Blank = [CHR 10]"

definition print_db :: "db_line list \<Rightarrow> string" where
  "print_db ls = concat (map print_line ls)"

definition clean_name :: "string \<Rightarrow> bool" where
  "clean_name n \<longleftrightarrow> CHR 10 \<notin> set n \<and> TrimSpace n = n"

fun clean_line :: "db_line \<Rightarrow> bool" where
  "clean_line (Vendor v n) = clean_name n" | "clean_line (Device d n) = clean_name n"
| "clean_line (Subsystem v d n) = clean_name n" | "clean_line (Class c n) = clean_name n"
| "clean_line (Subclass c n) = clean_name n" | "clean_line (Progif c n) = clean_name n"
| "clean_line (Comment t) = (CHR 10 \<notin> set t)" | "clean_line Blank = True"

text \<open>Whether the lines after a line are in the part of the vendors; what must have come before a line:
  that part or the other, a device, a class, a subclass.\<close>

fun vendors_after :: "bool \<Rightarrow> db_line \<Rightarrow> bool" where
  "vendors_after v (Vendor _ _) = True" | "vendors_after v (Class _ _) = False" | "vendors_after v l = v"

fun placed :: "bool \<Rightarrow> bool \<Rightarrow> bool \<Rightarrow> bool \<Rightarrow> db_line \<Rightarrow> bool" where
  "placed v d c sc (Device _ _) = v" | "placed v d c sc (Subsystem _ _ _) = (v \<and> d)"
| "placed v d c sc (Subclass _ _) = (\<not> v \<and> c)" | "placed v d c sc (Progif _ _) = (\<not> v \<and> sc)" | "placed v d c sc l = True"

fun in_order :: "bool \<Rightarrow> bool \<Rightarrow> bool \<Rightarrow> bool \<Rightarrow> db_line list \<Rightarrow> bool" where
  "in_order v d c sc [] = True"
| "in_order v d c sc (l # ls) = (clean_line l \<and> placed v d c sc l \<and>
     in_order (vendors_after v l) (d \<or> is_Device l) (c \<or> is_Class l) (sc \<or> is_Subclass l) ls)"

definition wf_db :: "db_line list \<Rightarrow> bool" where
  "wf_db ls \<longleftrightarrow> in_order False False False False ls"

fun has_block :: "16 word \<Rightarrow> db_line list \<Rightarrow> bool" where
  "has_block v [] = False"
| "has_block v (l # ls) = ((case l of Vendor w _ \<Rightarrow> w = v | _ \<Rightarrow> False) \<or> has_block v ls)"

fun in_block :: "16 word \<Rightarrow> db_line list \<Rightarrow> string option" where
  "in_block d [] = None"
| "in_block d (l # ls) = (case l of
      Vendor _ _ \<Rightarrow> None
    | Device w n \<Rightarrow> (case in_block d ls of None \<Rightarrow> if w = d then Some n else None | Some m \<Rightarrow> Some m)
    | _ \<Rightarrow> in_block d ls)"

fun name_in_db :: "16 word \<Rightarrow> 16 word \<Rightarrow> db_line list \<Rightarrow> string option" where
  "name_in_db v d [] = None"
| "name_in_db v d (l # ls) = (case l of
      Vendor w _ \<Rightarrow> if w = v \<and> \<not> has_block v ls then in_block d ls else name_in_db v d ls
    | _ \<Rightarrow> name_in_db v d ls)"

section \<open>The lines are read as printed\<close>

text \<open>The token and the literal of a line.\<close>

fun line_token :: "db_line \<Rightarrow> token" where
  "line_token (Vendor v n) = VENDOR" | "line_token (Device d n) = DEVICE" | "line_token (Subsystem v d n) = SUBVENDOR"
| "line_token (Class c n) = CLASS" | "line_token (Subclass c n) = SUBCLASS" | "line_token (Progif c n) = PROGIF"
| "line_token (Comment t) = COMMENT" | "line_token Blank = NEWLINE"

fun line_literal :: "db_line \<Rightarrow> literal" where
  "line_literal (Vendor v n) = \<lparr>l_ID = hex4 v, l_name = n, l_SubName = []\<rparr>"
| "line_literal (Device d n) = \<lparr>l_ID = hex4 d, l_name = n, l_SubName = []\<rparr>"
| "line_literal (Subsystem v d n) = \<lparr>l_ID = hex4 v, l_name = hex4 d, l_SubName = n\<rparr>"
| "line_literal (Class c n) = \<lparr>l_ID = hex2 c, l_name = n, l_SubName = []\<rparr>"
| "line_literal (Subclass c n) = \<lparr>l_ID = hex2 c, l_name = n, l_SubName = []\<rparr>"
| "line_literal (Progif c n) = \<lparr>l_ID = hex2 c, l_name = n, l_SubName = []\<rparr>"
| "line_literal (Comment t) = lit_of (''#'' @ t @ [CHR 10])"
| "line_literal Blank = lit_of [CHR 10]"

lemma spaces [simp]: "ascii_space (CHR 9)" "ascii_space (CHR 10)" "ascii_space (CHR '' '')"
  by (simp_all add: ascii_space_def is_space_def)

lemma trim_spaced:
  assumes "x \<noteq> []" and "\<not> ascii_space (hd x)" and "\<not> ascii_space (last x)" and "clean_name n"
  shows "TrimSpace (x @ ''  '' @ n @ [CHR 10]) = (if n = [] then x else x @ ''  '' @ n)"
proof (cases "n = []")
  case True
  have "TrimSpace (((x @ [CHR '' '']) @ [CHR '' '']) @ [CHR 10]) = TrimSpace x" by (simp del: append_assoc)
  with True assms trim_plain [of x] show ?thesis by simp
next
  case False
  have "TrimSpace ((x @ ''  '' @ n) @ [CHR 10]) = TrimSpace (x @ ''  '' @ n)" by (simp del: append_assoc append.simps)
  also have "\<dots> = x @ ''  '' @ n"
    by (rule trim_plain) (use assms False in \<open>simp add: clean_name_def trim_fixed\<close>)
  finally show ?thesis using False by simp
qed

lemma hex4_ends: "\<not> ascii_space (hd (hex4 w))" "\<not> ascii_space (last (hex4 w))"
proof -
  have "unat w div 4096 < 16" using unsigned_less [of w, where ?'a = nat] by simp
  then show "\<not> ascii_space (hd (hex4 w))" "\<not> ascii_space (last (hex4 w))"
    by (simp_all add: hex4_def Let_def hex_char_facts)
qed

lemma hex2_ends: "\<not> ascii_space (hd (hex2 w))" "\<not> ascii_space (last (hex2 w))"
proof -
  have "unat w div 16 < 16" using unsigned_less [of w, where ?'a = nat] by simp
  then show "\<not> ascii_space (hd (hex2 w))" "\<not> ascii_space (last (hex2 w))"
    by (simp_all add: hex2_def hex_char_facts)
qed

lemma length_hex2 [simp]: "length (hex2 w) = 2"
  and hex2_nonempty [simp]: "hex2 w \<noteq> []"
  by (simp_all add: hex2_def)

lemma scanEntry_spaced:
  assumes "x \<noteq> []" and "\<not> ascii_space (hd x)" and "\<not> ascii_space (last x)" and "clean_name n"
  shows "scanEntry (x @ ''  '' @ n @ [CHR 10]) (length x) = Some \<lparr>l_ID = x, l_name = n, l_SubName = []\<rparr>"
  unfolding scanEntry_def trim_spaced [OF assms] using assms(4) by (simp add: clean_name_def)

lemma scanEntry_lead [simp]: "ascii_space c \<Longrightarrow> scanEntry (c # s) k = scanEntry s k"
  by (simp add: scanEntry_def)

lemma scanEntry_hex4: "clean_name n \<Longrightarrow> scanEntry (hex4 w @ ''  '' @ n @ [CHR 10]) 4 = Some \<lparr>l_ID = hex4 w, l_name = n, l_SubName = []\<rparr>"
  using scanEntry_spaced [OF hex4_nonempty hex4_ends] by simp

lemma scanEntry_hex2: "clean_name n \<Longrightarrow> scanEntry (hex2 w @ ''  '' @ n @ [CHR 10]) 2 = Some \<lparr>l_ID = hex2 w, l_name = n, l_SubName = []\<rparr>"
  using scanEntry_spaced [OF hex2_nonempty hex2_ends] by simp

lemma scanSubVendor_lead [simp]: "ascii_space c \<Longrightarrow> scanSubVendor (c # s) = scanSubVendor s"
  by (simp add: scanSubVendor_def)

lemma scanSubVendor_printed:
  assumes "clean_name n"
  shows "scanSubVendor ((hex4 v @ '' '' @ hex4 d) @ ''  '' @ n @ [CHR 10]) = Some \<lparr>l_ID = hex4 v, l_name = hex4 d, l_SubName = n\<rparr>"
proof -
  have "TrimSpace ((hex4 v @ '' '' @ hex4 d) @ ''  '' @ n @ [CHR 10]) =
      (if n = [] then hex4 v @ '' '' @ hex4 d else (hex4 v @ '' '' @ hex4 d) @ ''  '' @ n)"
    by (rule trim_spaced) (use assms hex4_ends in simp_all)
  moreover have "TrimSpace (hex4 d) = hex4 d" by (rule trim_plain) (simp add: hex4_ends)
  moreover have "TrimSpace (hex4 d @ CHR '' '' # CHR '' '' # n) = hex4 d @ CHR '' '' # CHR '' '' # n" if "n \<noteq> []"
    by (rule trim_plain) (use assms hex4_ends that in \<open>simp add: clean_name_def trim_fixed\<close>)
  ultimately show ?thesis using assms by (simp add: scanSubVendor_def clean_name_def Let_def)
qed

text \<open>The first byte decides what a line is.\<close>

lemma hex_char_first:
  assumes "n < 16"
  shows "isVendor (hex_char n # s)" and "hex_char n \<noteq> CHR ''E''" and "hex_char n \<noteq> CHR 10" and "hex_char n \<noteq> CHR ''#''"
    and "hex_char n \<noteq> CHR 9"
proof -
  have "list_all (\<lambda>n. (is_digit (hex_char n) \<or> (97 :: nat) \<le> of_char (hex_char n) \<and> of_char (hex_char n) \<le> (102 :: nat)) \<and>
      hex_char n \<noteq> CHR ''E'' \<and> hex_char n \<noteq> CHR 10 \<and> hex_char n \<noteq> CHR ''#'' \<and> hex_char n \<noteq> CHR 9) [0..<16]"
    by (simp add: hex_char_nth is_digit_def upt_conv_Cons)
  with assms show "isVendor (hex_char n # s)" and "hex_char n \<noteq> CHR ''E''" and "hex_char n \<noteq> CHR 10" and "hex_char n \<noteq> CHR ''#''"
    and "hex_char n \<noteq> CHR 9"
    by (simp_all add: list_all_iff isVendor_def isHexDigit_def isHexLetter_def del: upt_rec_numeral)
qed

lemma hex4_first: "\<exists>n s. hex4 w = hex_char n # s \<and> n < 16"
  by (rule exI [of _ "unat w div 4096"]) (use unsigned_less [of w, where ?'a = nat] in \<open>simp add: hex4_def Let_def\<close>)

lemma hex2_first: "\<exists>n s. hex2 w = hex_char n # s \<and> n < 16"
  by (rule exI [of _ "unat w div 16"]) (use unsigned_less [of w, where ?'a = nat] in \<open>simp add: hex2_def\<close>)

lemma no_newline_hex: "CHR 10 \<notin> set (hex4 w)" "CHR 10 \<notin> set (hex2 v)"
proof -
  have "unat w div 4096 < 16" "unat v div 16 < 16"
    using unsigned_less [of w, where ?'a = nat] unsigned_less [of v, where ?'a = nat] by simp_all
  then show "CHR 10 \<notin> set (hex4 w)" "CHR 10 \<notin> set (hex2 v)"
    using hex_char_first(3) by (auto simp: hex4_def hex2_def Let_def dest: sym)
qed

lemma print_line_body: "clean_line l \<Longrightarrow> \<exists>b. print_line l = b @ [CHR 10] \<and> CHR 10 \<notin> set b"
  by (cases l) (auto simp: entry_line_def clean_name_def no_newline_hex)

lemmas line_tests = isEOF_def isNewline_def isComment_def isSubVendor_def isDevice_def isClass_def isProgIf_def isSubClass_def
  isLeadingOneTab_def isLeadingTwoTabs_def byte_def

lemma not_vendor [simp]: "\<not> isVendor (CHR 9 # s)" "\<not> isVendor (CHR ''C'' # s)"
  by (simp_all add: isVendor_def isHexDigit_def isHexLetter_def is_digit_def)

lemma scan_line_printed:
  assumes "clean_line l" and "placed v d c sc l"
  shows "scan_line (print_line l) v = (line_token l, Some (line_literal l), vendors_after v l)"
proof (cases l)
  case (Vendor w n)
  obtain k s where h: "hex4 w = hex_char k # s" "k < 16" using hex4_first by blast
  have "scanEntry (hex4 w @ ''  '' @ n @ [CHR 10]) 4 = Some (line_literal l)"
    using assms(1) by (simp add: Vendor scanEntry_hex4 del: append_Cons)
  then show ?thesis
    using hex_char_first [OF h(2)] by (simp add: Vendor scan_line_def entry_line_def h(1) line_tests)
next
  case (Device w n)
  obtain k s where h: "hex4 w = hex_char k # s" "k < 16" using hex4_first by blast
  have "scanEntry (CHR 9 # hex4 w @ ''  '' @ n @ [CHR 10]) 4 = Some (line_literal l)"
    using assms(1) by (simp add: Device scanEntry_hex4 del: append_Cons append.simps)
  then show ?thesis
    using assms(2) hex_char_first [OF h(2)] by (simp add: Device scan_line_def entry_line_def h(1) line_tests)
next
  case (Subsystem w d n)
  have "scanSubVendor (CHR 9 # CHR 9 # (hex4 w @ '' '' @ hex4 d) @ ''  '' @ n @ [CHR 10]) = Some (line_literal l)"
    using assms(1) by (simp add: Subsystem scanSubVendor_printed del: append_Cons append_assoc append.simps)
  then show ?thesis
    using assms(2) by (simp add: Subsystem scan_line_def entry_line_def line_tests)
next
  case (Class c n)
  have "scanClass (''C'' @ CHR '' '' # hex2 c @ ''  '' @ n @ [CHR 10]) = Some (line_literal l)"
    using assms(1) by (simp add: Class scanClass_def scanEntry_hex2 [simplified])
  then show ?thesis by (simp add: Class scan_line_def entry_line_def line_tests)
next
  case (Subclass c n)
  obtain k s where h: "hex2 c = hex_char k # s" "k < 16" using hex2_first by blast
  have "scanEntry (CHR 9 # hex2 c @ ''  '' @ n @ [CHR 10]) 2 = Some (line_literal l)"
    using assms(1) by (simp add: Subclass scanEntry_hex2 del: append_Cons append.simps)
  then show ?thesis
    using assms(2) hex_char_first [OF h(2)] by (simp add: Subclass scan_line_def entry_line_def h(1) line_tests)
next
  case (Progif c n)
  have "scanEntry (CHR 9 # CHR 9 # hex2 c @ ''  '' @ n @ [CHR 10]) 2 = Some (line_literal l)"
    using assms(1) by (simp add: Progif scanEntry_hex2 del: append_Cons append.simps)
  then show ?thesis using assms(2) by (simp add: Progif scan_line_def entry_line_def line_tests)
qed (simp_all add: scan_line_def line_tests isVendor_def isHexDigit_def is_digit_def isHexLetter_def)

lemma scan_printed:
  assumes "clean_line l" and "placed v d c sc l"
  shows "scan \<lparr>sc_r = print_line l @ r, sc_isVendor = v\<rparr> =
    Some (line_token l, line_literal l, \<lparr>sc_r = r, sc_isVendor = vendors_after v l\<rparr>)"
proof -
  obtain b where "print_line l = b @ [CHR 10]" "CHR 10 \<notin> set b" using print_line_body [OF assms(1)] by blast
  then have "readline (print_line l @ r) = (print_line l, r)" using readline_line [of b r] by simp
  then show ?thesis unfolding scan_def by (simp add: scan_line_printed [OF assms])
qed

lemma line_token_not_EOF [simp]: "line_token l \<noteq> EOF"
  by (cases l) simp_all

lemma parse_printed:
  assumes "clean_line l" and "placed v d c sc l"
  shows "parse_loop \<lparr>sc_r = print_line l @ r, sc_isVendor = v\<rparr> p = (case handle (line_token l) (line_literal l) p of
      None \<Rightarrow> None | Some p' \<Rightarrow> parse_loop \<lparr>sc_r = r, sc_isVendor = vendors_after v l\<rparr> p')"
  by (subst parse_loop.simps) (simp add: scan_printed [OF assms])

lemma parse_unterminated: "CHR 10 \<notin> set r \<Longrightarrow> parse_loop \<lparr>sc_r = r, sc_isVendor = v\<rparr> p = Some (p_db p)"
  by (subst parse_loop.simps) (simp add: scan_def scan_line_def isEOF_EOF)

section \<open>The database says what its lines say\<close>

text \<open>The parser's housekeeping, against the lines read so far.\<close>

definition keeps :: "parse_state \<Rightarrow> bool \<Rightarrow> bool \<Rightarrow> bool \<Rightarrow> bool \<Rightarrow> bool" where
  "keeps p v d c sc \<longleftrightarrow> (v \<longrightarrow> hkVendor p \<noteq> None) \<and> (\<forall>k. hkVendor p = Some k \<longrightarrow> k \<in> fmdom' (db_vendors (p_db p))) \<and>
     (d \<longrightarrow> hkDevice p) \<and> (c \<longrightarrow> hkClass p) \<and> (sc \<longrightarrow> hkSubClass p)"

definition db_name :: "pcidb \<Rightarrow> 16 word \<Rightarrow> 16 word \<Rightarrow> string option" where
  "db_name db v d = Option.bind (fmlookup (db_vendors db) v) (\<lambda>x. fmlookup (v_devices x) d)"

definition known_after :: "parse_state \<Rightarrow> db_line list \<Rightarrow> 16 word \<Rightarrow> 16 word \<Rightarrow> string option" where
  "known_after p ls v d = (if has_block v ls then name_in_db v d ls
     else if hkVendor p = Some v then (case in_block d ls of None \<Rightarrow> db_name (p_db p) v d | Some n \<Rightarrow> Some n)
     else db_name (p_db p) v d)"

lemma hex_id_hex4 [simp]: "hex_id (hex4 w) 16 = unat w"
proof -
  have "parse_digits False 16 (2 ^ 16 - 1) 0 (hex4 w) = Num (unat w)" using parse_digits_hex4 by simp
  then show ?thesis by (simp add: hex_id_def ParseUint_def)
qed

lemma db_name_set_class [simp]: "db_name (set_class i n db) = db_name db" "db_vendors (set_class i n db) = db_vendors db"
  by (simp_all add: fun_eq_iff db_name_def set_class_def)

lemmas handle_defs = handle_def add_vendor_def pci_add_device_def add_class_def add_subclass_def add_progif_def Let_def

text \<open>One line: it is handled, and the names known after it and the rest are those of all the lines.\<close>

lemma handle_line:
  assumes "placed v d c sc l" and "keeps p v d c sc"
  shows "\<exists>p'. handle (line_token l) (line_literal l) p = Some p' \<and>
    keeps p' (vendors_after v l) (d \<or> is_Device l) (c \<or> is_Class l) (sc \<or> is_Subclass l) \<and>
    (\<forall>ls. known_after p' ls = known_after p (l # ls))"
proof (cases l)
  case (Device w n)
  with assms obtain k x where "hkVendor p = Some k" "fmlookup (db_vendors (p_db p)) k = Some x"
    by (auto simp: keeps_def)
  with assms Device show ?thesis
    by (auto simp: handle_defs keeps_def known_after_def fun_eq_iff db_name_def split: option.splits)
qed (use assms in \<open>auto simp: handle_defs keeps_def known_after_def fun_eq_iff db_name_def lit_of_def split: option.splits\<close>)

lemma run_lines:
  assumes "in_order v d c sc ls" and "keeps p v d c sc"
  shows "\<exists>p' v'. (\<forall>r. parse_loop \<lparr>sc_r = print_db ls @ r, sc_isVendor = v\<rparr> p = parse_loop \<lparr>sc_r = r, sc_isVendor = v'\<rparr> p') \<and>
    db_name (p_db p') = known_after p ls"
  using assms
proof (induction ls arbitrary: v d c sc p)
  case Nil
  have "known_after p [] = db_name (p_db p)" by (simp add: fun_eq_iff known_after_def)
  then show ?case by (auto simp: print_db_def)
next
  case (Cons l ls)
  from Cons.prems have l: "clean_line l" "placed v d c sc l"
    and o: "in_order (vendors_after v l) (d \<or> is_Device l) (c \<or> is_Class l) (sc \<or> is_Subclass l) ls" by simp_all
  from handle_line [OF l(2) Cons.prems(2)] obtain p' where p': "handle (line_token l) (line_literal l) p = Some p'"
    "keeps p' (vendors_after v l) (d \<or> is_Device l) (c \<or> is_Class l) (sc \<or> is_Subclass l)"
    "known_after p' ls = known_after p (l # ls)" by blast
  have "print_db (l # ls) @ r = print_line l @ print_db ls @ r" for r by (simp add: print_db_def)
  with Cons.IH [OF o p'(2)] p'(1,3) show ?case by (simp add: parse_printed [OF l])
qed

section \<open>Properties\<close>

text \<open>What a text of such lines is read as, with a rest that is read later.\<close>

lemma parse_lines:
  assumes "wf_db ls"
  shows "\<exists>p' v'. (\<forall>r. parse (print_db ls @ r) = parse_loop \<lparr>sc_r = r, sc_isVendor = v'\<rparr> p') \<and>
    (\<forall>v d. db_name (p_db p') v d = name_in_db v d ls)"
proof -
  let ?p = "\<lparr>p_db = \<lparr>db_vendors = fmempty, db_classes = fmempty\<rparr>, hkVendor = None, hkDevice = False, hkClass = False,
    hkSubClass = False, hkFullID = 0, hkFullName = ([], [])\<rparr>"
  have "keeps ?p False False False False" by (simp add: keeps_def)
  from run_lines [OF assms [unfolded wf_db_def] this] obtain p' v' where
    p': "\<forall>r. parse_loop \<lparr>sc_r = print_db ls @ r, sc_isVendor = False\<rparr> ?p = parse_loop \<lparr>sc_r = r, sc_isVendor = v'\<rparr> p'"
    "db_name (p_db p') = known_after ?p ls" by blast
  have none: "\<not> has_block v ls \<Longrightarrow> name_in_db v d ls = None" for v d
    by (induction ls) (auto split: db_line.splits)
  have "db_name (p_db p') v d = name_in_db v d ls" for v d
    unfolding p'(2) known_after_def by (simp add: db_name_def none)
  with p'(1) show ?thesis by (auto simp: parse_def)
qed

lemma GetDeviceName_known:
  "(case db_name db v d of Some n \<Rightarrow> GetDeviceName db v d = Inr n | None \<Rightarrow> isl (GetDeviceName db v d))"
  by (auto simp: db_name_def GetDeviceName_def split: option.splits)

lemma parse_names:
  assumes "wf_db ls" and "CHR 10 \<notin> set rest"
  shows "\<exists>db. parse (print_db ls @ rest) = Some db \<and> (\<forall>v d. case name_in_db v d ls of
    Some n \<Rightarrow> GetDeviceName db v d = Inr n | None \<Rightarrow> isl (GetDeviceName db v d))"
proof -
  from parse_lines [OF assms(1)] obtain p' v'
    where p: "\<forall>r. parse (print_db ls @ r) = parse_loop \<lparr>sc_r = r, sc_isVendor = v'\<rparr> p'"
      "\<forall>v d. db_name (p_db p') v d = name_in_db v d ls" by blast
  have "parse (print_db ls @ rest) = Some (p_db p')"
    using p(1) parse_unterminated [OF assms(2)] by simp
  moreover have "case name_in_db v d ls of Some n \<Rightarrow> GetDeviceName (p_db p') v d = Inr n | None \<Rightarrow> isl (GetDeviceName (p_db p') v d)" for v d
    using GetDeviceName_known [of "p_db p'" v d] p(2) by simp
  ultimately show ?thesis by blast
qed

text \<open>C21. The database of names says what its lines say. Where the first of the known paths that can be
  read, or else the embedded text, holds well-formed lines in a possible order, the parser
  returns, and a device has the name of the last line for it in the last block of its vendor:
  an earlier block of the vendor is lost. What follows the last newline is lost as well,
  whatever it is.\<close>

theorem database_says_lines:
  assumes "newParser ReadFile emb defaultPCIdbPaths = print_db ls @ rest" and "wf_db ls" and "CHR 10 \<notin> set rest"
  shows "\<exists>db. NewDB ReadFile emb = Some db \<and> (\<forall>v d. case name_in_db v d ls of
    Some n \<Rightarrow> GetDeviceName db v d = Inr n | None \<Rightarrow> isl (GetDeviceName db v d))"
  using parse_names [OF assms(2,3)] assms(1) by (simp add: NewDB_def)

definition sample_lines :: "db_line list" where
  "sample_lines = [Comment ''List of PCI IDs'', Blank, Vendor 0x10de ''NVIDIA Corporation'',
     Device 0x20b1 ''GA100 [A100 PCIe 40GB]'', Subsystem 0x10de 0x145f ''A100'', Device 0x20f1 ''GA100 [A100 PCIe 40GB]'',
     Vendor 0x15b3 ''Mellanox Technologies'', Class 3 ''Display controller'', Subclass 2 ''3D controller'']"

definition no_file :: "string \<Rightarrow> string result" where "no_file p = Inl ErrNotExist"

lemma sample_lines_wf: "wf_db sample_lines"
  by (simp add: wf_db_def sample_lines_def clean_name_def trim_fixed ascii_space_def is_space_def)

lemma no_file_db [simp]: "newParser no_file emb ps = emb"
  by (induction ps) (simp_all add: no_file_def)

theorem database_says_lines_witness:
  "\<exists>db. NewDB no_file (print_db sample_lines @ ''10de'') = Some db \<and>
     GetDeviceName db 0x10de 0x20b1 = Inr ''GA100 [A100 PCIe 40GB]'' \<and> isl (GetDeviceName db 0x10de 0x2331)"
proof -
  from database_says_lines [OF no_file_db sample_lines_wf, of "''10de''"] obtain db
    where db: "NewDB no_file (print_db sample_lines @ ''10de'') = Some db"
      "\<forall>v d. case name_in_db v d sample_lines of Some n \<Rightarrow> GetDeviceName db v d = Inr n | None \<Rightarrow> isl (GetDeviceName db v d)"
    by auto
  from db(2) [rule_format, of "0x10de" "0x20b1"] db(2) [rule_format, of "0x10de" "0x2331"] db(1) show ?thesis
    by (simp add: sample_lines_def)
qed

text \<open>C31. One short line of the database ends the program: where a line that begins with a hexadecimal
  digit has fewer than four bytes apart from the spaces around them, the parser slices out of range,
  whatever comes after.\<close>

theorem short_line_panics:
  assumes "newParser ReadFile emb defaultPCIdbPaths = print_db ls @ line @ [CHR 10] @ rest" and "wf_db ls"
    and "CHR 10 \<notin> set line" and "isVendor line" and "length (TrimSpace line) < 4"
  shows "NewDB ReadFile emb = None"
proof -
  from parse_lines [OF assms(2)] obtain p' v'
    where p: "\<forall>r. parse (print_db ls @ r) = parse_loop \<lparr>sc_r = r, sc_isVendor = v'\<rparr> p'" by blast
  have "readline (line @ [CHR 10] @ rest) = (line @ [CHR 10], rest)" by (rule readline_line [OF assms(3)])
  moreover have "scan_line (line @ [CHR 10]) v' = (VENDOR, None, True)"
  proof -
    obtain c t where l: "line = c # t" using assms(4) by (cases line) (auto simp: isVendor_def isHexDigit_def isHexLetter_def)
    have "scanEntry (line @ [CHR 10]) 4 = None" using assms(5) by (simp add: scanEntry_def)
    moreover have "c \<noteq> CHR ''E''" "c \<noteq> CHR 10" "c \<noteq> CHR ''#''" "isVendor (line @ [CHR 10])"
      using assms(4) by (auto simp: l isVendor_def isHexDigit_def isHexLetter_def is_digit_def)
    ultimately show ?thesis by (simp add: scan_line_def l line_tests)
  qed
  ultimately have "scan \<lparr>sc_r = line @ [CHR 10] @ rest, sc_isVendor = v'\<rparr> = None" unfolding scan_def by simp
  with assms(1) p show ?thesis by (simp add: NewDB_def parse_loop.simps)
qed

theorem short_line_panics_witness: "NewDB no_file (print_db sample_lines @ ''10'' @ [CHR 10] @ ''10de  NVIDIA'') = None"
proof (rule short_line_panics [OF no_file_db sample_lines_wf])
  have "TrimSpace ''10'' = ''10''" by code_simp
  then show "length (TrimSpace ''10'') < 4" by simp
qed (simp_all add: isVendor_def isHexDigit_def is_digit_def)

end
