(* ===== verification/Bus.thy ===== *)
theory Bus
  imports Controller Aliases Pciids
begin

text \<open>
  The way from the PCI bus to the kubelet: what nvpci reads (Sysfs), with the names of the
  database (Pciids), goes through discovery and the controller to the plugins on the host
  (Node) and their allocations.
\<close>

section \<open>The devices read, and the plugins that offer them\<close>

lemma read_is_discovered:
  assumes "discovered h = Some (Inr ds)" and "sf_ReadDir h PCIDevicesRoot = Inr dirs" and "(a, isdir) \<in> set dirs"
    and "read_device h a = Inr (Some d)"
  shows "d \<in> set ds"
proof -
  have "d \<in> set (own_devices h dirs)" using assms(3,4) by (force simp: own_devices_def List.map_filter_def)
  moreover have "mset ds = mset (own_devices h dirs)" using discovered_Inr [OF assms(1)] assms(2) by auto
  ultimately show ?thesis by (metis set_mset_mset)
qed

lemma discovered_is_read:
  assumes "discovered h = Some (Inr ds)" and "d \<in> set ds"
  shows "\<exists>a. read_device h a = Inr (Some d)"
proof -
  obtain dirs where "mset ds = mset (own_devices h dirs)" using discovered_Inr [OF assms(1)] by blast
  then have "d \<in> set (own_devices h dirs)" using assms(2) by (metis set_mset_mset)
  then obtain a where "(case read_device h a of Inl err \<Rightarrow> None | Inr d \<Rightarrow> d) = Some d"
    by (auto simp: own_devices_def List.map_filter_def)
  then have "read_device h a = Inr (Some d)" by (cases "read_device h a") simp_all
  then show ?thesis by blast
qed

text \<open>The file of a device that its allocation must give.\<close>

definition vfio_node :: "bool \<Rightarrow> pci_device \<Rightarrow> string" where
  "vfio_node b d = (if b then Join [vfioDevicePath, ''devices'', pci_IommuFD d] else Join [vfioDevicePath, Itoa (pci_IommuGroup d)])"

lemma vfio_node_given:
  assumes "supportsIOMMUFD stat = Inr b" and "d \<in> set ds" and "eligible d"
  shows "vfio_node b d \<in> set (key_nodes b (iommuMap (createIommuDeviceMap stat (Inr ds) g)) (iommu_key b d))"
proof (cases b)
  case True
  have "to_nv d \<in> set (members b ds (iommu_key b d))" using assms(2,3) by (auto simp: in_members)
  then have "to_nv d \<in> set (get_slice (iommuMap (createIommuDeviceMap stat (Inr ds) g)) (iommu_key b d))"
    using get_slice_slice_opt [OF create_spec(1) [OF assms(1)]] by simp
  then show ?thesis using True by (force simp: key_nodes_def vfio_node_def to_nv_def)
qed (simp add: key_nodes_def vfio_node_def iommu_key_legacy)

section \<open>Names from the database\<close>

lemma read_device_name:
  "read_device h a = Inr (Some d) \<Longrightarrow> pci_DeviceName d =
     (case sf_names h (pci_Vendor d) (pci_Device d) of Inl err \<Rightarrow> UnknownDeviceString | Inr n \<Rightarrow> n)"
  by (auto simp: read_device_def and_then_def Let_def split: sum.splits if_splits)

text \<open>The name of a device is that of its vendor and its ID, so one ID has one name where it has one vendor.\<close>

definition one_vendor :: "pci_device list \<Rightarrow> bool" where
  "one_vendor ds \<longleftrightarrow> (\<forall>x \<in> set ds. \<forall>y \<in> set ds. eligible x \<longrightarrow> eligible y \<longrightarrow> pci_Device x = pci_Device y \<longrightarrow>
     pci_Vendor x = pci_Vendor y)"

lemma one_name:
  assumes "discovered h = Some (Inr ds)" and "supportsIOMMUFD stat = Inr b" and "g = createIommuDeviceMap stat (Inr ds) g0"
    and "one_vendor ds" and "has_ID g d x" and "has_ID g d y"
  shows "DeviceName x = DeviceName y"
proof -
  note i = create_spec(1) [OF assms(2), of ds g0, folded assms(3)]
  have el: "\<exists>z. z \<in> set ds \<and> eligible z \<and> dev = to_nv z \<and> hex4 (pci_Device z) = d" if "has_ID g d dev" for dev
  proof -
    from that obtain k where "dev \<in> set (members b ds k)" "hex4 (DeviceID dev) = d" by (auto simp: has_ID_def i)
    then show ?thesis by (auto simp: in_members to_nv_def)
  qed
  obtain u v where u: "u \<in> set ds" "eligible u" "x = to_nv u" "hex4 (pci_Device u) = d"
    and v: "v \<in> set ds" "eligible v" "y = to_nv v" "hex4 (pci_Device v) = d" using el [OF assms(5)] el [OF assms(6)] by blast
  have d: "pci_Device u = pci_Device v" using u(4) v(4) by (metis hex4_inj)
  with u(1,2) v(1,2) assms(4) have w: "pci_Vendor u = pci_Vendor v" unfolding one_vendor_def by blast
  obtain a b where "read_device h a = Inr (Some u)" "read_device h b = Inr (Some v)"
    using discovered_is_read [OF assms(1)] u(1) v(1) by blast
  then have "pci_DeviceName u = pci_DeviceName v" using read_device_name d w by metis
  with u(3) v(3) show ?thesis by (simp add: to_nv_def)
qed

text \<open>The name of an NVIDIA device, from the lines of the database.\<close>

definition lines_name :: "db_line list \<Rightarrow> 16 word \<Rightarrow> string" where
  "lines_name ls w = (case name_in_db PCINvidiaVendorID w ls of None \<Rightarrow> UnknownDeviceString | Some n \<Rightarrow> n)"

definition names_from :: "db_line list \<Rightarrow> sysfs \<Rightarrow> bool" where
  "names_from ls h \<longleftrightarrow> wf_db ls \<and> (\<exists>db. parse (print_db ls) = Some db \<and> sf_names h = GetDeviceName db)"

lemma discovered_name:
  assumes "names_from ls h" and "discovered h = Some (Inr ds)" and "d \<in> set ds" and "pci_Vendor d = PCINvidiaVendorID"
  shows "pci_DeviceName d = lines_name ls (pci_Device d)"
proof -
  obtain db where db: "wf_db ls" "parse (print_db ls) = Some db" "sf_names h = GetDeviceName db"
    using assms(1) by (auto simp: names_from_def)
  then have n: "case name_in_db v w ls of Some n \<Rightarrow> GetDeviceName db v w = Inr n | None \<Rightarrow> isl (GetDeviceName db v w)" for v w
    using parse_names [OF db(1), of "[]"] by simp
  obtain a where "read_device h a = Inr (Some d)" using discovered_is_read [OF assms(2,3)] by blast
  from read_device_name [OF this] n [of PCINvidiaVendorID "pci_Device d"] show ?thesis
    by (auto simp: assms(4) db(3) lines_name_def split: option.splits sum.splits)
qed

text \<open>Without aliases the name of a device type is that of the database, where all devices offered are NVIDIA's.\<close>

lemma plugin_name_listed:
  assumes "names_from ls h" and "discovered h = Some (Inr ds)" and "supportsIOMMUFD stat = Inr b"
    and "\<forall>d \<in> set ds. eligible d \<longrightarrow> pci_Vendor d = PCINvidiaVendorID"
    and "g = createIommuDeviceMap stat (Inr ds) g0" and "PGPUAlias g0 = []" and "NVSwitchAlias g0 = []"
    and "range_order (iommuMap g) (names (hex4 w))" and "hex4 w \<in> fmdom' (deviceMap g)"
    and "formatDeviceName (lines_name ls w) \<noteq> []"
  shows "plugin_name g names (hex4 w) = formatDeviceName (lines_name ls w)"
proof -
  note i = create_spec(1) [OF assms(3), of ds g0, folded assms(5)]
  note dm = create_spec(2) [OF assms(3), of ds g0, folded assms(5)]
  have fmt: "DeviceName dev = lines_name ls w" if "has_ID g (hex4 w) dev" for dev
  proof -
    from that obtain k where "dev \<in> set (members b ds k)" "DeviceID dev = w"
      by (auto simp: has_ID_def i hex4_inj)
    then obtain x where x: "x \<in> set ds" "eligible x" "dev = to_nv x" "pci_Device x = w" by (auto simp: in_members)
    with discovered_name [OF assms(1,2) x(1)] assms(4) show ?thesis by (simp add: to_nv_def)
  qed
  from assms(9) have "type_keys b ds (hex4 w) \<noteq> []" by (simp add: dom_slice_opt [OF dm])
  then obtain k where "k \<in> set (type_keys b ds (hex4 w))" using hd_in_set by blast
  from type_keys_ID [OF this] have "hd (members b ds k) \<in> set (members b ds k)" "hex4 (DeviceID (hd (members b ds k))) = hex4 w"
    "members b ds k \<noteq> []" by simp_all
  then have "has_ID g (hex4 w) (hd (members b ds k))" unfolding has_ID_def i by (intro exI [of _ k]) auto
  with getDeviceNameForID_range [OF assms(8), of "hex4 w"] fmt
  have "getDeviceNameForID g (names (hex4 w)) (hex4 w) = formatDeviceName (lines_name ls w)" by auto
  moreover have "PGPUAlias g = []" "NVSwitchAlias g = []" using assms(5-7) by simp_all
  ultimately show ?thesis using assms(10) by (simp add: plugin_name_def)
qed

section \<open>The plugins on their host\<close>

text \<open>The host right before the controller's loop: its plugins are still to be started.\<close>

definition controller_node :: "globals \<Rightarrow> bool \<Rightarrow> (string \<Rightarrow> string list) \<Rightarrow> string list \<Rightarrow> node \<Rightarrow> bool" where
  "controller_node g b names ks N \<longleftrightarrow> n_plugins N = [] \<and> n_todo N = map (new_plugin g b names) ks \<and> n_ops N = []"

definition type_spec :: "globals \<Rightarrow> bool \<Rightarrow> (string \<Rightarrow> string list) \<Rightarrow> string \<Rightarrow> string \<times> string \<times> string list" where
  "type_spec g b names d = (plugin_name g names d, if b then ''/dev/vfio/devices/'' else ''/dev/vfio/'', get_slice (deviceMap g) d)"

lemma new_plugin_spec: "map (new_plugin g b names) ks = todo_of (map (type_spec g b names) ks)"
  by (simp add: todo_of_def type_spec_def new_plugin_def plugin_devices_eq)

lemma controller_node_init: "controller_node g b names ks N \<longleftrightarrow> node_init (map (type_spec g b names) ks) N"
  by (simp add: controller_node_def node_init_def new_plugin_spec)

section \<open>A sample bus\<close>

text \<open>A bus as a table: for each address the files and the links of the device.\<close>

type_synonym bus_table = "(string \<times> (string \<times> string) list \<times> (string \<times> string) list) list"

definition bus_entry :: "bus_table \<Rightarrow> ((string \<times> string) list \<times> (string \<times> string) list \<Rightarrow> (string \<times> string) list) \<Rightarrow> string \<Rightarrow> string result" where
  "bus_entry tab part p = (case map_of tab (Base (Dir p)) of None \<Rightarrow> Inl ErrNotExist | Some x \<Rightarrow> found (part x) p)"

definition bus_of :: "bus_table \<Rightarrow> (16 word \<Rightarrow> 16 word \<Rightarrow> string result) \<Rightarrow> sysfs" where
  "bus_of tab names = \<lparr>sf_ReadDir = (\<lambda>p. if p = PCIDevicesRoot then Inr (map (\<lambda>(a, _). (a, False)) tab) else Inl ErrNotExist),
     sf_ReadFile = bus_entry tab fst, sf_Stat = (\<lambda>p. Some ErrNotExist), sf_EvalSymlinks = bus_entry tab snd, sf_names = names\<rparr>"

lemma devices_rooted: "PCIDevicesRoot = rooted [''sys'', ''bus'', ''pci'', ''devices'']"
  by (simp add: PCIDevicesRoot_def rooted_def)

lemma attribute_path:
  assumes "simple_name a" and "simple_name f"
  shows "Base (Join [Join [PCIDevicesRoot, a], f]) = f" and "Base (Dir (Join [Join [PCIDevicesRoot, a], f])) = a"
proof -
  let ?ds = "[''sys'', ''bus'', ''pci'', ''devices'']"
  have d: "\<forall>c \<in> set ?ds. simple_name c" by (simp add: simple_name_def)
  have j: "Join [PCIDevicesRoot, a] = rooted (?ds @ [a])"
    unfolding devices_rooted by (rule Join_rooted) (use assms(1) d in simp_all)
  have "Join [rooted (?ds @ [a]), f] = rooted ((?ds @ [a]) @ [f])"
    by (rule Join_rooted) (use assms d in simp_all)
  with j have p: "Join [Join [PCIDevicesRoot, a], f] = rooted ((?ds @ [a]) @ [f])" by simp
  show "Base (Join [Join [PCIDevicesRoot, a], f]) = f" unfolding p by (rule Base_rooted) (use assms in simp_all)
  have "Dir (rooted ((?ds @ [a]) @ [f])) = rooted (?ds @ [a])" by (rule Dir_rooted) (use assms d in auto)
  then show "Base (Dir (Join [Join [PCIDevicesRoot, a], f])) = a"
    unfolding p using Base_rooted [of ?ds a] assms(1) by simp
qed

lemma bus_entry_at:
  assumes "map_of tab a = Some x" and "simple_name a" and "simple_name f"
  shows "bus_entry tab part (Join [Join [PCIDevicesRoot, a], f]) =
    (case map_of (part x) f of None \<Rightarrow> Inl ErrNotExist | Some y \<Rightarrow> Inr y)"
  by (simp add: bus_entry_def attribute_path [OF assms(2,3)] assms(1) found_def)

text \<open>An A100 whose group the kernel numbers \<open>grp\<close>.\<close>

definition a100_files :: "16 word \<Rightarrow> (string \<times> string) list" where
  "a100_files w = (''device'', kernel_hex w) # sample_files_of (''0x10de'' @ [CHR 10]) (''0x030200'' @ [CHR 10])"

definition a100_links :: "string \<Rightarrow> (string \<times> string) list" where
  "a100_links grp = (''iommu_group'', ''/sys/kernel/iommu_groups/'' @ grp) # sample_links"

definition a100 :: "string \<Rightarrow> 16 word \<Rightarrow> go_int \<Rightarrow> pci_device" where
  "a100 addr w grp = \<lparr>pci_Address = addr, pci_Vendor = PCINvidiaVendorID, pci_Class = PCI3dControllerClass, pci_Device = w,
     pci_DeviceName = ''GA100 [A100 PCIe 40GB]'', pci_Driver = ''vfio-pci'', pci_IommuGroup = grp, pci_IommuFD = []\<rparr>"

lemma a100_numbers: "ParseUint ''0x10de'' 0 16 = Num 0x10de" "ParseUint ''0x030200'' 0 32 = Num 0x030200"
  by (simp_all add: parse_defs)

lemma a100_trims: "TrimSpace (''0x10de'' @ [CHR 10]) = ''0x10de''" "TrimSpace (''0x030200'' @ [CHR 10]) = ''0x030200''"
  by (simp_all add: TrimSpace_def ascii_space_def is_space_def)

lemma attribute_names: "simple_name ''vendor''" "simple_name ''class''" "simple_name ''device''" "simple_name ''numa_node''"
  "simple_name ''subsystem_vendor''" "simple_name ''subsystem_device''" "simple_name ''driver''" "simple_name ''iommu_group''"
  "simple_name ''resource''" "simple_name ''physfn''" "simple_name ''vfio-dev''"
  by (simp_all add: simple_name_def)

lemma read_a100:
  assumes "map_of tab a = Some (a100_files w, a100_links grp)" and "simple_name a"
    and "Base (''/sys/kernel/iommu_groups/'' @ grp) = grp" and "ParseInt64 (TrimSpace grp) = Some n"
    and "names PCINvidiaVendorID w = Inr ''GA100 [A100 PCIe 40GB]''"
  shows "read_device (bus_of tab names) a = Inr (Some (a100 a w n))"
proof -
  let ?h = "bus_of tab names" and ?d = "Join [PCIDevicesRoot, a]"
  note at = bus_entry_at [OF assms(1,2)]
  have attr: "sf_ReadFile ?h (Join [?d, f]) = (case map_of (a100_files w) f of None \<Rightarrow> Inl ErrNotExist | Some y \<Rightarrow> Inr y)"
    and link: "sf_EvalSymlinks ?h (Join [?d, f]) = (case map_of (a100_links grp) f of None \<Rightarrow> Inl ErrNotExist | Some y \<Rightarrow> Inr y)"
    if "simple_name f" for f
    using at [OF that] by (simp_all add: bus_of_def)
  have "Base PCIDevicesRoot = ''devices''" by code_simp
  then have "Join [?d, ''vfio-dev''] \<noteq> PCIDevicesRoot" using attribute_path(1) [OF assms(2) attribute_names(11)] by auto
  then have fd: "sf_ReadDir ?h (Join [?d, ''vfio-dev'']) = Inl ErrNotExist" by (simp add: bus_of_def)
  have vfio: "Base ''/sys/bus/pci/drivers/vfio-pci'' = ''vfio-pci''" by code_simp
  have w: "TrimSpace (kernel_hex w) = ''0x'' @ hex4 w" "ParseUint (''0x'' @ hex4 w) 0 16 = Num (unat w)"
    by (rule TrimSpace_hex) (rule ParseUint_hex)
  have "sf_names ?h = names" by (simp add: bus_of_def)
  then show ?thesis
    unfolding read_device_def Let_def
    by (simp add: readPCIFieldOptional_def readPCIField_def readPCIFieldString_def getDriver_def getIOMMUGroup_def getIOMMUFD_def
        parse_numa_def wrapped_def and_then_def attr link attribute_names fd a100_files_def a100_links_def sample_files_of_def
        sample_links_def w [simplified] a100_trims [simplified] a100_numbers sample_trims [simplified]
        sample_parsed [simplified] vfio assms(3) [simplified] assms(4) assms(5) [unfolded PCINvidiaVendorID_def] read_resources_def
        PCINvidiaVendorID_def a100_def PCI3dControllerClass_def)
qed

lemma devices_in_bus:
  assumes "list_all (\<lambda>(a, x). simple_name a \<and> map_of tab a = Some x \<and> map_of (snd x) ''physfn'' = None \<and>
      read_device (bus_of tab names) a = Inr (Some (dev a))) es"
  shows "devices_in (bus_of tab names) (map (\<lambda>(a, _). (a, False)) es) fmempty = Some (Inr (map (\<lambda>(a, _). (dev a, NoSriov)) es))"
  using assms
proof (induction es)
  case (Cons e es)
  obtain a x where e: "e = (a, x)" by (cases e)
  let ?h = "bus_of tab names"
  have h: "simple_name a" "map_of tab a = Some x" "map_of (snd x) ''physfn'' = None" "read_device ?h a = Inr (Some (dev a))"
    using Cons.prems by (simp_all add: e)
  have "sf_EvalSymlinks ?h (Join [Join [PCIDevicesRoot, a], ''physfn'']) = Inl ErrNotExist"
    using bus_entry_at [OF h(2,1) attribute_names(10), of snd] h(3) by (simp add: bus_of_def)
  moreover have "getSriovInfoForPhysicalFunction ?h (Join [PCIDevicesRoot, a]) = Inr NoSriov"
    by (simp add: getSriovInfoForPhysicalFunction_def bus_of_def)
  ultimately have "getNvidiaDeviceByPciBusID ?h a fmempty = Some (Inr (Some (dev a, NoSriov), fmempty))"
    by (subst getNvidiaDeviceByPciBusID.simps) (simp add: h(4) as_physical_def IsPF_def)
  with Cons show ?case by (simp add: e)
qed simp

lemma discovered_bus:
  assumes "list_all (\<lambda>(a, x). simple_name a \<and> map_of tab a = Some x \<and> map_of (snd x) ''physfn'' = None \<and>
      read_device (bus_of tab names) a = Inr (Some (dev a))) tab"
    and "sorted (map (\<lambda>(a, _). int (addressToID (pci_Address (dev a)))) tab)"
  shows "discovered (bus_of tab names) = Some (Inr (map (\<lambda>(a, _). dev a) tab))"
proof -
  have "sort_devices (map (\<lambda>(a, _). (dev a, NoSriov)) tab) = map (\<lambda>(a, _). (dev a, NoSriov)) tab"
    unfolding sort_devices_def by (rule sort_key_id_if_sorted) (use assms(2) in \<open>simp add: split_def comp_def\<close>)
  then show ?thesis
    using devices_in_bus [OF assms(1)] by (simp add: discovered_def GetAllDevices_def bus_of_def split_def comp_def)
qed

text \<open>Two types of the A100, of one name, as the database packed with nvpci has them.\<close>

definition twin_table :: bus_table where
  "twin_table = [(''0000:01:00.0'', a100_files 0x20b1, a100_links ''1''), (''0000:02:00.0'', a100_files 0x20f1, a100_links ''2'')]"

definition twin_bus :: sysfs where
  "twin_bus = bus_of twin_table (GetDeviceName (the (parse (print_db sample_lines))))"

definition twins :: "pci_device list" where
  "twins = [a100 ''0000:01:00.0'' 0x20b1 1, a100 ''0000:02:00.0'' 0x20f1 2]"

lemma twin_bus_names: "names_from sample_lines twin_bus"
  using parse_names [OF sample_lines_wf, of "[]"] sample_lines_wf by (auto simp: names_from_def twin_bus_def bus_of_def)

lemma twin_in_db: "name_in_db PCINvidiaVendorID 0x20b1 sample_lines = Some ''GA100 [A100 PCIe 40GB]''"
  "name_in_db PCINvidiaVendorID 0x20f1 sample_lines = Some ''GA100 [A100 PCIe 40GB]''"
  by (simp_all add: sample_lines_def PCINvidiaVendorID_def)

lemma twin_lines: "lines_name sample_lines 0x20b1 = ''GA100 [A100 PCIe 40GB]''" "lines_name sample_lines 0x20f1 = ''GA100 [A100 PCIe 40GB]''"
  by (simp_all add: lines_name_def twin_in_db)

lemma twin_reads:
  "read_device twin_bus ''0000:01:00.0'' = Inr (Some (a100 ''0000:01:00.0'' 0x20b1 1))"
  "read_device twin_bus ''0000:02:00.0'' = Inr (Some (a100 ''0000:02:00.0'' 0x20f1 2))"
proof -
  let ?names = "GetDeviceName (the (parse (print_db sample_lines)))"
  obtain db where db: "parse (print_db sample_lines) = Some db"
    "\<forall>v d. case name_in_db v d sample_lines of Some n \<Rightarrow> GetDeviceName db v d = Inr n | None \<Rightarrow> isl (GetDeviceName db v d)"
    using parse_names [OF sample_lines_wf, of "[]"] by auto
  have "(case name_in_db v d sample_lines of Some n \<Rightarrow> ?names v d = Inr n | None \<Rightarrow> isl (?names v d))" for v d
    unfolding db(1) option.sel using db(2) by blast
  from this [of PCINvidiaVendorID "0x20b1"] this [of PCINvidiaVendorID "0x20f1"]
  have n: "?names PCINvidiaVendorID 0x20b1 = Inr ''GA100 [A100 PCIe 40GB]''" "?names PCINvidiaVendorID 0x20f1 = Inr ''GA100 [A100 PCIe 40GB]''"
    by (simp_all only: twin_in_db option.case)
  have g: "Base (''/sys/kernel/iommu_groups/'' @ ''1'') = ''1''" "Base (''/sys/kernel/iommu_groups/'' @ ''2'') = ''2''" by code_simp+
  have p: "ParseInt64 (TrimSpace ''1'') = Some 1" "ParseInt64 (TrimSpace ''2'') = Some 2"
    by (simp_all add: ParseInt64_def split_sign_def parse_defs TrimSpace_def ascii_space_def is_space_def)
  show "read_device twin_bus ''0000:01:00.0'' = Inr (Some (a100 ''0000:01:00.0'' 0x20b1 1))" unfolding twin_bus_def
    by (rule read_a100 [OF _ _ g(1) p(1)]) (use n in \<open>simp_all add: twin_table_def simple_name_def\<close>)
  show "read_device twin_bus ''0000:02:00.0'' = Inr (Some (a100 ''0000:02:00.0'' 0x20f1 2))" unfolding twin_bus_def
    by (rule read_a100 [OF _ _ g(2) p(2)]) (use n in \<open>simp_all add: twin_table_def simple_name_def\<close>)
qed

lemma discovered_twins: "discovered twin_bus = Some (Inr twins)"
proof -
  have i: "addressToID ''0000:01:00.0'' = 0x1000" "addressToID ''0000:02:00.0'' = 0x2000"
    by (simp_all add: addressToID_def parse_defs)
  have f: "map_of (a100_links grp) ''physfn'' = None" for grp by (simp add: a100_links_def sample_links_def)
  have s: "simple_name ''0000:01:00.0''" "simple_name ''0000:02:00.0''" by (simp_all add: simple_name_def)
  let ?dev = "\<lambda>a. if a = ''0000:01:00.0'' then a100 a 0x20b1 1 else a100 a 0x20f1 2"
  have "list_all (\<lambda>(a, x). simple_name a \<and> map_of twin_table a = Some x \<and> map_of (snd x) ''physfn'' = None \<and>
      read_device twin_bus a = Inr (Some (?dev a))) twin_table"
    unfolding twin_table_def by (simp add: s f twin_reads)
  moreover have "sorted (map (\<lambda>(a, _). int (addressToID (pci_Address (?dev a)))) twin_table)"
    by (simp add: twin_table_def a100_def i)
  ultimately have "discovered twin_bus = Some (Inr (map (\<lambda>(a, _). ?dev a) twin_table))"
    unfolding twin_bus_def by (rule discovered_bus)
  then show ?thesis by (simp add: twin_table_def twins_def)
qed

text \<open>The host of that bus, and what the controller makes of it.\<close>

definition twin_world :: surroundings where
  "twin_world = \<lparr>s_stat = no_iommufd, s_devices = Inr twins, s_host = sample_host no_iommufd,
     s_orders = (\<lambda>_. \<lparr>o_gpu = [], o_switch = [], o_names = (\<lambda>_. [])\<rparr>),
     s_stat' = no_iommufd, s_env = all_fine, s_names = (\<lambda>_ _. [''1'', ''2'']), s_ids = (\<lambda>_. [hex4 0x20b1, hex4 0x20f1])\<rparr>"

definition twin_maps :: "globals \<Rightarrow> globals" where
  "twin_maps g = createIommuDeviceMap no_iommufd (Inr twins) g"

lemma eligible_a100 [simp]: "eligible (a100 addr w grp)" "pci_Device (a100 addr w grp) = w" "pci_Vendor (a100 addr w grp) = PCINvidiaVendorID"
  "iommu_key False (a100 addr w grp) = Itoa grp" "pci_IommuGroup (a100 addr w grp) = grp"
  by (simp_all add: a100_def eligible_def iommu_key_def pci_class_defs)

lemma twin_keys: "Itoa 1 = ''1''" "Itoa 2 = ''2''"
  by code_simp+

lemma twin_maps_are:
  "range_order (deviceMap (twin_maps g)) [hex4 0x20b1, hex4 0x20f1]" "range_order (iommuMap (twin_maps g)) [''1'', ''2'']"
proof -
  have m: "members False twins k = (if k = ''1'' then [to_nv (a100 ''0000:01:00.0'' 0x20b1 1)]
      else if k = ''2'' then [to_nv (a100 ''0000:02:00.0'' 0x20f1 2)] else [])" for k
    by (auto simp: members_def twins_def twin_keys)
  have k: "group_keys False twins = [''1'', ''2'']"
    by (simp add: group_keys_def twins_def twin_keys first_occ_def)
  have t: "type_keys False twins d = (if d = hex4 0x20b1 then [''1''] else if d = hex4 0x20f1 then [''2''] else [])" for d
    by (auto simp: type_keys_def k m hex4_inj)
  have i: "fmlookup (iommuMap (twin_maps g)) k = slice_opt (members False twins k)"
    and d: "fmlookup (deviceMap (twin_maps g)) d = slice_opt (type_keys False twins d)" for k d
    unfolding twin_maps_def by (rule create_spec, simp)+
  show "range_order (deviceMap (twin_maps g)) [hex4 0x20b1, hex4 0x20f1]" "range_order (iommuMap (twin_maps g)) [''1'', ''2'']"
    by (auto simp: range_order_def dom_slice_opt [OF i] dom_slice_opt [OF d] m t hex4_inj)
qed

lemma twin_controller:
  obtains f c where "InitiateDevicePlugin twin_world g fmempty = (twin_maps g, f, Some c)"
proof -
  obtain ps tr where "start_plugins all_fine (twin_maps g) False (s_names twin_world (twin_maps g)) [hex4 0x20b1, hex4 0x20f1] [] = (ps, tr)"
    by (metis surj_pair)
  then show thesis
    using that by (simp add: InitiateDevicePlugin_def createDevicePlugins_def Let_def twin_maps_def [symmetric] twin_world_def
        del: start_plugins.simps)
qed

section \<open>Properties\<close>

text \<open>C5. From the bus to the virtual machine: where the enumeration of the bus succeeds, as it does only
  if every entry of the bus can be read, each GPU or NVSwitch on it that is bound to vfio-pci is
  offered by a plugin of the controller that takes its devices from that enumeration, and the
  allocation of what the plugin offers for it succeeds and hands over the device's own file under
  /dev/vfio. With IOMMUFD every such device must have a handle; the probe must answer alike at
  discovery and at allocation.\<close>

theorem bus_to_allocation:
  assumes "discovered h = Some (Inr ds)" and "sf_ReadDir h PCIDevicesRoot = Inr dirs" and "(a, isdir) \<in> set dirs"
    and "read_device h a = Inr (Some d)" and "eligible d"
    and "InitiateDevicePlugin w g0 files = (g, files', Some c)" and "s_devices w = Inr ds"
    and "range_order (deviceMap g) (s_ids w g)"
    and "supportsIOMMUFD (s_stat w) = Inr b" and "supportsIOMMUFD stat = Inr b"
    and "b \<longrightarrow> (\<forall>d \<in> set ds. eligible d \<longrightarrow> pci_IommuFD d \<noteq> [])"
  shows "\<exists>(dp, err) \<in> set (started_plugins c). \<exists>dev \<in> set (devs dp). \<exists>resp.
    Allocate stat g [[ID dev]] = Inr [resp] \<and> vfio_node b d \<in> HostPath ` set resp"
proof -
  have g: "g = createIommuDeviceMap (s_stat w) (Inr ds) g0"
    using InitiateDevicePlugin_parts(1) [OF assms(6)] assms(7) by simp
  note i = create_spec(1) [OF assms(9), of ds g0, folded g]
  note dm = create_spec(2) [OF assms(9), of ds g0, folded g]
  have wf: "wf_maps g" by (rule wf_maps_spec [OF i dm])
  have d: "d \<in> set ds" by (rule read_is_discovered [OF assms(1-4)])
  have m: "to_nv d \<in> set (members b ds (iommu_key b d))" using d assms(5) by (auto simp: in_members)
  then have "iommu_key b d \<in> fmdom' (iommuMap g)" by (auto simp: dom_slice_opt [OF i])
  from key_offered [OF InitiateDevicePlugin_parts(2) [OF assms(6)] wf assms(8) this] obtain dp err dev
    where dp: "(dp, err) \<in> set (started_plugins c)" "dev \<in> set (devs dp)" "ID dev = iommu_key b d" by blast
  have "members b ds (iommu_key b d) \<noteq> []" using m by auto
  moreover have "b \<longrightarrow> (\<forall>x \<in> set (members b ds (iommu_key b d)). IommuFD x \<noteq> [])"
    using assms(11) by (auto simp: in_members to_nv_def)
  ultimately have "allocatable b (iommuMap g) (iommu_key b d)" by (simp add: allocatable_def i slice_opt_def list_all_iff)
  then have "Allocate stat g [[ID dev]] = Inr [response b (iommuMap g) [ID dev]]"
    using Allocate_cases [OF assms(10), of g "[[ID dev]]"] by (auto simp: dp(3))
  moreover have "vfio_node b d \<in> HostPath ` set (response b (iommuMap g) [ID dev])"
    using vfio_node_given [OF assms(9) d assms(5), of g0] by (simp add: HostPath_response dp(3) g)
  ultimately show ?thesis using dp(1,2) by blast
qed

theorem bus_to_allocation_witness:
  "\<exists>f c. discovered twin_bus = Some (Inr twins) \<and> InitiateDevicePlugin twin_world init_globals fmempty = (twin_maps init_globals, f, Some c) \<and>
     (\<exists>(dp, err) \<in> set (started_plugins c). \<exists>dev \<in> set (devs dp). \<exists>resp.
       Allocate no_iommufd (twin_maps init_globals) [[ID dev]] = Inr [resp] \<and> ''/dev/vfio/2'' \<in> HostPath ` set resp)"
proof -
  obtain f c where i: "InitiateDevicePlugin twin_world init_globals fmempty = (twin_maps init_globals, f, Some c)"
    by (rule twin_controller)
  have d: "sf_ReadDir twin_bus PCIDevicesRoot = Inr [(''0000:01:00.0'', False), (''0000:02:00.0'', False)]"
    by (simp add: twin_bus_def bus_of_def twin_table_def)
  have v: "vfio_node False (a100 ''0000:02:00.0'' 0x20f1 2) = ''/dev/vfio/2''"
    using Join_vfio [of "''2''"] by (simp add: vfio_node_def twin_keys simple_name_def)
  have "\<exists>(dp, err) \<in> set (started_plugins c). \<exists>dev \<in> set (devs dp). \<exists>resp. Allocate no_iommufd (twin_maps init_globals) [[ID dev]] = Inr [resp] \<and>
      vfio_node False (a100 ''0000:02:00.0'' 0x20f1 2) \<in> HostPath ` set resp"
    by (rule bus_to_allocation [OF discovered_twins d _ twin_reads(2) _ i, where isdir = False])
      (simp_all add: twin_world_def twin_maps_are(1))
  with discovered_twins i show ?thesis unfolding v by blast
qed

text \<open>C17. Clearing the alias does not part the types: where the two types' names in the database of
  nvpci have one form, or neither type is in it, both are offered as one resource on one
  socket, so they fight like types with an alias; the name that would part them, the device ID,
  is used only where the name is empty.\<close>

theorem database_twins_share_resource:
  assumes "names_from ls h" and "discovered h = Some (Inr ds)" and "supportsIOMMUFD stat = Inr b"
    and "\<forall>d \<in> set ds. eligible d \<longrightarrow> pci_Vendor d = PCINvidiaVendorID"
    and "g = createIommuDeviceMap stat (Inr ds) g0" and "PGPUAlias g0 = []" and "NVSwitchAlias g0 = []"
    and "\<forall>t. range_order (iommuMap g) (names t)" and "hex4 v \<in> fmdom' (deviceMap g)" and "hex4 w \<in> fmdom' (deviceMap g)"
    and "formatDeviceName (lines_name ls v) = formatDeviceName (lines_name ls w)" and "formatDeviceName (lines_name ls v) \<noteq> []"
  shows "plugin_name g names (hex4 v) = plugin_name g names (hex4 w) \<and>
    socketPath (new_plugin g b' names (hex4 v)) = socketPath (new_plugin g b' names (hex4 w)) \<and>
    ResourceName (register_request (new_plugin g b' names (hex4 v))) = ''nvidia.com/'' @ formatDeviceName (lines_name ls v) \<and>
    ResourceName (register_request (new_plugin g b' names (hex4 w))) = ''nvidia.com/'' @ formatDeviceName (lines_name ls v)"
proof -
  note n = plugin_name_listed [OF assms(1-7), where names = names]
  have "plugin_name g names (hex4 v) = formatDeviceName (lines_name ls v)" by (rule n) (use assms(8,9,12) in simp_all)
  moreover have "plugin_name g names (hex4 w) = formatDeviceName (lines_name ls w)" by (rule n) (use assms(8,10-12) in simp_all)
  ultimately show ?thesis using assms(11) by (simp add: register_request_def DeviceNamespace_def)
qed

theorem database_twins_share_resource_witness:
  "discovered twin_bus = Some (Inr twins) \<and> plugin_name (twin_maps init_globals) (\<lambda>_. [''1'', ''2'']) (hex4 0x20b1) =
     plugin_name (twin_maps init_globals) (\<lambda>_. [''1'', ''2'']) (hex4 0x20f1) \<and>
   ResourceName (register_request (new_plugin (twin_maps init_globals) False (\<lambda>_. [''1'', ''2'']) (hex4 0x20f1))) =
     ''nvidia.com/GA100_A100_PCIE_40GB''"
proof -
  let ?g = "twin_maps init_globals" and ?names = "\<lambda>_ :: string. [''1'', ''2'']"
  have f: "formatDeviceName ''GA100 [A100 PCIe 40GB]'' = ''GA100_A100_PCIE_40GB''" by code_simp
  have t: "hex4 0x20b1 \<in> fmdom' (deviceMap ?g)" "hex4 0x20f1 \<in> fmdom' (deviceMap ?g)"
    using range_orderD(2) [OF twin_maps_are(1), of init_globals] by auto
  have "PGPUAlias init_globals = []" "NVSwitchAlias init_globals = []" by (simp_all add: init_globals_def)
  moreover have "\<forall>d \<in> set twins. eligible d \<longrightarrow> pci_Vendor d = PCINvidiaVendorID" by (simp add: twins_def)
  moreover have "\<forall>t. range_order (iommuMap ?g) (?names t)" using twin_maps_are(2) by simp
  ultimately show ?thesis
    using database_twins_share_resource [OF twin_bus_names discovered_twins probe_samples(1) _ twin_maps_def _ _ _ t, of ?names False]
      discovered_twins by (simp add: twin_lines f)
qed

text \<open>C8. Two device types of one name, which with a GPU alias, as by default, are any two GPU types, can
  fight without end: on a host with the device files in place there is an infinite run of the
  controller's two plugins, an endless sequence of states each reached from the one before, in which
  both restart and register with the kubelet more and more often. In the run no call fails and no
  other program touches a file, so each restart is caused by the other plugin; the kubelet opens a
  stream after each, which takes the token that the stop has left in the channel \<^verbatim>\<open>term\<close>, without
  which the next stop would block.\<close>

theorem types_of_one_name_fight:
  assumes "plugin_name g names d = plugin_name g names d'" and "controller_node g b names [d, d'] N"
    and "list_all (present (insert (DevicePluginPath @ socket_name (plugin_name g names d)) (n_files N))) (n_todo N)"
  shows "\<exists>run. run 0 = N \<and> (\<forall>k. plugin_step\<^sup>*\<^sup>* (run k) (run (Suc k))) \<and>
    (\<forall>k. length (n_plugins (run (Suc k))) = 2 \<and> k \<le> length (registrations (m_trace (machine_of (run (Suc k)) 0))) \<and>
      k \<le> length (registrations (m_trace (machine_of (run (Suc k)) 1))))"
proof -
  let ?path = "if b then ''/dev/vfio/devices/'' else ''/dev/vfio/''" and ?ids = "get_slice (deviceMap g)"
  have i: "node_init [(plugin_name g names d, ?path, ?ids d), (plugin_name g names d, ?path, ?ids d')] N"
    using assms(1,2) by (simp add: controller_node_init type_spec_def)
  then show ?thesis
    by (rule alias_plugins_restart_forever) (use i assms(3) in \<open>simp add: node_init_def\<close>)
qed

text \<open>A host with two GPU types, each with one device, and the alias by default.\<close>

definition sample_types :: globals where
  "sample_types = init_globals\<lparr>deviceMap := fmupd ''2330'' [''1''] (fmupd ''2331'' [''2''] fmempty), PGPUAlias := ''pgpu''\<rparr>"

lemma sample_types_names: "plugin_name sample_types names d = ''pgpu''"
  by (simp add: plugin_name_def sample_types_def isNVSwitchDeviceID_def init_globals_def Let_def)

theorem types_of_one_name_fight_witness:
  "\<exists>run. controller_node sample_types False (\<lambda>_. []) [''2330'', ''2331''] (run 0) \<and>
     (\<forall>k. plugin_step\<^sup>*\<^sup>* (run k) (run (Suc k)) \<and> k \<le> length (registrations (m_trace (machine_of (run (Suc k)) 0))))"
proof -
  let ?F = "{sample_sock, sample_sockets, ''/dev/vfio/1'', ''/dev/vfio/2''}"
  let ?new = "\<lambda>x. NewGenericDevicePlugin ''pgpu'' ''/dev/vfio/'' (fresh_devices [x])"
  let ?N = "\<lparr>n_files = ?F, n_plugins = [], n_todo = [?new ''1'', ?new ''2''], n_ops = []\<rparr>"
  have "map (new_plugin sample_types False (\<lambda>_. [])) [''2330'', ''2331''] = [?new ''1'', ?new ''2'']"
    by (simp add: new_plugin_def sample_types_names plugin_devices_eq) (simp add: sample_types_def get_slice_def)
  then have c: "controller_node sample_types False (\<lambda>_. []) [''2330'', ''2331''] ?N" by (simp add: controller_node_def)
  have "list_all (present (insert (DevicePluginPath @ socket_name ''pgpu'') (n_files ?N))) (n_todo ?N)"
    unfolding pgpu_sock using sample_pair_present [of "''1''"] sample_pair_present [of "''2''"] by simp
  from types_of_one_name_fight [OF _ c, unfolded sample_types_names, OF refl this] obtain run where "run 0 = ?N"
    "\<forall>k. plugin_step\<^sup>*\<^sup>* (run k) (run (Suc k))" "\<forall>k. k \<le> length (registrations (m_trace (machine_of (run (Suc k)) 0)))" by blast
  with c show ?thesis by (intro exI [of _ run]) simp
qed

end
