(* ===== verification/Missed.thy ===== *)
theory Missed
  imports Sockets
begin

text \<open>
  A socket that is removed before the health check watches its directory: the plugin registers
  first and watches later, and nothing looks whether the socket is still there.
\<close>

section \<open>The files and the changes of a step\<close>

lemma plugin_step_ops:
  assumes "plugin_step N N'"
  shows "\<exists>xs. n_ops N' = n_ops N @ xs \<and> n_files N' = fold apply_op xs (n_files N)"
  using assms by (cases rule: plugin_step.cases) auto

lemma node_step_ops:
  assumes "node_step N N'"
  shows "\<exists>xs. n_ops N' = n_ops N @ xs \<and> n_files N' = fold apply_op xs (n_files N)"
  using assms plugin_step_ops
  by (cases rule: node_step.cases) (auto intro: exI [of _ "[Created _]"] exI [of _ "[Removed _]"])

lemma absent_after:
  "p \<notin> files \<Longrightarrow> \<forall>x \<in> set xs. op_path x \<noteq> p \<Longrightarrow> p \<notin> fold apply_op xs files"
  by (induction xs arbitrary: files) (auto simp: apply_op_def op_path_def split: fs_op.splits)

section \<open>A plugin that does not know\<close>

text \<open>It does not restart; it watches nothing yet, or what its watcher has to tell is not of its socket.
  \<open>rs\<close>: the registrations it has asked for.\<close>

definition unaware :: "string \<Rightarrow> RegisterRequest list \<Rightarrow> plugin_node \<Rightarrow> bool" where
  "unaware p rs P \<longleftrightarrow> (let s = n_machine P in socketPath (m_dpi s) = p \<and> registrations (m_trace s) = rs \<and>
     Restarting \<notin> set (m_checkers s) \<and> Restart_start \<notin> set (m_checkers s) \<and>
     ((\<forall>c \<in> set (m_checkers s). c = Setup \<or> c = Ended) \<or> list_all (report_other p) (k_queue (n_inotify P))))"

definition elsewhere :: "string \<Rightarrow> fs_op list \<Rightarrow> bool" where
  "elsewhere p xs \<longleftrightarrow> (\<forall>x \<in> set xs. Base (op_path x) \<noteq> Base p)"

lemma unaware_notify:
  assumes "unaware p rs P" and "elsewhere p xs" and "\<forall>x \<in> set xs. plain_path (op_path x)"
  shows "unaware p rs (P\<lparr>n_inotify := fold notify xs (n_inotify P)\<rparr>)"
proof -
  have "list_all (report_other p) (k_queue k) \<Longrightarrow> list_all (report_other p) (k_queue (fold notify xs k))" for k
    using assms(2,3) unfolding elsewhere_def by (induction xs arbitrary: k) (simp_all add: notify_other)
  with assms(1) show ?thesis by (auto simp: unaware_def Let_def)
qed

lemma unaware_perform:
  assumes "unaware p rs (n_plugins M ! j)" and "j < length (n_plugins M)" and "elsewhere p xs"
    and "\<forall>x \<in> set xs. plain_path (op_path x)"
  shows "unaware p rs (n_plugins (fold perform xs M) ! j)"
  using unaware_notify [OF assms(1,3,4)] nth_fold_perform [OF assms(2)] by simp

lemma checker_at_in: "checker_at s i c \<Longrightarrow> c \<in> set (m_checkers s)"
  by (metis checker_at_def nth_mem)

lemma unaware_at:
  assumes "unaware p rs (n_plugins N ! i)"
  shows "\<not> checker_at (machine_of N i) c Restarting" and "\<not> checker_at (machine_of N i) c Restart_start"
  using assms by (auto simp: unaware_def Let_def machine_of_def dest: checker_at_in)

lemma unaware_checker:
  assumes "unaware p rs P" and "x \<noteq> Restarting" and "x \<noteq> Restart_start" and "x = Ended \<or> list_all (report_other p) (k_queue k)"
    and "k = n_inotify P \<or> list_all (report_other p) (k_queue k)"
  shows "unaware p rs \<lparr>n_machine = set_checker c x (n_machine P), n_watches = ws, n_inotify = k, n_stuck = b\<rparr>"
proof -
  have sub: "set (m_checkers (set_checker c x (n_machine P))) \<subseteq> insert x (set (m_checkers (n_machine P)))"
    by (simp add: set_checker_def set_update_subset_insert)
  with assms show ?thesis by (auto simp: unaware_def Let_def)
qed

lemma unaware_quiet:
  assumes "unaware p rs P" and "quiet_step (n_machine P) t"
  shows "unaware p rs (P\<lparr>n_machine := t\<rparr>)"
proof -
  let ?s = "n_machine P"
  have st: "health_step ?s t" by (rule quiet_health [OF assms(2)])
  have u: "socketPath (m_dpi ?s) = p" "registrations (m_trace ?s) = rs" "Restarting \<notin> set (m_checkers ?s)" "Restart_start \<notin> set (m_checkers ?s)"
    using assms(1) by (simp_all add: unaware_def Let_def)
  have same: "m_trace t = m_trace ?s" "socketPath (m_dpi t) = p"
    using assms(2) health_step_frame(2) [OF st] u(1) by (simp_all add: quiet_step_def)
  have w: "checker_at t i (Watching m) \<or> checker_at t i Ended" if "checker_at ?s i (Watching m)" for i m
    using assms(2) that by (auto simp: quiet_step_def)
  have ended: "Restarting \<notin> set (m_checkers (set_checker i Ended ?s)) \<and> Restart_start \<notin> set (m_checkers (set_checker i Ended ?s)) \<and>
      ((\<forall>c \<in> set (m_checkers ?s). c = Setup \<or> c = Ended) \<longrightarrow> (\<forall>c \<in> set (m_checkers (set_checker i Ended ?s)). c = Setup \<or> c = Ended))" for i
    using u set_checker_Ended [of i ?s] by blast
  have "Restarting \<notin> set (m_checkers t) \<and> Restart_start \<notin> set (m_checkers t) \<and>
      ((\<forall>c \<in> set (m_checkers ?s). c = Setup \<or> c = Ended) \<longrightarrow> (\<forall>c \<in> set (m_checkers t). c = Setup \<or> c = Ended))"
    using st
  proof (cases rule: health_step.cases)
    case (receive j i m ch v)
    moreover have "Sending m ch v \<in> set (m_checkers ?s)" using receive(3) by (rule checker_at_in)
    ultimately show ?thesis
      using u set_update_subset_insert [of "m_checkers ?s" i "Watching m"] by (auto simp: receive_update_def set_checker_def Let_def)
  next
    case (check_setup i h m)
    then have "checker_at t i (Watching m)" by (auto simp: checker_at_def set_checker_def)
    with assms(2) check_setup(2) show ?thesis by (auto simp: quiet_step_def checker_at_def)
  next
    case (check_event i m ev)
    have "m_checkers t = m_checkers ?s"
    proof (cases "on_event m (socketPath (m_dpi ?s)) ev")
      case (Send ch v)
      with check_event have "checker_at t i (Sending m ch v)" by (simp add: after_event_def set_checker_def checker_at_def)
      with w [OF check_event(2)] show ?thesis by (auto simp: checker_at_def)
    next
      case Restart
      with check_event have "checker_at t i Restarting" by (simp add: after_event_def set_checker_def checker_at_def)
      with w [OF check_event(2)] show ?thesis by (auto simp: checker_at_def)
    qed (simp add: check_event after_event_def)
    with u show ?thesis by simp
  next
    case (restart_none i)
    with u(3) checker_at_in show ?thesis by blast
  next
    case (restart_stop i env err dpi tr)
    with u(3) checker_at_in show ?thesis by blast
  next
    case (restart_start i env err dpi tr)
    with u(4) checker_at_in show ?thesis by blast
  next
    case (restart_started i env dpi tr)
    with u(4) checker_at_in show ?thesis by blast
  qed (use u ended in \<open>simp_all add: open_stream_def end_stream_def\<close>)
  with assms(1) same u show ?thesis by (auto simp: unaware_def Let_def)
qed

text \<open>A step of the host with no change of a file of the socket's name leaves it unaware.\<close>

lemma unaware_update:
  assumes "unaware p rs (n_plugins N ! j)" and "j < length (n_plugins N)" and "i = j \<Longrightarrow> unaware p rs P"
  shows "unaware p rs ((n_plugins N)[i := P] ! j)"
  using assms by (cases "i = j") simp_all

text \<open>Changes that another plugin, or its own shutdown, makes.\<close>

lemma unaware_put:
  assumes "unaware p rs (n_plugins N ! j)" and "j < length (n_plugins N)" and "i < length (n_plugins N)"
    and "i = j \<Longrightarrow> unaware p rs ((n_plugins N ! j)\<lparr>n_machine := t\<rparr>)"
    and "elsewhere p (drop (length (n_ops N)) (n_ops (fold perform xs (put i t N))))"
    and "node_calm N" and "\<forall>x \<in> set xs. op_path x = socketPath (m_dpi (machine_of N i))"
  shows "unaware p rs (n_plugins (fold perform xs (put i t N)) ! j)"
proof (rule unaware_perform)
  show "unaware p rs (n_plugins (put i t N) ! j)" using assms(1-4) by (auto simp: n_plugins_put)
  show "\<forall>x \<in> set xs. plain_path (op_path x)" using node_calm_socket [OF assms(6,3)] assms(7) by simp
qed (use assms(2,5) in simp_all)

lemma unaware_plugin:
  assumes "node_calm N" and "plugin_step N N'" and "j < length (n_plugins N)" and "unaware p rs (n_plugins N ! j)"
    and "elsewhere p (drop (length (n_ops N)) (n_ops N'))"
  shows "unaware p rs (n_plugins N' ! j)"
  using assms(2)
proof (cases rule: plugin_step.cases)
  case (quiet i t)
  with assms(3,4) unaware_quiet [of p rs "n_plugins N ! i" t] show ?thesis by (auto simp: n_plugins_put machine_of_def)
next
  case (set_up i c lim new m ws k)
  have k: "k_queue k = []" using add_watches_queue [OF set_up(5)] by (simp add: new_inotify_def)
  have "unaware p rs \<lparr>n_machine = set_checker c (Watching m) (machine_of N i), n_watches = ws, n_inotify = k, n_stuck = False\<rparr>" if "i = j"
    unfolding machine_of_def using that assms(4) k by (intro unaware_checker) simp_all
  with unaware_update [OF assms(4,3)] show ?thesis by (simp add: set_up(1))
next
  case (set_up_error i c lim new err)
  have "unaware p rs ((n_plugins N ! i)\<lparr>n_machine := set_checker c Ended (n_machine (n_plugins N ! i))\<rparr>)" if "i = j"
    unfolding n_machine_update using that assms(4) by (intro unaware_checker) simp_all
  then have "i = j \<longrightarrow> unaware p rs (n_plugins N' ! j)" using set_up_error by (simp add: n_plugins_put machine_of_def)
  moreover have "i \<noteq> j \<longrightarrow> unaware p rs (n_plugins N' ! j)" using set_up_error assms(4) by (simp add: n_plugins_put)
  ultimately show ?thesis by blast
next
  case (read i P s c m r rs' rm eo ws t)
  have "unaware p rs (P\<lparr>n_machine := t, n_watches := ws, n_inotify := (n_inotify P)\<lparr>k_queue := rs'\<rparr>\<rparr>)" if "i = j"
  proof -
    have P: "unaware p rs P" using assms(4) that read(3) by simp
    obtain ds where ds: "setting ds (m_dpi s)" "watches_ok ds (n_watches P)"
      using node_calmD [OF assms(1) read(2)] read(3,4) by (auto simp: plugin_calm_def)
    have "Watching m \<in> set (m_checkers (n_machine P))" using read(4,5) checker_at_in by simp
    then have q: "report_other p r" "list_all (report_other p) rs'" "socketPath (m_dpi s) = p"
      using P read(4,7) by (auto simp: unaware_def Let_def)
    have no: "on_event m p ev \<noteq> Restart" if "eo = Some ev" for ev
      using event_no_restart [OF ds(1,2) _ read(8) [unfolded that]] q by simp
    have "m_dpi t = m_dpi s \<and> m_trace t = m_trace s \<and> set (m_checkers t) \<subseteq> set (m_checkers s) \<union> {x. x \<noteq> Restarting \<and> x \<noteq> Restart_start}"
    proof (cases eo)
      case (Some ev)
      with no [OF Some] set_update_subset_insert show ?thesis
        by (cases "on_event m p ev") (fastforce simp: read(9) q(3) after_event_def set_checker_def)+
    qed (simp add: read(9))
    with P q(2) read(4) show ?thesis by (auto simp: unaware_def Let_def)
  qed
  with unaware_update [OF assms(4,3)] show ?thesis by (simp add: read(1))
next
  case (read_error i P c m r rs' rm)
  have "unaware p rs (P\<lparr>n_stuck := True, n_inotify := (n_inotify P)\<lparr>k_queue := rs'\<rparr>\<rparr>)" if "i = j"
    using assms(4) that read_error(3,6) by (auto simp: unaware_def Let_def)
  with unaware_update [OF assms(4,3)] show ?thesis by (simp add: read_error(1))
next
  case (error_taken i P c m)
  then show ?thesis by simp
next
  case (overflow i P)
  have "unaware p rs (P\<lparr>n_inotify := (n_inotify P)\<lparr>k_queue := k_queue (n_inotify P) @ [overflow_report]\<rparr>\<rparr>)" if "i = j"
    using assms(4) that overflow(3) by (auto simp: unaware_def Let_def)
  with unaware_update [OF assms(4,3)] show ?thesis by (simp add: overflow(1))
next
  case (stop i s c env answer err dpi tr)
  then have "i \<noteq> j" using unaware_at(1) [OF assms(4)] by blast
  with stop Stop_ops [OF stop(7)] assms(5) show ?thesis
    unfolding stop(1) by (intro unaware_put [OF assms(4,3)] assms(1)) auto
next
  case (start_error i s c env answer err dpi tr)
  then have "i \<noteq> j" using unaware_at(2) [OF assms(4)] by blast
  with start_error Start_ops [OF start_error(6)] assms(5) show ?thesis
    unfolding start_error(1) by (intro unaware_put [OF assms(4,3)] assms(1)) auto
next
  case (started i s c env answer dpi tr)
  then have "i \<noteq> j" using unaware_at(2) [OF assms(4)] by blast
  with started Start_ops [OF started(6)] assms(5) show ?thesis
    unfolding started(1) by (intro unaware_put [OF assms(4,3)] assms(1)) auto
next
  case (shutdown i s env answer err dpi tr)
  have "unaware p rs ((n_plugins N ! j)\<lparr>n_machine := s\<lparr>m_dpi := dpi, m_trace := tr\<rparr>\<rparr>)" if "i = j"
    using assms(4) that Stop_registrations [OF shutdown(6)] Stop_frame(2) [OF shutdown(6)] shutdown(3)
    by (simp add: unaware_def Let_def machine_of_def)
  with shutdown Stop_ops [OF shutdown(6)] assms(5) show ?thesis
    unfolding shutdown(1) by (intro unaware_put [OF assms(4,3)] assms(1)) auto
next
  case (launch dp dps env answer r dpi tr)
  obtain ds where "setting ds dp" using assms(1) launch(2) by (auto simp: node_calm_def)
  from setting_plain [OF this] Start_ops [OF launch(4)] have "\<forall>x \<in> set (new_ops env [] tr). plain_path (op_path x)" by simp
  with assms(3-5) show ?thesis unfolding launch(1) by (intro unaware_perform) (simp_all add: nth_append)
qed

lemma unaware_step:
  assumes "node_calm N" and "node_step N N'" and "j < length (n_plugins N)" and "unaware p rs (n_plugins N ! j)"
    and "elsewhere p (drop (length (n_ops N)) (n_ops N'))"
  shows "unaware p rs (n_plugins N' ! j)"
  using assms(2)
proof (cases rule: node_step.cases)
  case plugin
  with unaware_plugin [OF assms(1) _ assms(3-5)] show ?thesis .
next
  case (create q)
  with unaware_perform [OF assms(4,3), of "[Created q]"] assms(5) show ?thesis by (simp add: op_path_def)
next
  case (remove q)
  with unaware_perform [OF assms(4,3), of "[Removed q]"] assms(5) show ?thesis by (simp add: op_path_def)
qed

lemma unaware_run:
  assumes "node_step\<^sup>*\<^sup>* N N'" and "node_calm N" and "j < length (n_plugins N)" and "unaware p rs (n_plugins N ! j)"
    and "p \<notin> n_files N" and "elsewhere p (drop (length (n_ops N)) (n_ops N'))"
  shows "unaware p rs (n_plugins N' ! j) \<and> p \<notin> n_files N'"
proof -
  have "\<exists>xs. n_ops N' = n_ops N @ xs \<and> (elsewhere p xs \<longrightarrow> unaware p rs (n_plugins N' ! j) \<and> p \<notin> n_files N' \<and>
      j < length (n_plugins N') \<and> node_calm N')"
    using assms(1)
  proof (induction rule: rtranclp_induct)
    case (step M M')
    then obtain xs where xs: "n_ops M = n_ops N @ xs" "elsewhere p xs \<longrightarrow> unaware p rs (n_plugins M ! j) \<and> p \<notin> n_files M \<and>
      j < length (n_plugins M) \<and> node_calm M" by blast
    from node_step_ops [OF step(2)] obtain ys where ys: "n_ops M' = n_ops M @ ys" "n_files M' = fold apply_op ys (n_files M)" by blast
    have "unaware p rs (n_plugins M' ! j) \<and> p \<notin> n_files M' \<and> j < length (n_plugins M') \<and> node_calm M'" if e: "elsewhere p (xs @ ys)"
    proof -
      have m: "unaware p rs (n_plugins M ! j)" "p \<notin> n_files M" "j < length (n_plugins M)" "node_calm M" and y: "elsewhere p ys"
        using e xs(2) by (simp_all add: elsewhere_def)
      have "j < length (n_plugins M')"
        using step(2) m(3) plugin_step_length by (cases rule: node_step.cases) fastforce+
      moreover have "p \<notin> n_files M'" unfolding ys(2) by (rule absent_after [OF m(2)]) (use y in \<open>auto simp: elsewhere_def\<close>)
      moreover have "unaware p rs (n_plugins M' ! j)" using unaware_step [OF m(4) step(2) m(3,1)] y ys(1) by simp
      ultimately show ?thesis using node_calm_step [OF m(4) step(2)] by blast
    qed
    with xs(1) ys(1) show ?case by auto
  qed (use assms(2-5) in simp)
  with assms(6) show ?thesis by auto
qed

section \<open>Properties\<close>

text \<open>C13. A socket that is gone before the health check watches is never missed: where it is removed
  between the registration and the set-up of the watches, as by a kubelet that restarts in that
  moment, then in every run of the host in which no file of that name comes or goes, the plugin
  does not restart and does not register again, though no one can reach it any more.\<close>

theorem early_removal_unnoticed:
  assumes "reach (node_init specs) node_step N" and "list_all spec_fit specs" and "i < length (n_plugins N)"
    and "checker_at (machine_of N i) c Setup" and "p = socketPath (m_dpi (machine_of N i))" and "p \<notin> n_files N"
    and "node_step\<^sup>*\<^sup>* N N'" and "elsewhere p (drop (length (n_ops N)) (n_ops N'))"
  shows "p \<notin> n_files N' \<and> registrations (m_trace (machine_of N' i)) = registrations (m_trace (machine_of N i)) \<and>
    Restarting \<notin> set (m_checkers (machine_of N' i)) \<and> Restart_start \<notin> set (m_checkers (machine_of N' i))"
proof -
  have "reach (\<lambda>N. node_init specs N \<and> list_all spec_fit specs) node_step N"
    using assms(1) by (rule reach_mono) (simp add: assms(2))
  then have calm: "node_calm N" by (rule no_recovery.inv_reach)
  have "\<forall>y \<in> set (m_checkers (machine_of N i)). y = Ended \<or> y = Setup" using reach_checkers [OF assms(1,3,4)] by simp
  then have "unaware p (registrations (m_trace (machine_of N i))) (n_plugins N ! i)"
    using assms(5) by (auto simp: unaware_def Let_def machine_of_def)
  from unaware_run [OF assms(7) calm assms(3) this assms(6,8)] show ?thesis
    by (simp add: unaware_def Let_def machine_of_def)
qed

theorem early_removal_unnoticed_witness:
  "\<exists>N N'. host_reach N \<and> node_step\<^sup>*\<^sup>* N N' \<and> checker_at (machine_of N 0) 0 Setup \<and>
     checker_at (machine_of N' 0) 0 (Watching sample_watch_map) \<and> sample_sock \<notin> n_files N' \<and>
     length (registrations (m_trace (machine_of N' 0))) = 1"
proof -
  let ?F = "{sample_sock, sample_file, sample_sockets}"
  let ?L = "sample_host_node ?F (sample_machine [] Setup) newWatches new_inotify False [Created sample_sock]"
  let ?N = "sample_host_node {sample_file, sample_sockets} (sample_machine [] Setup) newWatches new_inotify False
    [Created sample_sock, Removed sample_sock]"
  let ?N' = "sample_host_node {sample_file, sample_sockets} (sample_machine [] (Watching sample_watch_map)) sample_watches
    (sample_inotify []) False [Created sample_sock, Removed sample_sock]"
  have "host_reach ?L" using sample_launched [of "{sample_file, sample_sockets}"] by simp
  moreover have "node_step ?L (perform (Removed sample_sock) ?L)"
    by (rule remove) (simp_all add: plain_sample sample_host_node_def)
  ultimately have "host_reach (perform (Removed sample_sock) ?L)"
    using reach_step [of "node_init sample_specs" node_step] by blast
  moreover have "perform (Removed sample_sock) ?L = ?N"
    by (auto simp: perform_def sample_host_node_def apply_op_def notify_def new_inotify_def)
  ultimately have r: "host_reach ?N" by simp
  have "plugin_step ?N ?N'" by (rule sample_set_up) simp_all
  then have st: "node_step\<^sup>*\<^sup>* ?N ?N'" using node_step.plugin by blast
  have f: "list_all spec_fit sample_specs" by (simp add: sample_specs_def spec_fit_def simple_name_def)
  have at: "checker_at (machine_of ?N 0) 0 Setup" "0 < length (n_plugins ?N)" "sample_sock \<notin> n_files ?N"
    "sample_sock = socketPath (m_dpi (machine_of ?N 0))" "elsewhere sample_sock (drop (length (n_ops ?N)) (n_ops ?N'))"
    by (simp_all add: sample_host_node_def machine_of_def checker_at_def elsewhere_def DevicePluginPath_def socket_name_def)
  from early_removal_unnoticed [OF r f at(2,1,4,3) st at(5)]
  have "sample_sock \<notin> n_files ?N'" "length (registrations (m_trace (machine_of ?N' 0))) = 1"
    by (simp_all add: sample_host_node_def machine_of_def)
  moreover have "checker_at (machine_of ?N' 0) 0 (Watching sample_watch_map)"
    by (simp add: sample_host_node_def machine_of_def checker_at_def)
  ultimately show ?thesis using r st at(1) by blast
qed

end
