(* ===== verification/Spec2Isabelle.thy ===== *)
theory Spec2Isabelle
  imports GfdAll Bus Missed
begin

text \<open>
  A model of the NVIDIA sandbox device plugin, a Kubernetes device plugin that offers NVIDIA
  GPUs and NVSwitches bound to the driver vfio-pci to virtual machine containers.

  The program. \<^verbatim>\<open>main\<close> (cmd/main.go) reads the aliases and the switch of feature discovery from
  the environment and calls \<^verbatim>\<open>InitiateDevicePlugin\<close> (pkg/device_plugin/device_plugin.go). That
  fills the package's maps from the PCI bus (\<^verbatim>\<open>createIommuDeviceMap\<close>), writes one CDI spec file
  per class of devices (\<^verbatim>\<open>GenerateCDISpec\<close>, cdi.go), and runs the controller
  (\<^verbatim>\<open>createDevicePlugins\<close>): one \<^verbatim>\<open>GenericDevicePlugin\<close> (generic_device_plugin.go) per device
  ID, each a gRPC server on a socket of its own, registered with the kubelet. A plugin has a
  health check that watches the device files and the sockets, and reports to the kubelet's
  \<^verbatim>\<open>ListAndWatch\<close> calls; \<^verbatim>\<open>Allocate\<close> reads the IOMMU map. When it is switched on, \<^verbatim>\<open>runGFD\<close>
  (gfd.go) runs beside the controller and labels the node by a pod that uses one of the GPUs.

  The theories.
  \<^item> Prelude: Go maps as finite maps, slices in maps, orders of \<^verbatim>\<open>range\<close> loops, sorting by a
    number (locale \<open>slice_sorter\<close>), reachability and invariants (locale \<open>invariant_system\<close>).
  \<^item> GoStd and GoPath: what the program uses of strconv, strings, fmt and filepath, on byte
    strings and 64-bit integers.
  \<^item> Nvpci: the device record and the class tests of the vendored nvpci package.
  \<^item> Discovery: the package variables (record \<open>globals\<close>), \<open>supportsIOMMUFD\<close>,
    \<open>createIommuDeviceMap\<close>, \<open>getDeviceNameForID\<close>, \<open>formatDeviceName\<close>. The lemmas give the maps
    as functions of the list of devices (\<open>members\<close>, \<open>type_keys\<close>, \<open>switch_ID\<close>), their
    well-formedness \<open>wf_maps\<close>, and the form of names.
  \<^item> Sysfs: how nvpci reads the devices from sysfs, \<open>GetAllDevices\<close>: the numbers of the attribute
    files, links, the recursion through physical functions and its cache. The lemmas show that the
    list is what the files of each device say, and what one bad or odd device does to the maps.
  \<^item> Pciids: the vendored package pciids, which names the devices: the scanner and parser of a
    database of lines, with the panics, and the look-ups. The lemmas show that a database of
    well-formed lines (\<open>db_line\<close>, \<open>wf_db\<close>) says what its lines say (\<open>name_in_db\<close>).
  \<^item> CdiSpec: the vendored CDI library: names, versions, validation and the writing of a spec,
    with the contract of a store of specs (locale \<open>spec_store\<close>). Cdi: \<open>generateCDISpecForClass\<close>
    and \<open>GenerateCDISpec\<close>. CdiAll: generation as a list of jobs, and its properties.
  \<^item> Allocate: \<open>Allocate\<close>, its nodes (locale \<open>node_provider\<close>) and the agreement with the specs.
  \<^item> Plugin: the plugin's struct and \<open>Start\<close>, \<open>Stop\<close>, \<open>restart\<close>, \<open>Register\<close>, as effects on the
    host that an environment answers. \<open>Start_elim\<close> has the five ways through a start.
  \<^item> Health: the goroutines of one plugin, \<^verbatim>\<open>healthCheck\<close>, \<^verbatim>\<open>ListAndWatch\<close> and \<^verbatim>\<open>restart\<close>, as the step
    relation \<open>health_step\<close> with the invariant \<open>machine_inv\<close>. HealthAll: what is reported, when the
    plugin comes back after a restart of the kubelet, and when it does not.
  \<^item> Inotify: the vendored file watcher fsnotify on Linux: its tables of watches, \<^verbatim>\<open>Add\<close>, and how a
    report of the kernel becomes an event, or an error no one receives.
  \<^item> Node: all plugins on one host, as the step relations \<open>plugin_step\<close> (the plugins alone) and
    \<open>node_step\<close> (with other programs that create and remove files): each plugin has its goroutines
    and its watcher; the steps of a start or stop change the socket files, and the kernel reports
    the changes to every watcher. NodeAll: each plugin's share of a run is a run of Health (by the
    interpretation \<open>plugins\<close>, a lemma on which properties rest), what a watcher can be told, and the
    invariant that devices only get worse. NodeProps: the properties of that, health checks that end
    or, as no one receives their watcher's errors (\<open>healthCheck_selects\<close>), go blind. Sockets: plugins with
    names of their own leave each other alone. Aliases: plugins with one name can restart each other
    without end, in an infinite run. Missed: a
    socket removed before the health check watches is never missed.
  \<^item> Backoff: the vendored retry loop, with the contract of a retried condition (locale
    \<open>retry_loop\<close>), the number of attempts and a bound on the time waited.
  \<^item> Gfd: gfd.go over a \<open>cluster\<close> that answers API calls. GfdAll: the three retried conditions as
    interpretations of \<open>retry_loop\<close>, and the properties of the run: what it creates and deletes, and
    after which reads.
  \<^item> Controller: the loop over the device types, \<open>InitiateDevicePlugin\<close> and \<open>main\<close>. Bus: the way from
    sysfs and the database of names through discovery and the controller to the plugins on the
    host (\<open>controller_node\<close>) and their allocations. This theory: the properties that join the parts.

  Conventions. An error is a \<open>go_error\<close>; a function that returns a value and an error returns a
  sum. A Go map has no order: every \<^verbatim>\<open>range\<close> loop takes its order as an argument, and a theorem
  that needs it to be an order of the map says so by \<open>range_order\<close>. The file system, the kubelet,
  the cluster, the random numbers and file system events are arguments as well (\<open>stat_fn\<close>,
  \<open>host\<close>, \<open>environment\<close>, \<open>cluster\<close>), and what they answer may depend on all that happened
  before, so a theorem for all of them covers every pattern of failures. A call that does not
  return is \<open>None\<close>.

  Loops and bounds. All functions are total but one: no fuel is used. The exception follows the links
  of sysfs from a function to its physical function; it returns where those are no functions of
  others (\<open>discovery_returns\<close>), and does not return is \<open>None\<close>. The parser of the database ends because
  a line read is a shorter rest (\<open>scan_rest\<close>); there \<open>None\<close> is a panic. The retry loop ends because a step
  lowers \<^verbatim>\<open>Steps\<close>; for the back-offs of gfd.go it tries nine times, as the step
  count is cleared when the delay reaches its cap, and waits less than 83 s, or 165 s for the
  clean-up. A restart that does not return is a value, and the shutdown is shown to return.
  Integers have the code's width where it matters: group numbers and the numbers of keys have
  64 bits, device IDs 16.

  Not modelled. Logging. The transport of gRPC and client-go, which are the environment.
  \<open>InitiateDevicePlugin\<close> takes the devices as an argument; Sysfs gives what it is for a bus, without
  the device fields the program does not read, and takes the look-up of names as an argument;
  \<open>names_from\<close> of Bus says that it is a parsed database. The text of the database packed with
  pciids is an argument. Of fsnotify, recursive watches, the removal of watches and
  closing. Data races on the plugin's device list, which the code does not guard: the steps of
  Health are atomic. On the host of Node, a health check sets up, and a server starts or stops, in
  one step; files are created and removed, not renamed, and a removed file is not held open (the
  kernel would report its removal later); when a watcher has read a report it hands it on at once.
  The channel \<^verbatim>\<open>stop\<close> of the program may close for each plugin apart, which allows more runs than
  the code. \<^verbatim>\<open>runGFD\<close> is modelled by itself: it shares with the plugins only the maps, which no one
  writes after discovery. Where \<^verbatim>\<open>sort.Slice\<close> is not stable, the model's sort is (\<open>sort_devices\<close>,
  \<open>sort_keys\<close>); the lemmas use only that the result is a sorted permutation. \<open>plugin_machine\<close> of Controller joins a plugin the controller has started to
  the goroutines of Health. The fields of CDI specs that the program does not set. The build files
  (deployments/devel/tools.go has no code). \<^verbatim>\<open>setCdiRoot\<close> and the injected discovery library, which
  serve the tests only.
\<close>

section \<open>A sample node\<close>

text \<open>Two GPUs of one type, without IOMMUFD, on a host where every call succeeds.\<close>

definition sample_world :: surroundings where
  "sample_world = \<lparr>s_stat = no_iommufd, s_devices = Inr two_gpus, s_host = sample_host no_iommufd,
     s_orders = (\<lambda>_. \<lparr>o_gpu = [hex4 0x2331], o_switch = [hex4 0x2331], o_names = (\<lambda>_. [''1'', ''3''])\<rparr>),
     s_stat' = no_iommufd, s_env = all_fine, s_names = (\<lambda>_ _. [''1'', ''3'']), s_ids = (\<lambda>_. [hex4 0x2331])\<rparr>"

definition sample_maps :: "globals \<Rightarrow> globals" where
  "sample_maps g = createIommuDeviceMap no_iommufd (Inr two_gpus) g"

lemma sample_world_simps [simp]:
  "s_stat sample_world = no_iommufd" "s_devices sample_world = Inr two_gpus" "s_stat' sample_world = no_iommufd"
  "s_env sample_world = all_fine" "s_ids sample_world g = [hex4 0x2331]"
  by (simp_all add: sample_world_def)

lemma sample_group_keys: "iommu_key False (sample_gpu a d 1 fd) = ''1''" "iommu_key False (sample_gpu a d 3 fd) = ''3''"
proof -
  have "Itoa 1 = ''1''" "Itoa 3 = ''3''" by code_simp+
  then show "iommu_key False (sample_gpu a d 1 fd) = ''1''" "iommu_key False (sample_gpu a d 3 fd) = ''3''"
    by (simp_all add: iommu_key_legacy)
qed

lemma sample_members:
  "members False two_gpus ''1'' = [to_nv (sample_gpu ''0000:01:00.0'' 0x2331 1 ''vfio3'')]"
  "members False two_gpus ''3'' = [to_nv (sample_gpu ''0000:02:00.0'' 0x2331 3 [])]"
  by (simp_all add: members_def two_gpus_def sample_group_keys)

lemma sample_type_keys: "type_keys False two_gpus d = (if d = hex4 0x2331 then [''1'', ''3''] else [])"
proof -
  have "group_keys False two_gpus = [''1'', ''3'']"
    by (simp add: group_keys_def two_gpus_def sample_group_keys first_occ_def)
  then show ?thesis by (auto simp: type_keys_def sample_members)
qed

lemma sample_slices:
  "get_slice (deviceMap (sample_maps g)) (hex4 0x2331) = [''1'', ''3'']"
  "range_order (deviceMap (sample_maps g)) [hex4 0x2331]"
proof -
  have d: "fmlookup (deviceMap (sample_maps g)) d = slice_opt (type_keys False two_gpus d)" for d
    unfolding sample_maps_def by (rule create_spec(2)) simp
  then show "get_slice (deviceMap (sample_maps g)) (hex4 0x2331) = [''1'', ''3'']"
    using get_slice_slice_opt [OF d [of "hex4 0x2331"]] by (simp add: sample_type_keys)
  show "range_order (deviceMap (sample_maps g)) [hex4 0x2331]"
    by (auto simp: range_order_def dom_slice_opt [OF d] sample_type_keys)
qed

lemma sample_controller:
  obtains f c dp where "InitiateDevicePlugin sample_world g fmempty = (sample_maps g, f, Some c)"
    and "started_plugins c = [(dp, None)]" and "devs dp = fresh_devices [''1'', ''3'']"
proof -
  obtain ds where "start_plugins all_fine (sample_maps g) False (s_names sample_world (sample_maps g)) [hex4 0x2331] [] =
      ([((new_plugin (sample_maps g) False (s_names sample_world (sample_maps g)) (hex4 0x2331))\<lparr>stop_ch := Global_stop, server := True\<rparr>, None)], ds)"
    by (simp add: Start_fine)
  then show thesis
    using that by (simp add: InitiateDevicePlugin_def createDevicePlugins_def Let_def sample_maps_def [symmetric]
        plugin_devices_eq sample_slices)
qed

section \<open>Properties of the whole program\<close>

text \<open>C1. Every discovered device is offered to the kubelet once: the plugins of the controller
  advertise each IOMMU key exactly once among them, and every device starts healthy.\<close>

theorem plugins_advertise_all_keys:
  assumes "InitiateDevicePlugin w g0 files = (g, files', Some c)" and "wf_maps g0"
    and "range_order (deviceMap g) (s_ids w g)"
  shows "distinct (concat (map (\<lambda>(dp, err). map ID (devs dp)) (started_plugins c))) \<and>
    set (concat (map (\<lambda>(dp, err). map ID (devs dp)) (started_plugins c))) = fmdom' (iommuMap g) \<and>
    (\<forall>(dp, err) \<in> set (started_plugins c). \<forall>d \<in> set (devs dp). Health d = ''Healthy'')"
proof -
  have wf: "wf_maps g" using InitiateDevicePlugin_parts(1) [OF assms(1)] create_wf [OF assms(2)] by simp
  obtain b where sp: "start_plugins (s_env w) g b (s_names w g) (s_ids w g) [] = (started_plugins c, effects c)"
    using InitiateDevicePlugin_parts(2) [OF assms(1)] by (rule createDevicePlugins_Some)
  have d: "map (devs \<circ> fst) (started_plugins c) = map (plugin_devices g) (s_ids w g)"
    by (rule start_plugins_frame(1) [OF sp])
  have "map (\<lambda>(dp, err). map ID (devs dp)) (started_plugins c) = map (map ID) (map (devs \<circ> fst) (started_plugins c))"
    by (simp add: split_def comp_def)
  also have "\<dots> = map (get_slice (deviceMap g)) (s_ids w g)"
    unfolding d by (simp add: plugin_devices_eq fresh_devices_def comp_def)
  finally have ids: "map (\<lambda>(dp, err). map ID (devs dp)) (started_plugins c) = map (get_slice (deviceMap g)) (s_ids w g)" .
  have "Health x = ''Healthy''" if "(dp, err) \<in> set (started_plugins c)" "x \<in> set (devs dp)" for dp err x
  proof -
    have "devs dp \<in> set (map (devs \<circ> fst) (started_plugins c))" using that(1) by force
    then show ?thesis using that(2) unfolding d by (auto simp: plugin_devices_eq fresh_devices_def Healthy_def)
  qed
  then show ?thesis unfolding ids using type_keys_partition [OF wf assms(3)] by auto
qed

theorem plugins_advertise_all_keys_witness:
  "\<exists>f c. InitiateDevicePlugin sample_world init_globals fmempty = (sample_maps init_globals, f, Some c) \<and>
     set (concat (map (\<lambda>(dp, err). map ID (devs dp)) (started_plugins c))) = fmdom' (iommuMap (sample_maps init_globals))"
proof -
  obtain f c dp where i: "InitiateDevicePlugin sample_world init_globals fmempty = (sample_maps init_globals, f, Some c)"
    by (rule sample_controller)
  have "range_order (deviceMap (sample_maps init_globals)) (s_ids sample_world (sample_maps init_globals))"
    by (simp add: sample_slices)
  from plugins_advertise_all_keys [OF i wf_init this] i show ?thesis by blast
qed

text \<open>C2. Everything a plugin advertises can be allocated: with the probe as at discovery, and
  device handles where IOMMUFD is on, the allocation of any devices of a plugin succeeds.\<close>

theorem advertised_is_allocatable:
  assumes "InitiateDevicePlugin w g0 files = (g, files', Some c)"
    and "s_devices w = Inr pcis" and "supportsIOMMUFD (s_stat w) = Inr b" and "supportsIOMMUFD stat = Inr b"
    and "b \<longrightarrow> (\<forall>d \<in> set pcis. eligible d \<longrightarrow> pci_IommuFD d \<noteq> [])"
    and "(dp, err) \<in> set (started_plugins c)" and "set ids \<subseteq> ID ` set (devs dp)"
  shows "\<exists>resp. Allocate stat g [ids] = Inr [resp]"
proof -
  have g: "g = createIommuDeviceMap (s_stat w) (Inr pcis) g0"
    using InitiateDevicePlugin_parts(1) [OF assms(1)] assms(2) by simp
  obtain d where "devs dp = plugin_devices g d"
    using InitiateDevicePlugin_parts(2) [OF assms(1)] assms(6) by (rule started_plugin_of)
  then have keys: "set ids \<subseteq> set (type_keys b pcis d)"
    using assms(7) get_slice_slice_opt [OF create_spec(2) [OF assms(3)]]
    by (force simp: plugin_devices_eq fresh_devices_def g)
  have "allocatable b (iommuMap g) k" if "k \<in> set ids" for k
  proof -
    have "members b pcis k \<noteq> []" using type_keys_ID keys that by blast
    then show ?thesis
      using assms(5) unfolding g allocatable_def create_spec(1) [OF assms(3)]
      by (auto simp: slice_opt_def in_members to_nv_def list_all_iff)
  qed
  then have "list_all (allocatable b (iommuMap g)) ids" by (simp add: list_all_iff)
  then show ?thesis using Allocate_cases [OF assms(4), of g "[ids]"] by auto
qed

theorem advertised_is_allocatable_witness:
  "\<exists>resp. Allocate no_iommufd (sample_maps init_globals) [[''3'', ''1'']] = Inr [resp]"
proof -
  obtain f c dp where i: "InitiateDevicePlugin sample_world init_globals fmempty = (sample_maps init_globals, f, Some c)"
    and c: "started_plugins c = [(dp, None)]" "devs dp = fresh_devices [''1'', ''3'']" by (rule sample_controller)
  show ?thesis
    by (rule advertised_is_allocatable [OF i, where dp = dp and err = None and pcis = two_gpus and b = False])
       (simp_all add: c fresh_devices_def)
qed

text \<open>C4. What the kubelet is told stays true to discovery: whatever the file system, the kubelet and
  the shutdown do after a plugin of the controller was started, every report its goroutines ever
  send lists exactly the IOMMU keys of one device type, each of them in the IOMMU map, and each
  healthy or unhealthy.\<close>

theorem reports_list_type_keys:
  assumes "InitiateDevicePlugin w g0 files = (g, files', Some c)" and "wf_maps g0"
    and "(dp, None) \<in> set (started_plugins c)" and "health_step\<^sup>*\<^sup>* (plugin_machine dp ok) s"
  shows "\<exists>d \<in> set (s_ids w g). \<forall>st \<in> set (m_streams s). \<forall>resp \<in> set (sent st).
    map ID resp = get_slice (deviceMap g) d \<and> ID ` set resp \<subseteq> fmdom' (iommuMap g) \<and>
    (\<forall>dev \<in> set resp. Health dev = ''Healthy'' \<or> Health dev = ''Unhealthy'')"
proof -
  have wf: "wf_maps g" using InitiateDevicePlugin_parts(1) [OF assms(1)] create_wf [OF assms(2)] by simp
  obtain d b where d: "d \<in> set (s_ids w g)"
    "health_init (plugin_name g (s_names w g) d) (if b then ''/dev/vfio/devices/'' else ''/dev/vfio/'')
       (get_slice (deviceMap g) d) (plugin_machine dp ok)"
    using InitiateDevicePlugin_parts(2) [OF assms(1)] assms(3) by (rule started_is_initial)
  let ?init = "health_init (plugin_name g (s_names w g) d) (if b then ''/dev/vfio/devices/'' else ''/dev/vfio/'')
    (get_slice (deviceMap g) d)"
  have "reach ?init health_step (plugin_machine dp ok)" by (rule reach_init) (rule d(2))
  then have r: "reach ?init health_step s" using assms(4) by (rule reach_star)
  have keys: "set (get_slice (deviceMap g) d) \<subseteq> fmdom' (iommuMap g)"
    using wf_slice(1) [OF wf] by (force simp: get_slice_def fmlookup_dom'_iff split: option.splits)
  have "map ID resp = get_slice (deviceMap g) d \<and> ID ` set resp \<subseteq> fmdom' (iommuMap g) \<and>
      (\<forall>dev \<in> set resp. Health dev = ''Healthy'' \<or> Health dev = ''Unhealthy'')"
    if "st \<in> set (m_streams s)" "resp \<in> set (sent st)" for st resp
  proof -
    have ok: "report_ok (get_slice (deviceMap g) d) resp" by (rule reachable_reports(1) [OF r that])
    then have "ID ` set resp = set (get_slice (deviceMap g) d)" by (metis report_ok_def set_map)
    with ok keys show ?thesis by (simp add: report_ok_def list_all_iff Healthy_def Unhealthy_def)
  qed
  with d(1) show ?thesis by blast
qed

theorem reports_list_type_keys_witness:
  "\<exists>f c dp s st. InitiateDevicePlugin sample_world init_globals fmempty = (sample_maps init_globals, f, Some c) \<and>
     (dp, None) \<in> set (started_plugins c) \<and> health_step (plugin_machine dp True) s \<and>
     m_streams s = [st] \<and> map (map ID) (sent st) = [[''1'', ''3'']]"
proof -
  obtain f c dp where i: "InitiateDevicePlugin sample_world init_globals fmempty = (sample_maps init_globals, f, Some c)"
    and c: "started_plugins c = [(dp, None)]" by (rule sample_controller)
  then have m: "(dp, None) \<in> set (started_plugins c)" by simp
  let ?s = "open_stream (plugin_machine dp True)"
  obtain d b where "health_init (plugin_name (sample_maps init_globals) (s_names sample_world (sample_maps init_globals)) d)
      (if b then ''/dev/vfio/devices/'' else ''/dev/vfio/'') (get_slice (deviceMap (sample_maps init_globals)) d) (plugin_machine dp True)"
    using InitiateDevicePlugin_parts(2) [OF i] m by (rule started_is_initial)
  then have "server dp" using Start_None(2) by (force simp: health_init_def plugin_machine_def)
  then have st: "health_step (plugin_machine dp True) ?s" by (intro ListAndWatch) (simp add: plugin_machine_def)
  from reports_list_type_keys [OF i wf_init m r_into_rtranclp, OF st]
  have "map ID (devs dp) = [''1'', ''3'']" by (simp add: open_stream_def plugin_machine_def sample_slices)
  then show ?thesis using i m st
    by (intro exI [of _ f] exI [of _ c] exI [of _ dp] exI [of _ ?s] exI [of _ "\<lparr>sent = [devs dp], running = True, selected_stop = stop_ch dp\<rparr>"])
       (simp add: open_stream_def plugin_machine_def)
qed

text \<open>C9. The health check watches what allocation hands out: for every device a plugin
  advertises, the file watched for it is one of the host paths of its allocation, if that succeeds.
  This is for a host on which nothing of it changes: the IOMMUFD probe answers alike at discovery,
  when the plugin is made, in the health check and at the allocation. With IOMMUFD the handle of
  every device offered must be a plain name that starts with vfio, since the key drops that prefix
  and the health check puts it back.\<close>

theorem watched_file_is_allocated:
  assumes "InitiateDevicePlugin w g0 files = (g, files', Some c)" and "wf_maps g0"
    and "s_devices w = Inr pcis" and "supportsIOMMUFD (s_stat w) = Inr b" and "supportsIOMMUFD (s_stat' w) = Inr b"
    and "b \<longrightarrow> (\<forall>d \<in> set pcis. eligible d \<longrightarrow>
      HasPrefix (pci_IommuFD d) ''vfio'' \<and> simple_name (pci_IommuFD d))"
    and "(dp, err) \<in> set (started_plugins c)" and "d \<in> set (devs dp)"
    and "supportsIOMMUFD stat = Inr b" and "Allocate stat g [[ID d]] = Inr [resp]"
  shows "device_file b (devicePath dp) d \<in> HostPath ` set resp"
proof -
  have g: "g = createIommuDeviceMap (s_stat w) (Inr pcis) g0"
    using InitiateDevicePlugin_parts(1) [OF assms(1)] assms(3) by simp
  note cp = InitiateDevicePlugin_parts(2) [OF assms(1)]
  have wf: "wf_maps g" unfolding g by (rule create_wf [OF assms(2)])
  have k: "ID d \<in> fmdom' (iommuMap g)" by (rule plugin_key [OF cp assms(7,8) wf])
  have path: "devicePath dp = (if b then ''/dev/vfio/devices/'' else ''/dev/vfio/'')"
    using cp assms(7) by (rule started_plugin_of) (use assms(5) in simp)
  have "resp = response b (iommuMap g) [ID d]" using Allocate_Inr [OF assms(10)] assms(9) by simp
  then have hp: "HostPath ` set resp = set (key_nodes b (iommuMap g) (ID d))" by (simp add: HostPath_response)
  show ?thesis
  proof (cases b)
    case True
    have fd: "fd_keyed (iommuMap g) (ID d)"
      unfolding g by (rule discovered_fd_keyed) (use assms(4,6) True k in \<open>simp_all add: g\<close>)
    obtain ds where "fmlookup (iommuMap g) (ID d) = Some ds" "ds \<noteq> []"
      using k wf_mapsD(1) [OF wf] by (auto simp: fmlookup_dom'_iff)
    then have "get_slice (iommuMap g) (ID d) \<noteq> []" by (simp add: get_slice_def)
    then obtain p where "p \<in> set (key_nodes True (iommuMap g) (ID d))"
      by (cases "get_slice (iommuMap g) (ID d)") (auto simp: key_nodes_def)
    with key_nodes_fd [OF fd this] device_file_fd [of d] fd show ?thesis
      unfolding hp path by (simp add: True fd_keyed_def)
  next
    case False
    have "simple_name (ID d)"
      using discovered_legacy_simple [of "s_stat w" "ID d" pcis g0] assms(4) False k simple_Itoa by (auto simp: g)
    then show ?thesis unfolding hp path by (simp add: False key_nodes_legacy device_file_legacy)
  qed
qed

theorem watched_file_is_allocated_witness:
  "\<exists>resp. Allocate no_iommufd (sample_maps init_globals) [[''1'']] = Inr [resp] \<and>
     device_file False ''/dev/vfio/'' \<lparr>ID = ''1'', Health = Healthy\<rparr> \<in> HostPath ` set resp"
proof -
  obtain f c dp where i: "InitiateDevicePlugin sample_world init_globals fmempty = (sample_maps init_globals, f, Some c)"
    and c: "started_plugins c = [(dp, None)]" "devs dp = fresh_devices [''1'', ''3'']" by (rule sample_controller)
  let ?d = "\<lparr>ID = ''1'', Health = Healthy\<rparr>"
  have p: "devicePath dp = ''/dev/vfio/''"
    using InitiateDevicePlugin_parts(2) [OF i] by (rule started_plugin_of [where dp = dp and err = None]) (simp_all add: c probe_samples)
  have "allocatable False (iommuMap (sample_maps init_globals)) ''1''"
    unfolding sample_maps_def allocatable_def create_spec(1) [OF probe_samples(1)]
    by (simp add: sample_members slice_opt_def)
  then obtain resp where a: "Allocate no_iommufd (sample_maps init_globals) [[ID ?d]] = Inr [resp]"
    using Allocate_cases [OF probe_samples(1), of "sample_maps init_globals" "[[''1'']]"] by auto
  have "device_file False (devicePath dp) ?d \<in> HostPath ` set resp"
    by (rule watched_file_is_allocated [OF i wf_init _ _ _ _ _ _ _ a, where dp = dp and err = None and pcis = two_gpus])
       (simp_all add: c fresh_devices_def)
  with a show ?thesis by (simp add: p)
qed

text \<open>The plugins of one controller have different sockets exactly when the names of their
  device types differ.\<close>

theorem sockets_distinct:
  assumes "createDevicePlugins stat env names ks g tr = Some c"
  shows "distinct (map (socketPath \<circ> fst) (started_plugins c)) \<longleftrightarrow> distinct (map (plugin_name g names) ks)"
proof -
  obtain b where sp: "start_plugins env g b names ks tr = (started_plugins c, effects c)"
    using assms by (rule createDevicePlugins_Some)
  have "map (socketPath \<circ> fst) (started_plugins c) =
      map (\<lambda>n. DevicePluginPath @ socket_name n) (map (plugin_name g names) ks)"
    using start_plugins_frame(2) [OF sp] by simp
  moreover have "inj (\<lambda>n. DevicePluginPath @ socket_name n)" by (rule injI) (simp add: socket_name_def)
  ultimately show ?thesis by (simp only: distinct_map) (meson inj_on_subset subset_UNIV)
qed

theorem sockets_distinct_witness:
  "\<exists>c. createDevicePlugins no_iommufd all_fine (\<lambda>_. []) [''2331'', ''2330''] (init_globals\<lparr>PGPUAlias := ''pgpu''\<rparr>) [] = Some c \<and>
     \<not> distinct (map (socketPath \<circ> fst) (started_plugins c))"
proof -
  obtain c where c: "createDevicePlugins no_iommufd all_fine (\<lambda>_. []) [''2331'', ''2330''] (init_globals\<lparr>PGPUAlias := ''pgpu''\<rparr>) [] = Some c"
    by (simp add: createDevicePlugins_def Start_fine)
  have "plugin_name (init_globals\<lparr>PGPUAlias := ''pgpu''\<rparr>) (\<lambda>_. []) d = ''pgpu''" for d
    by (simp add: plugin_name_def isNVSwitchDeviceID_def init_globals_def Let_def)
  with sockets_distinct [OF c] c show ?thesis by simp
qed

text \<open>With a GPU alias, as by default, two GPU types on one node give two plugins with the
  same socket and the same resource name; once the first is served, the start of the second
  removes its socket.\<close>

theorem alias_plugins_fight:
  assumes "createDevicePlugins stat env names ks g tr = Some c" and "PGPUAlias g \<noteq> []"
    and "ks = xs @ d # ys @ d' # zs" and "\<not> isNVSwitchDeviceID g d" and "\<not> isNVSwitchDeviceID g d'"
    and "(dp, err) = started_plugins c ! length xs" and "(dp', err') = started_plugins c ! Suc (length xs + length ys)"
  shows "socketPath dp = socketPath dp' \<and> ResourceName (register_request dp) = ResourceName (register_request dp') \<and>
    (err = None \<longrightarrow> (\<exists>us vs ws. effects c = us @ GoServe (socketPath dp) # vs @ RemoveFile (socketPath dp') # ws))"
proof -
  obtain b where sp: "start_plugins env g b names ks tr = (started_plugins c, effects c)"
    using assms(1) by (rule createDevicePlugins_Some)
  have n: "plugin_name g names d = PGPUAlias g" "plugin_name g names d' = PGPUAlias g"
    using assms(2,4,5) by (simp_all add: plugin_name_def Let_def)
  note f = start_plugins_frame [OF sp]
  have len: "length (started_plugins c) = length ks" by (rule map_comp_length [OF f(1)])
  have at: "h (fst (started_plugins c ! i)) = k (ks ! i)"
    if "map (h \<circ> fst) (started_plugins c) = map k ks" "i < length ks" for h :: "GenericDevicePlugin \<Rightarrow> 'b" and k i
    using arg_cong [OF that(1), of "\<lambda>xs. xs ! i"] that(2) len by simp
  have i: "ks ! length xs = d" "ks ! Suc (length xs + length ys) = d'"
    "length xs < length ks" "Suc (length xs + length ys) < length ks"
    by (simp_all add: assms(3) nth_append)
  have dp: "dp = fst (started_plugins c ! length xs)" "dp' = fst (started_plugins c ! Suc (length xs + length ys))"
    and err: "err = snd (started_plugins c ! length xs)"
    using assms(6,7) by (metis fst_conv, metis fst_conv, metis snd_conv)
  have s: "socketPath dp = DevicePluginPath @ socket_name (PGPUAlias g)"
    "socketPath dp' = DevicePluginPath @ socket_name (PGPUAlias g)"
    "deviceName dp = PGPUAlias g" "deviceName dp' = PGPUAlias g"
    unfolding dp using at [OF f(2) i(3)] at [OF f(2) i(4)] at [OF f(3) i(3)] at [OF f(3) i(4)] n
    by (simp_all add: i(1,2))
  have "\<exists>us vs ws. effects c = us @ GoServe (socketPath dp) # vs @ RemoveFile (socketPath dp') # ws" if "err = None"
    unfolding s n(1) [symmetric] using start_plugins_pair [OF sp [unfolded assms(3)]] n that err by simp
  with s show ?thesis by (simp add: register_request_def)
qed

theorem alias_plugins_fight_witness:
  "\<exists>c us vs ws. createDevicePlugins no_iommufd all_fine (\<lambda>_. []) [''2331'', ''2330''] (init_globals\<lparr>PGPUAlias := ''pgpu''\<rparr>) [] = Some c \<and>
     effects c = us @ GoServe ''/var/lib/kubelet/device-plugins/sandbox-pgpu.sock'' # vs @
       RemoveFile ''/var/lib/kubelet/device-plugins/sandbox-pgpu.sock'' # ws"
proof -
  let ?g = "init_globals\<lparr>PGPUAlias := ''pgpu''\<rparr>"
  obtain c where c: "createDevicePlugins no_iommufd all_fine (\<lambda>_. []) [''2331'', ''2330''] ?g [] = Some c"
    by (simp add: createDevicePlugins_def Start_fine)
  obtain b where sp: "start_plugins all_fine ?g b (\<lambda>_. []) [''2331'', ''2330''] [] = (started_plugins c, effects c)"
    using c by (rule createDevicePlugins_Some)
  have "snd (started_plugins c ! 0) = None" using arg_cong [OF sp, of "\<lambda>p. snd (fst p ! 0)"] by (simp add: Start_fine)
  then obtain dp where p0: "started_plugins c ! 0 = (dp, None)" by (cases "started_plugins c ! 0") auto
  obtain dp' err' where p1: "started_plugins c ! 1 = (dp', err')" by fastforce
  have n: "plugin_name ?g (\<lambda>_. []) d = ''pgpu''" "\<not> isNVSwitchDeviceID ?g d" for d
    by (simp_all add: plugin_name_def isNVSwitchDeviceID_def init_globals_def Let_def)
  have len: "length (started_plugins c) = 2" using map_comp_length [OF start_plugins_frame(1) [OF sp]] by simp
  have "socketPath (fst (started_plugins c ! 0)) = DevicePluginPath @ socket_name ''pgpu''"
    using arg_cong [OF start_plugins_frame(2) [OF sp], of "\<lambda>xs. xs ! 0"] len n by simp
  then have s: "socketPath dp = ''/var/lib/kubelet/device-plugins/sandbox-pgpu.sock''"
    by (simp add: p0 DevicePluginPath_def socket_name_def)
  have "socketPath dp = socketPath dp' \<and> ResourceName (register_request dp) = ResourceName (register_request dp') \<and>
      ((None :: go_error option) = None \<longrightarrow> (\<exists>us vs ws. effects c = us @ GoServe (socketPath dp) # vs @ RemoveFile (socketPath dp') # ws))"
    by (rule alias_plugins_fight [OF c, of "[]" "''2331''" "[]" "''2330''" "[]" dp None dp' err'])
       (use p0 p1 n in simp_all)
  with c s show ?thesis by metis
qed

text \<open>Without any environment variable set, the program offers all GPU types under the resource
  nvidia.com/pgpu and all NVSwitch types under nvidia.com/nvswitch, and does not run GPU
  feature discovery.\<close>

theorem default_resources:
  assumes "main (\<lambda>_. None) w files = (g, files', Some c)" and "(dp, err) \<in> set (started_plugins c)"
  shows "(\<exists>d. devs dp = plugin_devices g d \<and> ResourceName (register_request dp) =
      (if isNVSwitchDeviceID g d then ''nvidia.com/nvswitch'' else ''nvidia.com/pgpu'')) \<and> \<not> gfd_launched c"
proof -
  let ?g0 = "configure (\<lambda>_. None) init_globals"
  have i: "InitiateDevicePlugin w ?g0 files = (g, files', Some c)" using assms(1) by (simp add: main_def)
  note cp = InitiateDevicePlugin_parts(2) [OF i]
  have a: "PGPUAlias g = ''pgpu''" "NVSwitchAlias g = ''nvswitch''" "\<not> EnableGFD g"
    unfolding InitiateDevicePlugin_parts(1) [OF i] by (simp_all add: configure_def init_globals_def)
  obtain d where d: "devs dp = plugin_devices g d" "deviceName dp = plugin_name g (s_names w g) d"
    using cp assms(2) by (rule started_plugin_of)
  have "gfd_launched c = EnableGFD g" using cp by (rule createDevicePlugins_Some)
  with a d show ?thesis
    by (intro conjI exI [of _ d]) (simp_all add: register_request_def DeviceNamespace_def plugin_name_def Let_def)
qed

theorem default_resources_witness:
  "\<exists>g f c dp. main (\<lambda>_. None) sample_world fmempty = (g, f, Some c) \<and> (dp, None) \<in> set (started_plugins c) \<and> \<not> gfd_launched c"
proof -
  let ?g0 = "configure (\<lambda>_. None) init_globals"
  obtain f c dp where i: "InitiateDevicePlugin sample_world ?g0 fmempty = (sample_maps ?g0, f, Some c)"
    and c: "started_plugins c = [(dp, None)]" by (rule sample_controller)
  then have m: "main (\<lambda>_. None) sample_world fmempty = (sample_maps ?g0, f, Some c)" "(dp, None) \<in> set (started_plugins c)"
    by (simp_all add: main_def)
  from default_resources [OF this] m show ?thesis by blast
qed

text \<open>C40. The names offered to the kubelet are fit for use: where the aliases have letters, digits,
  underscores and hyphens only, so has the name of every plugin, which is not empty; the
  endpoint it registers, joined to the kubelet's directory, is its socket.\<close>

theorem registered_names_fit:
  assumes "InitiateDevicePlugin w g0 files = (g, files', Some c)" and "wf_maps g0"
    and "range_order (deviceMap g) (s_ids w g)"
    and "list_all allowed_char (PGPUAlias g)" and "list_all allowed_char (NVSwitchAlias g)"
    and "(dp, err) \<in> set (started_plugins c)"
  shows "deviceName dp \<noteq> [] \<and> list_all allowed_char (deviceName dp) \<and>
    Join [DevicePluginPath, Endpoint (register_request dp)] = socketPath dp"
proof -
  have wf: "wf_maps g" using InitiateDevicePlugin_parts(1) [OF assms(1)] create_wf [OF assms(2)] by simp
  obtain d where d: "d \<in> set (s_ids w g)" "deviceName dp = plugin_name g (s_names w g) d"
    "socketPath dp = DevicePluginPath @ socket_name (plugin_name g (s_names w g) d)"
    using InitiateDevicePlugin_parts(2) [OF assms(1)] assms(6) by (rule started_plugin_of)
  have "d \<in> fmdom' (deviceMap g)" using d(1) range_orderD(2) [OF assms(3)] by simp
  then have fit: "fit_name (deviceName dp)"
    unfolding d(2) by (intro plugin_name_fit deviceMap_key_fit [OF wf] assms(4,5))
  have "socketPath dp = socketPath (NewGenericDevicePlugin (deviceName dp) [] [])"
    by (simp add: d(2,3) socketPath_New)
  then have "Endpoint (register_request dp) = Endpoint (register_request (NewGenericDevicePlugin (deviceName dp) [] []))"
    by (simp add: register_request_def)
  with endpoint_path [OF fit_no_slash [OF fit]] fit show ?thesis
    by (simp add: fit_name_def d(2,3) socketPath_New)
qed

theorem registered_names_fit_witness:
  "\<exists>f c dp. InitiateDevicePlugin sample_world init_globals fmempty = (sample_maps init_globals, f, Some c) \<and>
     (dp, None) \<in> set (started_plugins c) \<and> list_all allowed_char (deviceName dp)"
proof -
  obtain f c dp where i: "InitiateDevicePlugin sample_world init_globals fmempty = (sample_maps init_globals, f, Some c)"
    and c: "started_plugins c = [(dp, None)]" by (rule sample_controller)
  have o: "range_order (deviceMap (sample_maps init_globals)) (s_ids sample_world (sample_maps init_globals))"
    by (simp add: sample_slices)
  have a: "PGPUAlias (sample_maps init_globals) = []" "NVSwitchAlias (sample_maps init_globals) = []"
    by (simp_all add: sample_maps_def init_globals_def)
  have "list_all allowed_char (deviceName dp)"
    using registered_names_fit [OF i wf_init o, where dp = dp and err = None] by (simp add: a c)
  with i c show ?thesis by (intro exI [of _ f] exI [of _ c] exI [of _ dp]) simp
qed

text \<open>C34. Shutting down ends: a closed \<^verbatim>\<open>stop\<close> finds the plugins of the controller, as they were
  started, with no token in their channels, so every \<^verbatim>\<open>Stop\<close> returns, in turn, and each plugin's
  socket is removed. In general the loop does not return exactly when some plugin runs with the
  token of an earlier \<^verbatim>\<open>Stop\<close> left.\<close>

theorem shutdown_terminates:
  assumes "createDevicePlugins stat env names ks g tr = Some c"
  shows "stop_plugins env' (device_plugins c) tr' = Some (tr' @ concat (map stop_effects (device_plugins c))) \<and>
    (stop_plugins env' dps tr' = None \<longleftrightarrow> list_ex (\<lambda>dp. server dp \<and> term_buf dp \<noteq> []) dps)"
proof -
  obtain b where sp: "start_plugins env g b names ks tr = (started_plugins c, effects c)"
    using assms by (rule createDevicePlugins_Some)
  have "list_all (\<lambda>dp. server dp \<and> term_buf dp = []) (device_plugins c)"
    using start_plugins_running [OF sp] by (auto simp: device_plugins_def list_all_iff)
  then show ?thesis by (simp add: stop_plugins_effects stop_plugins_None)
qed

theorem shutdown_terminates_witness:
  "\<exists>c dp. createDevicePlugins no_iommufd all_fine (\<lambda>_. []) [''2331''] init_globals [] = Some c \<and>
     device_plugins c = [dp] \<and>
     stop_plugins all_fine (device_plugins c) (effects c) =
       Some (effects c @ [SendTerm, ServerStop, RemoveFile ''/var/lib/kubelet/device-plugins/sandbox-2331.sock''])"
proof -
  let ?dp = "new_plugin init_globals False (\<lambda>_. []) ''2331''\<lparr>stop_ch := Global_stop, server := True\<rparr>"
  obtain c where c: "createDevicePlugins no_iommufd all_fine (\<lambda>_. []) [''2331''] init_globals [] = Some c"
    and d: "device_plugins c = [?dp]"
    by (simp add: createDevicePlugins_def Start_fine device_plugins_def)
  have "plugin_name init_globals (\<lambda>_. []) ''2331'' = ''2331''"
    by (simp add: plugin_name_def isNVSwitchDeviceID_def init_globals_def Let_def)
  then have "stop_effects ?dp = [SendTerm, ServerStop, RemoveFile ''/var/lib/kubelet/device-plugins/sandbox-2331.sock'']"
    by (simp add: stop_effects_def DevicePluginPath_def socket_name_def)
  with shutdown_terminates [OF c, of all_fine "effects c"] c d show ?thesis by simp
qed




end
